(* ===== verification/Prelude.thy ===== *)
theory Prelude
  imports Main "HOL-Library.Word"
begin

text \<open>
  Shared vocabulary of the ninjastorms development: the C integer types of
  \<^verbatim>\<open>libc/include/sys/types.h\<close> as fixed-width words, the theorem collections the component
  theories feed, and generic facts on words, ranges of addresses and lists.
\<close>

unbundle bit_operations_syntax

section \<open>Types\<close>

text \<open>\<^verbatim>\<open>libc/include/sys/types.h\<close>: \<^verbatim>\<open>uint8_t\<close> to \<^verbatim>\<open>uint64_t\<close>; \<^verbatim>\<open>size_t\<close> is \<^verbatim>\<open>unsigned int\<close>.\<close>

type_synonym u8 = "8 word"
type_synonym u16 = "16 word"
type_synonym u32 = "32 word"
type_synonym u64 = "64 word"
type_synonym size_t = "32 word"

section \<open>Theorem collections\<close>

named_theorems mem_simps \<open>reads from and writes to byte memory\<close>
named_theorems frame_simps \<open>fields of the kernel state an operation leaves alone\<close>
named_theorems const_defs \<open>constants of the source's headers\<close>

section \<open>Words\<close>

text \<open>Byte \<open>i\<close> of a word, counted from the least significant one.\<close>

definition byte_of :: "'a::len word \<Rightarrow> nat \<Rightarrow> u8" where
  "byte_of w i = ucast (drop_bit (8 * i) w)"

lemma bit_byte_of: "bit (byte_of (w :: 'a::len word) i) n \<longleftrightarrow> n < 8 \<and> bit w (8 * i + n)"
  by (auto simp: byte_of_def bit_simps dest: bit_imp_le_length)

lemma nat_less_8_cases:
  "(n :: nat) < 8 \<Longrightarrow> n = 0 \<or> n = 1 \<or> n = 2 \<or> n = 3 \<or> n = 4 \<or> n = 5 \<or> n = 6 \<or> n = 7"
  by arith

lemma nat_less_4_cases: "(n :: nat) < 4 \<Longrightarrow> n = 0 \<or> n = 1 \<or> n = 2 \<or> n = 3"
  by arith

lemma word8_eqI:
  assumes "\<And>n. n < 8 \<Longrightarrow> bit (x :: u8) n = bit y n"
  shows "x = y"
  using assms by (intro bit_word_eqI) auto

text \<open>Equality of bytes with concrete masks, bit by bit.\<close>

lemma word8_bitsI:
  "bit x 0 = bit y 0 \<Longrightarrow> bit x 1 = bit y 1 \<Longrightarrow> bit x 2 = bit y 2 \<Longrightarrow> bit x 3 = bit y 3 \<Longrightarrow>
   bit x 4 = bit y 4 \<Longrightarrow> bit x 5 = bit y 5 \<Longrightarrow> bit x 6 = bit y 6 \<Longrightarrow> bit x 7 = bit y 7 \<Longrightarrow> (x :: u8) = y"
  by (rule word8_eqI) (drule nat_less_8_cases, elim disjE, simp_all)

lemma unat_of_nat_small: "n < 2 ^ LENGTH('a) \<Longrightarrow> unat (of_nat n :: 'a::len word) = n"
  by (simp add: unat_of_nat take_bit_nat_eq_self)

text \<open>Two words whose distance is \<open>k\<close> differ by \<open>of_nat k\<close>.\<close>

lemma word_diff_eq_of_nat: "unat (x - a) = k \<Longrightarrow> (x :: 'a::len word) = a + of_nat k"
proof -
  assume "unat (x - a) = k"
  then have "of_nat k = x - a" by auto
  then show ?thesis by (simp add: algebra_simps)
qed

lemma unat_add_small:
  assumes "unat (a :: u32) + n < 2 ^ 32"
  shows "unat (a + of_nat n) = unat a + n"
  using assms by (simp add: unat_word_ariths unat_of_nat)

lemma unat_diff_same: "unat (a + of_nat k - (a :: u32)) = k mod 2 ^ 32"
  by (simp add: unat_of_nat)

lemma unat_Suc_less:
  assumes "(i :: 'a::len word) < limit"
  shows "unat (i + 1) = Suc (unat i)"
proof -
  have "unat limit < 2 ^ LENGTH('a)" by (rule unsigned_less)
  moreover have "Suc (unat i) \<le> unat limit" using assms by (simp add: word_less_nat_alt)
  ultimately have "Suc (unat i) < 2 ^ LENGTH('a)" by (rule le_less_trans [rotated])
  then show ?thesis by (simp add: unat_word_ariths)
qed

section \<open>Lists\<close>

lemma take_update_last:
  "n < length xs \<Longrightarrow> take (Suc n) (xs[n := x]) = take n xs @ [x]"
  by (simp add: take_Suc_conv_app_nth)

end
