(* ===== verification/Memory.thy ===== *)
theory Memory
  imports Prelude
begin

text \<open>
  Byte-addressed memory of the 32-bit ARM target, little-endian loads and stores of any
  width, and the routines of \<^verbatim>\<open>libc/string\<close> (\<^verbatim>\<open>memcpy\<close>, \<^verbatim>\<open>memset\<close>, \<^verbatim>\<open>memcmp\<close>) as the loops
  they are. Addresses wrap around modulo \<open>2 ^ 32\<close>, as pointer arithmetic does on the target.
\<close>

section \<open>Memory, loads and stores\<close>

type_synonym addr = "32 word"
type_synonym mem = "addr \<Rightarrow> u8"

text \<open>A store of the low \<open>n\<close> bytes of \<open>v\<close> at address \<open>a\<close>.\<close>

definition store_le :: "mem \<Rightarrow> addr \<Rightarrow> nat \<Rightarrow> 'a::len word \<Rightarrow> mem" where
  "store_le m a n v = (\<lambda>x. if unat (x - a) < n then byte_of v (unat (x - a)) else m x)"

text \<open>A load of \<open>n\<close> bytes at address \<open>a\<close>, least significant byte first.\<close>

fun load_le :: "mem \<Rightarrow> addr \<Rightarrow> nat \<Rightarrow> 'a::len word" where
  "load_le m a 0 = 0"
| "load_le m a (Suc n) = ucast (m a) OR push_bit 8 (load_le m (a + 1) n)"

definition load32 :: "mem \<Rightarrow> addr \<Rightarrow> u32" where
  "load32 m a = load_le m a 4"

definition store32 :: "mem \<Rightarrow> addr \<Rightarrow> u32 \<Rightarrow> mem" where
  "store32 m a v = store_le m a 4 v"

text \<open>The bytes of an object of \<open>n\<close> bytes at \<open>a\<close>, and writing a list of bytes.\<close>

definition load_bytes :: "mem \<Rightarrow> addr \<Rightarrow> nat \<Rightarrow> u8 list" where
  "load_bytes m a n = map (\<lambda>i. m (a + of_nat i)) [0..<n]"

fun store_bytes :: "mem \<Rightarrow> addr \<Rightarrow> u8 list \<Rightarrow> mem" where
  "store_bytes m a [] = m"
| "store_bytes m a (b # bs) = store_bytes (m(a := b)) (a + 1) bs"

text \<open>\<open>x\<close> is one of the \<open>n\<close> bytes that start at \<open>a\<close>.\<close>

definition in_range :: "addr \<Rightarrow> addr \<Rightarrow> nat \<Rightarrow> bool" where
  "in_range x a n \<longleftrightarrow> unat (x - a) < n"

text \<open>Two ranges of bytes share no address.\<close>

definition disjoint_ranges :: "addr \<Rightarrow> nat \<Rightarrow> addr \<Rightarrow> nat \<Rightarrow> bool" where
  "disjoint_ranges a n b k \<longleftrightarrow> (\<forall>i < n. \<not> in_range (a + of_nat i) b k)"

section \<open>The string routines of libc\<close>

text \<open>\<^verbatim>\<open>memcpy\<close>: one byte per iteration, ascending.\<close>

fun memcpy_loop :: "mem \<Rightarrow> addr \<Rightarrow> addr \<Rightarrow> nat \<Rightarrow> nat \<Rightarrow> mem" where
  "memcpy_loop m dest src i 0 = m"
| "memcpy_loop m dest src i (Suc k) =
     memcpy_loop (m(dest + of_nat i := m (src + of_nat i))) dest src (Suc i) k"

definition memcpy :: "mem \<Rightarrow> addr \<Rightarrow> addr \<Rightarrow> size_t \<Rightarrow> mem" where
  "memcpy m dest src n = memcpy_loop m dest src 0 (unat n)"

text \<open>
  \<^verbatim>\<open>memset\<close>: the loop runs while \<^verbatim>\<open>i < s + n\<close>; where \<^verbatim>\<open>s + n\<close> wraps around, the test fails at
  once and nothing is written.
\<close>

function memset_loop :: "mem \<Rightarrow> addr \<Rightarrow> addr \<Rightarrow> u8 \<Rightarrow> mem" where
  "memset_loop m i limit c =
     (if i < limit then memset_loop (m(i := c)) (i + 1) limit c else m)"
  by pat_completeness auto
termination
proof (relation "measure (\<lambda>(m, i, limit, c). unat limit - unat i)")
  fix m :: mem and i limit :: addr and c :: u8
  assume "i < limit"
  then have "unat (i + 1) = Suc (unat i)"
    by (rule unat_Suc_less)
  with \<open>i < limit\<close> show "((m(i := c), i + 1, limit, c), (m, i, limit, c))
      \<in> measure (\<lambda>(m, i, limit, c). unat limit - unat i)"
    by (simp add: word_less_nat_alt)
qed simp

declare memset_loop.simps [simp del]

definition memset :: "mem \<Rightarrow> addr \<Rightarrow> u32 \<Rightarrow> size_t \<Rightarrow> mem" where
  "memset m s c n = memset_loop m s (s + n) (ucast c)"

text \<open>
  \<^verbatim>\<open>memcmp\<close>: \<^verbatim>\<open>char\<close> is unsigned on the target, so the difference of the first differing bytes is
  between -255 and 255.
\<close>

fun memcmp_loop :: "mem \<Rightarrow> addr \<Rightarrow> addr \<Rightarrow> nat \<Rightarrow> nat \<Rightarrow> int" where
  "memcmp_loop m s1 s2 i 0 = 0"
| "memcmp_loop m s1 s2 i (Suc k) =
     (let res = uint (m (s1 + of_nat i)) - uint (m (s2 + of_nat i))
      in if res \<noteq> 0 then res else memcmp_loop m s1 s2 (Suc i) k)"

definition memcmp :: "mem \<Rightarrow> addr \<Rightarrow> addr \<Rightarrow> size_t \<Rightarrow> int" where
  "memcmp m s1 s2 n = memcmp_loop m s1 s2 0 (unat n)"

section \<open>Loads and stores\<close>

lemma in_range_offset: "n \<le> 2 ^ 32 \<Longrightarrow> in_range x a n \<longleftrightarrow> (\<exists>i < n. x = a + of_nat i)"
proof
  assume "in_range x a n"
  then show "\<exists>i < n. x = a + of_nat i"
    by (metis in_range_def word_diff_eq_of_nat)
next
  assume "n \<le> 2 ^ 32" and "\<exists>i < n. x = a + of_nat i"
  then show "in_range x a n"
    by (auto simp: in_range_def unat_of_nat take_bit_nat_eq_self)
qed

lemma offset_Suc: "a + of_nat (Suc i) = a + of_nat i + (1 :: addr)"
  by (simp add: algebra_simps)

lemma disjoint_rangesD:
  "disjoint_ranges a n b k \<Longrightarrow> i < n \<Longrightarrow> \<not> in_range (a + of_nat i) b k"
  by (simp add: disjoint_ranges_def)

text \<open>Ranges that do not wrap around compare as intervals of naturals.\<close>

lemma in_range_unat:
  assumes "unat a + n \<le> 2 ^ 32"
  shows "in_range x a n \<longleftrightarrow> unat a \<le> unat x \<and> unat x < unat a + n"
proof (cases "a \<le> x")
  case True
  then have "unat (x - a) = unat x - unat a" by (rule unat_sub)
  with True show ?thesis by (auto simp: in_range_def word_le_nat_alt)
next
  case False
  then have "unat (x - a) = 2 ^ 32 + unat x - unat a"
    by (simp add: unat_sub_if' word_le_nat_alt)
  with False assms show ?thesis by (auto simp: in_range_def word_le_nat_alt)
qed

lemma disjoint_rangesI:
  assumes "unat a + n \<le> unat b \<or> unat b + k \<le> unat a"
    and "unat a + n \<le> 2 ^ 32" "unat b + k \<le> 2 ^ 32"
  shows "disjoint_ranges a n b k"
  unfolding disjoint_ranges_def
proof (intro allI impI)
  fix i assume "i < n"
  then have "unat (a + of_nat i) = unat a + i" using assms(2) by (intro unat_add_small) simp
  with \<open>i < n\<close> assms show "\<not> in_range (a + of_nat i) b k" by (auto simp: in_range_unat)
qed

lemma store_le_same [mem_simps]: "in_range x a n \<Longrightarrow> store_le m a n v x = byte_of v (unat (x - a))"
  by (simp add: store_le_def in_range_def)

lemma store_le_other [mem_simps]: "\<not> in_range x a n \<Longrightarrow> store_le m a n v x = m x"
  by (simp add: store_le_def in_range_def)

lemma bit_load_le:
  "bit (load_le m a n :: 'a::len word) k \<longleftrightarrow>
     k < LENGTH('a) \<and> k < 8 * n \<and> bit (m (a + of_nat (k div 8))) (k mod 8)"
proof (induction n arbitrary: a k)
  case 0
  then show ?case by simp
next
  case (Suc n)
  show ?case
  proof (cases "k < 8")
    case True
    then show ?thesis by (auto simp: bit_simps)
  next
    case False
    then have k: "k div 8 = Suc ((k - 8) div 8)" "k mod 8 = (k - 8) mod 8"
      by (simp_all add: le_div_geq le_mod_geq)
    have "\<not> bit (m a) k" using False by (auto dest: bit_imp_le_length)
    with False Suc.IH [of "a + 1" "k - 8"] show ?thesis
      by (auto simp: bit_simps k add.assoc dest: bit_imp_le_length)
  qed
qed

text \<open>A load at the address of a store of the same width gives the stored bytes back.\<close>

lemma load_le_store_le_same [mem_simps]:
  fixes v :: "'a::len word"
  assumes "8 * n = LENGTH('a)" "n \<le> 2 ^ 32"
  shows "load_le (store_le m a n v) a n = v"
proof (rule bit_word_eqI)
  fix k assume k: "k < LENGTH('a)"
  then have kn: "k div 8 < n" using assms(1) by auto
  then have "unat (a + of_nat (k div 8) - a) = k div 8"
    using assms(2) by (simp only: unat_diff_same) simp
  then show "bit (load_le (store_le m a n v) a n :: 'a word) k = bit v k"
    using k kn assms(1) by (simp add: bit_load_le store_le_def bit_byte_of)
qed

lemma load_le_cong:
  "(\<And>i. i < n \<Longrightarrow> m (a + of_nat i) = m' (a + of_nat i)) \<Longrightarrow> load_le m a n = load_le m' a n"
proof (induction n arbitrary: a)
  case 0
  then show ?case by simp
next
  case (Suc n)
  have "load_le m (a + 1) n = (load_le m' (a + 1) n :: 'a word)"
  proof (rule Suc.IH)
    fix i assume "i < n"
    then show "m (a + 1 + of_nat i) = m' (a + 1 + of_nat i)"
      using Suc.prems [of "Suc i"] by (simp add: add.assoc)
  qed
  moreover have "m a = m' a" using Suc.prems [of 0] by simp
  ultimately show ?case by simp
qed

lemma load_le_store_le_other [mem_simps]:
  "disjoint_ranges b k a n \<Longrightarrow> load_le (store_le m a n v) b k = load_le m b k"
  by (rule load_le_cong) (simp add: disjoint_rangesD store_le_other)

lemma load32_store32_same [mem_simps]: "load32 (store32 m a v) a = v"
  by (simp add: load32_def store32_def load_le_store_le_same)

lemma load32_store32_other [mem_simps]:
  "disjoint_ranges b 4 a 4 \<Longrightarrow> load32 (store32 m a v) b = load32 m b"
  by (simp add: load32_def store32_def load_le_store_le_other)

lemma load32_cong:
  "(\<And>i. i < 4 \<Longrightarrow> m (a + of_nat i) = m' (a + of_nat i)) \<Longrightarrow> load32 m a = load32 m' a"
  by (simp only: load32_def) (rule load_le_cong)

text \<open>
  Reading a store back byte by byte, and comparing memories on a range and outside of it: the
  facts the proofs on overlapping accesses rest on.
\<close>

lemma store_le_offset:
  assumes "k < 16" "off < 16" "n \<le> 16"
  shows "store_le m (b + of_nat off) n v (b + of_nat k) =
    (if off \<le> k \<and> k < off + n then byte_of v (k - off) else m (b + of_nat k))"
proof -
  have "unat (of_nat k :: addr) = k" "unat (of_nat off :: addr) = off"
    using assms by (simp_all add: unat_of_nat_small)
  then have "unat (b + of_nat k - (b + of_nat off)) = (if off \<le> k then k - off else k + 2 ^ 32 - off)"
    by (simp add: unat_sub_if')
  then show ?thesis using assms by (auto simp: store_le_def)
qed

lemma in_range_sub:
  assumes "in_range x (b + of_nat off) n" "off + n \<le> k" "k \<le> 2 ^ 32"
  shows "in_range x b k"
proof -
  from assms obtain i where "i < n" "x = b + of_nat (off + i)"
    by (auto simp: in_range_offset add.assoc)
  moreover from this(1) assms have "off + i < k" by simp
  ultimately show ?thesis using assms(3) in_range_offset by blast
qed

lemma in_range_append:
  assumes "k + n \<le> 2 ^ 32"
  shows "in_range x a (k + n) \<longleftrightarrow> in_range x a k \<or> in_range x (a + of_nat k) n"
proof
  assume r: "in_range x a (k + n)"
  show "in_range x a k \<or> in_range x (a + of_nat k) n"
  proof (cases "in_range x a k")
    case False
    with r obtain j where "j < n" "x = a + of_nat (k + j)"
      using in_range_offset [OF assms, of x a] in_range_offset [of k x a] assms
      by (metis add_less_cancel_left add_leE le_add_diff_inverse not_less)
    then show ?thesis using in_range_offset [of n x "a + of_nat k"] assms by (auto simp: add.assoc)
  qed simp
next
  assume "in_range x a k \<or> in_range x (a + of_nat k) n"
  then show "in_range x a (k + n)" using in_range_sub [of x a k n] assms by (auto simp: in_range_def)
qed

lemma mem_eqI_range:
  assumes "\<And>k. k < n \<Longrightarrow> m (b + of_nat k) = m' (b + of_nat k)"
    and "\<And>x. \<not> in_range x b n \<Longrightarrow> m x = m' x"
    and "n \<le> 2 ^ 32"
  shows "m = m'"
proof
  fix x
  show "m x = m' x"
  proof (cases "in_range x b n")
    case True
    with assms(3) obtain k where "k < n" "x = b + of_nat k" by (auto simp: in_range_offset)
    with assms(1) show ?thesis by simp
  next
    case False
    then show ?thesis by (rule assms(2))
  qed
qed

section \<open>Objects as byte lists\<close>

lemma length_load_bytes [simp]: "length (load_bytes m a n) = n"
  by (simp add: load_bytes_def)

lemma nth_load_bytes [simp]: "i < n \<Longrightarrow> load_bytes m a n ! i = m (a + of_nat i)"
  by (simp add: load_bytes_def)

lemma load_bytes_cong:
  "(\<And>i. i < n \<Longrightarrow> m (a + of_nat i) = m' (a + of_nat i)) \<Longrightarrow> load_bytes m a n = load_bytes m' a n"
  by (simp add: load_bytes_def)

lemma load_bytes_Suc: "load_bytes m a (Suc n) = m a # load_bytes m (a + 1) n"
  by (simp add: load_bytes_def upt_conv_Cons comp_def add.assoc flip: map_Suc_upt del: upt_Suc)

lemma load_bytes_append:
  "load_bytes m a (n + k) = load_bytes m a n @ load_bytes m (a + of_nat n) k"
  by (rule nth_equalityI) (auto simp: nth_append add.assoc simp flip: of_nat_add)

lemma store_bytes_apply:
  "length bs \<le> 2 ^ 32 \<Longrightarrow>
   store_bytes m a bs x = (if in_range x a (length bs) then bs ! unat (x - a) else m x)"
proof (induction bs arbitrary: m a)
  case Nil
  then show ?case by (simp add: in_range_def)
next
  case (Cons b bs)
  show ?case
  proof (cases "x = a")
    case True
    have "unat (- 1 :: addr) = 2 ^ 32 - 1"
      by (simp add: unsigned_minus_1_eq_mask mask_eq_exp_minus_1)
    then have "\<not> in_range a (a + 1) (length bs)"
      using Cons.prems by (simp add: in_range_def)
    with True Cons show ?thesis by (simp add: in_range_def)
  next
    case False
    then have "x - a \<noteq> 0" by simp
    then have "unat (x - a) = Suc (unat (x - a - 1))"
      using unat_minus_one [of "x - a"] unat_gt_0 [of "x - a"] by simp
    then have "unat (x - a) = Suc (unat (x - (a + 1)))"
      by (simp add: diff_diff_eq)
    with False Cons show ?thesis by (simp add: in_range_def)
  qed
qed

lemma load_bytes_store_bytes_same [mem_simps]:
  "length bs \<le> 2 ^ 32 \<Longrightarrow> load_bytes (store_bytes m a bs) a (length bs) = bs"
  by (rule nth_equalityI)
    (auto simp: store_bytes_apply in_range_def unat_of_nat take_bit_nat_eq_self)

lemma store_bytes_other [mem_simps]:
  "length bs \<le> 2 ^ 32 \<Longrightarrow> \<not> in_range x a (length bs) \<Longrightarrow> store_bytes m a bs x = m x"
  by (simp add: store_bytes_apply)

lemma load_bytes_store_bytes_other [mem_simps]:
  "length bs \<le> 2 ^ 32 \<Longrightarrow> disjoint_ranges b n a (length bs) \<Longrightarrow>
   load_bytes (store_bytes m a bs) b n = load_bytes m b n"
  by (rule load_bytes_cong) (simp add: disjoint_rangesD store_bytes_other)

section \<open>What the string routines compute\<close>

lemma memcpy_loop_eq:
  assumes "disjoint_ranges (dest + of_nat i) k (src + of_nat i) k" "k \<le> 2 ^ 32"
  shows "memcpy_loop m dest src i k =
         store_bytes m (dest + of_nat i) (load_bytes m (src + of_nat i) k)"
  using assms
proof (induction k arbitrary: m i)
  case 0
  then show ?case by (simp add: load_bytes_def)
next
  case (Suc k)
  let ?d = "dest + of_nat i" and ?s = "src + of_nat i"
  have disj: "\<not> in_range (?d + of_nat j) ?s (Suc k)" if "j < Suc k" for j
    using Suc.prems(1) that by (rule disjoint_rangesD)
  have "disjoint_ranges (dest + of_nat (Suc i)) k (src + of_nat (Suc i)) k"
    unfolding disjoint_ranges_def
  proof (intro allI impI notI)
    fix j assume j: "j < k" and "in_range (dest + of_nat (Suc i) + of_nat j) (src + of_nat (Suc i)) k"
    then obtain l where "l < k" and
      "dest + of_nat (Suc i) + of_nat j = src + of_nat (Suc i) + of_nat l"
      using Suc.prems(2) by (auto simp: in_range_offset)
    then have "?d + of_nat (Suc j) = ?s + of_nat (Suc l)" and "Suc l < Suc k"
      by (simp_all add: algebra_simps)
    then have "in_range (?d + of_nat (Suc j)) ?s (Suc k)"
      using Suc.prems(2) by (auto simp: in_range_offset simp del: of_nat_Suc)
    with disj [of "Suc j"] j show False by simp
  qed
  then have "memcpy_loop m dest src i (Suc k) =
     store_bytes (m(?d := m ?s)) (?d + 1)
       (load_bytes (m(?d := m ?s)) (?s + 1) k)"
    using Suc by (simp add: offset_Suc del: of_nat_Suc)
  also have "load_bytes (m(?d := m ?s)) (?s + 1) k = load_bytes m (?s + 1) k"
  proof (rule load_bytes_cong)
    fix j assume "j < k"
    then have "in_range (?s + of_nat (Suc j)) ?s (Suc k)"
      using Suc.prems(2) by (auto simp: in_range_offset simp del: of_nat_Suc)
    moreover have "\<not> in_range ?d ?s (Suc k)" using disj [of 0] by simp
    ultimately have "?s + of_nat (Suc j) \<noteq> ?d" by metis
    then show "(m(?d := m ?s)) (?s + 1 + of_nat j) = m (?s + 1 + of_nat j)"
      by (simp add: add.assoc)
  qed
  finally show ?case by (simp add: load_bytes_Suc fun_upd_def)
qed

lemma memcpy_eq:
  assumes "disjoint_ranges dest (unat n) src (unat n)"
  shows "memcpy m dest src n = store_bytes m dest (load_bytes m src (unat n))"
proof -
  have "unat n \<le> 2 ^ 32" using unsigned_less [of n, where 'a = nat] by simp
  with assms memcpy_loop_eq [of dest 0 "unat n" src m] show ?thesis
    by (simp add: memcpy_def)
qed

text \<open>
  A copy whose source may overlap the destination: the bytes outside the destination stay, and a byte of
  the source that is not in the destination arrives.
\<close>

lemma memcpy_loop_outside:
  "k \<le> 2 ^ 32 \<Longrightarrow> \<not> in_range x (dest + of_nat i) k \<Longrightarrow> memcpy_loop m dest src i k x = m x"
proof (induction k arbitrary: i m)
  case (Suc k)
  have "x \<noteq> dest + of_nat i" using Suc.prems(2) by (auto simp: in_range_def)
  moreover have "\<not> in_range x (dest + of_nat (Suc i)) k"
  proof
    assume "in_range x (dest + of_nat (Suc i)) k"
    then have "in_range x (dest + of_nat i + of_nat 1) k" by (simp add: algebra_simps)
    then have "in_range x (dest + of_nat i) (Suc k)" by (rule in_range_sub) (use Suc.prems(1) in auto)
    with Suc.prems(2) show False by blast
  qed
  ultimately show ?case using Suc by simp
qed simp

lemma memcpy_loop_inside:
  "k \<le> 2 ^ 32 \<Longrightarrow> j < k \<Longrightarrow> \<not> in_range (src + of_nat (i + j)) (dest + of_nat i) k \<Longrightarrow>
   memcpy_loop m dest src i k (dest + of_nat (i + j)) = m (src + of_nat (i + j))"
proof (induction k arbitrary: i j m)
  case (Suc k)
  let ?m = "m(dest + of_nat i := m (src + of_nat i))"
  show ?case
  proof (cases j)
    case 0
    have "unat (- 1 :: addr) = 2 ^ 32 - 1"
      by (simp add: unsigned_minus_1_eq_mask mask_eq_exp_minus_1)
    moreover have "dest + of_nat i - (dest + of_nat (Suc i)) = - 1" by (simp add: algebra_simps)
    ultimately have "\<not> in_range (dest + of_nat i) (dest + of_nat (Suc i)) k"
      using Suc.prems(1) by (simp only: in_range_def not_less)
    then have "memcpy_loop ?m dest src (Suc i) k (dest + of_nat i) = ?m (dest + of_nat i)"
      using Suc.prems(1) by (intro memcpy_loop_outside) auto
    then show ?thesis using 0 by simp
  next
    case (Suc l)
    let ?s = "src + of_nat (Suc i + l)"
    have ne: "?s \<noteq> dest + of_nat i" using Suc.prems(3) Suc by (auto simp: in_range_def)
    have "\<not> in_range ?s (dest + of_nat (Suc i)) k"
    proof
      assume "in_range ?s (dest + of_nat (Suc i)) k"
      then have "in_range ?s (dest + of_nat i + of_nat 1) k" by (simp add: algebra_simps)
      then have "in_range ?s (dest + of_nat i) (Suc k)" by (rule in_range_sub) (use Suc.prems(1) in auto)
      with Suc.prems(3) Suc show False by simp
    qed
    with Suc.IH [of l "Suc i" ?m] Suc.prems(1,2) Suc ne show ?thesis by (simp add: fun_upd_def)
  qed
qed simp

lemma memset_loop_eq:
  "memset_loop m i limit c = (\<lambda>x. if i \<le> x \<and> x < limit then c else m x)"
proof (induction m i limit c rule: memset_loop.induct)
  case (1 m i limit c)
  show ?case
  proof (cases "i < limit")
    case True
    then have "unat (i + 1) = Suc (unat i)" by (rule unat_Suc_less)
    then have "i + 1 \<le> x \<longleftrightarrow> i < x" for x
      by (simp add: word_le_nat_alt word_less_nat_alt Suc_le_eq)
    moreover have "memset_loop m i limit c = memset_loop (m(i := c)) (i + 1) limit c"
      using True by (subst memset_loop.simps) simp
    ultimately show ?thesis
      using True by (auto simp: "1.IH" [OF True] fun_eq_iff)
  next
    case False
    then show ?thesis by (subst memset_loop.simps) (auto simp: fun_eq_iff)
  qed
qed

lemma memset_eq:
  assumes "unat s + unat n < 2 ^ 32"
  shows "memset m s c n = (\<lambda>x. if in_range x s (unat n) then ucast c else m x)"
proof -
  have lim: "unat (s + n) = unat s + unat n"
    using assms by (simp add: unat_word_ariths)
  have "s \<le> x \<and> x < s + n \<longleftrightarrow> in_range x s (unat n)" for x
    using assms lim by (auto simp: in_range_unat word_le_nat_alt word_less_nat_alt)
  then show ?thesis by (simp add: memset_def memset_loop_eq)
qed

lemma memcmp_loop_zero_iff:
  "memcmp_loop m s1 s2 i k = 0 \<longleftrightarrow>
   load_bytes m (s1 + of_nat i) k = load_bytes m (s2 + of_nat i) k"
proof (induction k arbitrary: i)
  case 0
  then show ?case by (simp add: load_bytes_def)
next
  case (Suc k)
  from Suc [of "Suc i"] show ?case
    by (simp add: load_bytes_Suc Let_def offset_Suc word_uint_eq_iff del: of_nat_Suc)
qed

end
