(* ===== verification/Machine.thy ===== *)
theory Machine
  imports Memory
begin

text \<open>
  The bottom of the kernel state and of the call graph: the device bus, \<^verbatim>\<open>kernel/mmio.c\<close> and
  \<^verbatim>\<open>kernel/pci/pci_mmio.c\<close>.

  Every volatile access is an event on the bus. What a read returns is the device's business: the
  device is a parameter of the model, a function from the history of events (newest first), the
  width of the access in bytes and the address to the value read. A memory-like device
  (\<open>ram_device\<close>) is one instance; the theorems on the PCI writes say that on such a device the
  read-modify-write sequences of \<^verbatim>\<open>pci_mmio.c\<close> are byte-exact little-endian stores.
\<close>

section \<open>The bus\<close>

datatype io_event = In nat addr u64 | Out nat addr u64

type_synonym device = "io_event list \<Rightarrow> nat \<Rightarrow> addr \<Rightarrow> u64"

text \<open>
  The part of the kernel state every component shares: the characters the UART has received
  (\<^verbatim>\<open>putchar\<close>), the bus history and the global \<^verbatim>\<open>errno\<close> of \<^verbatim>\<open>libc/errno/errno.c\<close>. The records of
  the other components extend it, so that an operation applies unchanged to every later state.
\<close>

record io_state =
  console :: string
  io :: "io_event list"
  errno :: u32

definition bus_read :: "device \<Rightarrow> nat \<Rightarrow> addr \<Rightarrow> 's io_state_scheme \<Rightarrow> u64 \<times> 's io_state_scheme" where
  "bus_read dev w a s =
     (let v = take_bit (8 * w) (dev (io s) w a) in (v, s\<lparr>io := In w a v # io s\<rparr>))"

definition bus_write :: "nat \<Rightarrow> addr \<Rightarrow> u64 \<Rightarrow> 's io_state_scheme \<Rightarrow> 's io_state_scheme" where
  "bus_write w a v s = s\<lparr>io := Out w a v # io s\<rparr>"

section \<open>kernel/mmio.c\<close>

definition read8 :: "device \<Rightarrow> addr \<Rightarrow> 's io_state_scheme \<Rightarrow> u8 \<times> 's io_state_scheme" where
  "read8 dev a s = (let (v, s) = bus_read dev 1 a s in (ucast v, s))"

definition read16 :: "device \<Rightarrow> addr \<Rightarrow> 's io_state_scheme \<Rightarrow> u16 \<times> 's io_state_scheme" where
  "read16 dev a s = (let (v, s) = bus_read dev 2 a s in (ucast v, s))"

definition read32 :: "device \<Rightarrow> addr \<Rightarrow> 's io_state_scheme \<Rightarrow> u32 \<times> 's io_state_scheme" where
  "read32 dev a s = (let (v, s) = bus_read dev 4 a s in (ucast v, s))"

definition read64 :: "device \<Rightarrow> addr \<Rightarrow> 's io_state_scheme \<Rightarrow> u64 \<times> 's io_state_scheme" where
  "read64 dev a s = bus_read dev 8 a s"

definition write8 :: "addr \<Rightarrow> u8 \<Rightarrow> 's io_state_scheme \<Rightarrow> 's io_state_scheme" where
  "write8 a v s = bus_write 1 a (ucast v) s"

definition write16 :: "addr \<Rightarrow> u16 \<Rightarrow> 's io_state_scheme \<Rightarrow> 's io_state_scheme" where
  "write16 a v s = bus_write 2 a (ucast v) s"

definition write32 :: "addr \<Rightarrow> u32 \<Rightarrow> 's io_state_scheme \<Rightarrow> 's io_state_scheme" where
  "write32 a v s = bus_write 4 a (ucast v) s"

definition write64 :: "addr \<Rightarrow> u64 \<Rightarrow> 's io_state_scheme \<Rightarrow> 's io_state_scheme" where
  "write64 a v s = bus_write 8 a v s"

section \<open>kernel/pci/pci_mmio.c\<close>

definition pci_read32 :: "device \<Rightarrow> addr \<Rightarrow> 's io_state_scheme \<Rightarrow> u32 \<times> 's io_state_scheme" where
  "pci_read32 dev address s = (let (v, s) = bus_read dev 4 address s in (ucast v, s))"

definition pci_read8 :: "device \<Rightarrow> addr \<Rightarrow> 's io_state_scheme \<Rightarrow> u8 \<times> 's io_state_scheme" where
  "pci_read8 dev address s = (let (v, s) = pci_read32 dev address s in (ucast v, s))"

definition pci_read16 :: "device \<Rightarrow> addr \<Rightarrow> 's io_state_scheme \<Rightarrow> u16 \<times> 's io_state_scheme" where
  "pci_read16 dev address s = (let (v, s) = pci_read32 dev address s in (ucast v, s))"

definition pci_read64 :: "device \<Rightarrow> addr \<Rightarrow> 's io_state_scheme \<Rightarrow> u64 \<times> 's io_state_scheme" where
  "pci_read64 dev address s = bus_read dev 8 address s"

definition write_word :: "addr \<Rightarrow> u32 \<Rightarrow> 's io_state_scheme \<Rightarrow> 's io_state_scheme" where
  "write_word address v s = bus_write 4 address (ucast v) s"

text \<open>
  The narrow values are promoted to 32 bits before they are shifted; the shifts by
  \<^verbatim>\<open>offset * 8\<close> stay below 32. Where the source shifts an \<^verbatim>\<open>int\<close> into its sign bit, the model
  has the two's complement result of the target.
\<close>

definition pci_write8 :: "device \<Rightarrow> addr \<Rightarrow> u8 \<Rightarrow> 's io_state_scheme \<Rightarrow> 's io_state_scheme" where
  "pci_write8 dev address v s =
     (let offset = address mod 4;
          (word_read, s) = pci_read32 dev (address - offset) s;
          word_write = push_bit (unat offset * 8) (ucast v :: u32);
          mask = NOT (push_bit (unat offset * 8) (0xFF :: u32));
          w = (word_read AND mask) OR word_write
      in write_word (address - offset) w s)"

definition pci_write16 :: "device \<Rightarrow> addr \<Rightarrow> u16 \<Rightarrow> 's io_state_scheme \<Rightarrow> 's io_state_scheme" where
  "pci_write16 dev address v s =
     (let offset = address mod 4
      in if offset \<noteq> 3 then
        (let (word_read, s) = pci_read32 dev (address - offset) s;
             word_write = push_bit (unat offset * 8) (ucast v :: u32);
             mask = NOT (push_bit (unat offset * 8) (0xFFFF :: u32));
             w = (word_read AND mask) OR word_write
         in write_word (address - offset) w s)
      else
        (let (lower_word_read, s) = pci_read32 dev (address - 3) s;
             lower_word_write = push_bit 24 (ucast v :: u32);
             lower_word = drop_bit 8 (push_bit 8 lower_word_read) OR lower_word_write;
             s = write_word (address - 3) lower_word s;
             (upper_word_read, s) = pci_read32 dev (address + 1) s;
             upper_word_write = ucast (drop_bit 8 v);
             upper_word = push_bit 8 (drop_bit 8 upper_word_read) OR upper_word_write
         in write_word (address + 1) upper_word s))"

definition pci_write32 :: "device \<Rightarrow> addr \<Rightarrow> u32 \<Rightarrow> 's io_state_scheme \<Rightarrow> 's io_state_scheme" where
  "pci_write32 dev address v s =
     (let lower_offset = address mod 4
      in if lower_offset \<noteq> 0 then
        (let upper_offset = 4 - lower_offset;
             lo = unat lower_offset * 8;
             up = unat upper_offset * 8;
             (lower_word_read, s) = pci_read32 dev (address - lower_offset) s;
             lower_word_write = push_bit lo v;
             lower_word = drop_bit up (push_bit up lower_word_read) OR lower_word_write;
             s = write_word (address - lower_offset) lower_word s;
             (upper_word_read, s) = pci_read32 dev (address + upper_offset) s;
             upper_word_write = drop_bit up v;
             upper_word = push_bit lo (drop_bit lo upper_word_read) OR upper_word_write
         in write_word (address + upper_offset) upper_word s)
      else write_word address v s)"

definition pci_write64 :: "device \<Rightarrow> addr \<Rightarrow> u64 \<Rightarrow> 's io_state_scheme \<Rightarrow> 's io_state_scheme" where
  "pci_write64 dev address v s =
     (let lower_offset = address mod 4
      in if lower_offset \<noteq> 0 then
        (let upper_offset = 4 - lower_offset;
             lo = unat lower_offset * 8;
             up = unat upper_offset * 8;
             (lower_word_read, s) = pci_read32 dev (address - lower_offset) s;
             lower_word_write = ucast (push_bit lo v);
             lower_word = drop_bit up (push_bit up lower_word_read) OR lower_word_write;
             s = write_word (address - lower_offset) lower_word s;
             middle_word_write = ucast (drop_bit up v);
             s = write_word (address + upper_offset) middle_word_write s;
             (upper_word_read, s) = pci_read32 dev (address + 4 + upper_offset) s;
             upper_word_write = ucast (drop_bit ((unat upper_offset + 4) * 8) v);
             upper_word = push_bit lo (drop_bit lo upper_word_read) OR upper_word_write
         in write_word (address + 4 + upper_offset) upper_word s)
      else write_word (address + 4) (ucast (drop_bit 32 v)) (write_word address (ucast v) s))"

section \<open>A memory-like device\<close>

text \<open>The memory after the writes of a history, and the device that reads it back.\<close>

fun mem_after :: "mem \<Rightarrow> io_event list \<Rightarrow> mem" where
  "mem_after m [] = m"
| "mem_after m (In w a v # h) = mem_after m h"
| "mem_after m (Out w a v # h) = store_le (mem_after m h) a w v"

definition ram_device :: "mem \<Rightarrow> device" where
  "ram_device m h w a = load_le (mem_after m h) a w"

text \<open>The access is a whole word at a word-aligned address.\<close>

definition aligned4 :: "addr \<Rightarrow> bool" where
  "aligned4 a \<longleftrightarrow> a mod 4 = 0"

fun word_aligned :: "io_event \<Rightarrow> bool" where
  "word_aligned (In w a v) \<longleftrightarrow> w = 4 \<and> aligned4 a"
| "word_aligned (Out w a v) \<longleftrightarrow> w = 4 \<and> aligned4 a"

lemmas mmio_defs = bus_read_def bus_write_def read8_def read16_def read32_def read64_def
  write8_def write16_def write32_def write64_def

lemmas pci_mmio_defs = pci_read8_def pci_read16_def pci_read32_def pci_read64_def write_word_def
  pci_write8_def pci_write16_def pci_write32_def pci_write64_def

section \<open>PCI writes are byte-exact stores\<close>

lemma store_le_ucast:
  fixes v :: "'a::len word"
  assumes "8 * n \<le> LENGTH('a)" "8 * n \<le> LENGTH('b::len)"
  shows "store_le m a n (ucast v :: 'b word) = store_le m a n v"
  using assms by (auto simp: store_le_def fun_eq_iff bit_byte_of bit_simps intro!: word8_eqI)

lemma ucast_take_load: "ucast (take_bit 32 (load_le m a 4 :: u64)) = load32 m a"
  by (rule bit_word_eqI) (auto simp: bit_simps load32_def bit_load_le)

lemma pci_read32_ram:
  "pci_read32 (ram_device m) a s =
     (load32 (mem_after m (io s)) a,
      s\<lparr>io := In 4 a (take_bit 32 (load_le (mem_after m (io s)) a 4)) # io s\<rparr>)"
  by (simp add: pci_read32_def bus_read_def ram_device_def Let_def ucast_take_load)

lemma mem_after_write_word [mem_simps]:
  "mem_after m (io (write_word a v s)) = store32 (mem_after m (io s)) a v"
  by (simp add: write_word_def bus_write_def store32_def store_le_ucast)

lemma byte_of_load32: "k < 4 \<Longrightarrow> byte_of (load32 m a) k = m (a + of_nat k)"
  by (rule word8_eqI) (simp add: bit_byte_of load32_def bit_load_le)

lemma byte_of_low:
  "byte_of (drop_bit (32 - 8 * off) (push_bit (32 - 8 * off) r) OR push_bit (8 * off) (v :: u32)) k =
     (if k < off then byte_of r k else byte_of v (k - off))"
  if "off < 4" "k < 4"
  by (rule word8_eqI) (use that in \<open>auto simp: bit_byte_of bit_simps algebra_simps diff_mult_distrib2\<close>)

lemma byte_of_high:
  "byte_of (push_bit (8 * h) (drop_bit (8 * h) r) OR w) k =
     (if k < h then byte_of w k else byte_of (r :: u32) k)"
  if "k < 4" "\<And>n. bit w n \<Longrightarrow> n < 8 * h"
  by (rule word8_eqI) (use that in \<open>force simp: bit_byte_of bit_simps\<close>)

lemma byte_of_drop: "byte_of (drop_bit (8 * i) (v :: 'a::len word)) k = byte_of v (i + k)"
  by (rule word8_eqI) (simp add: bit_byte_of bit_simps algebra_simps)

lemma byte_of_ucast:
  "8 * k + 8 \<le> LENGTH('b) \<Longrightarrow> byte_of (ucast (v :: 'a::len word) :: 'b::len word) k = byte_of v k"
  by (rule word8_eqI) (auto simp: bit_byte_of bit_simps dest: bit_imp_le_length)

lemma byte_of_masked:
  "byte_of ((r AND NOT (push_bit (8 * off) (mask (8 * n)))) OR push_bit (8 * off) (ucast v)) k =
     (if off \<le> k \<and> k < off + n then byte_of v (k - off) else byte_of (r :: u32) k)"
  if "off < 4" "k < 4" "LENGTH('a) = 8 * n" for v :: "'a::len word"
  by (rule word8_eqI)
    (use that in \<open>auto simp: bit_byte_of bit_simps diff_mult_distrib2 dest: bit_imp_le_length\<close>)

lemma store32_offset:
  "k < 16 \<Longrightarrow> off < 16 \<Longrightarrow> store32 m (b + of_nat off) v (b + of_nat k) =
    (if off \<le> k \<and> k < off + 4 then byte_of v (k - off) else m (b + of_nat k))"
  by (simp add: store32_def store_le_offset)

lemma store32_outside:
  "\<not> in_range x b n \<Longrightarrow> off + 4 \<le> n \<Longrightarrow> n \<le> 2 ^ 32 \<Longrightarrow> store32 m (b + of_nat off) v x = m x"
  unfolding store32_def by (rule store_le_other) (blast intro: in_range_sub)

lemma store_le_outside:
  "\<not> in_range x b n \<Longrightarrow> off + k \<le> n \<Longrightarrow> n \<le> 2 ^ 32 \<Longrightarrow> store_le m (b + of_nat off) k v x = m x"
  by (rule store_le_other) (blast intro: in_range_sub)

text \<open>A narrow value merged into the one word that holds it.\<close>

lemma store_masked:
  fixes v :: "'a::len word"
  assumes "off + n \<le> 4" "LENGTH('a) = 8 * n"
  shows "store32 m b ((load32 m b AND NOT (push_bit (8 * off) (mask (8 * n))))
           OR push_bit (8 * off) (ucast v)) = store_le m (b + of_nat off) n v"
proof (rule mem_eqI_range [where n = 4 and b = b])
  have off: "off < 4" using assms by (cases n) auto
  fix k :: nat assume k: "k < 4"
  show "store32 m b ((load32 m b AND NOT (push_bit (8 * off) (mask (8 * n))))
           OR push_bit (8 * off) (ucast v)) (b + of_nat k) =
        store_le m (b + of_nat off) n v (b + of_nat k)"
    using store32_offset [of k 0 m b] off k assms
    by (simp add: store_le_offset byte_of_masked byte_of_load32)
next
  fix x assume "\<not> in_range x b 4"
  then show "store32 m b ((load32 m b AND NOT (push_bit (8 * off) (mask (8 * n))))
           OR push_bit (8 * off) (ucast v)) x = store_le m (b + of_nat off) n v x"
    using store32_outside [of x b 4 0] assms by (simp add: store_le_outside)
qed simp

text \<open>A value that straddles two words, written as a low and a high part.\<close>

lemma store_straddle:
  fixes v :: "'a::len word" and lw hw :: u32
  assumes "0 < off" "off < 4" "4 < off + n" "n \<le> 4"
    and low: "\<And>k. k < 4 \<Longrightarrow> byte_of lw k = (if k < off then m (b + of_nat k) else byte_of v (k - off))"
    and high: "\<And>k. k < 4 \<Longrightarrow> byte_of hw k =
        (if k < off + n - 4 then byte_of v (k + 4 - off) else m (b + of_nat (4 + k)))"
  shows "store32 (store32 m b lw) (b + 4) hw = store_le m (b + of_nat off) n v"
proof (rule mem_eqI_range [where n = 8 and b = b])
  fix k :: nat assume k: "k < 8"
  show "store32 (store32 m b lw) (b + 4) hw (b + of_nat k) =
        store_le m (b + of_nat off) n v (b + of_nat k)"
    using store32_offset [of k 0 m b] store32_offset [of k 4 "store32 m b lw" b] k assms(1-4)
    by (auto simp: store_le_offset low high)
next
  fix x assume "\<not> in_range x b 8"
  then show "store32 (store32 m b lw) (b + 4) hw x = store_le m (b + of_nat off) n v x"
    using store32_outside [of x b 8 0] store32_outside [of x b 8 4] assms(1-4)
    by (simp add: store_le_outside)
qed simp

lemma store_straddle3:
  fixes v :: u64 and lw mw hw :: u32
  assumes "0 < off" "off < 4"
    and low: "\<And>k. k < 4 \<Longrightarrow> byte_of lw k = (if k < off then m (b + of_nat k) else byte_of v (k - off))"
    and mid: "\<And>k. k < 4 \<Longrightarrow> byte_of mw k = byte_of v (k + 4 - off)"
    and high: "\<And>k. k < 4 \<Longrightarrow> byte_of hw k =
        (if k < off then byte_of v (k + 8 - off) else m (b + of_nat (8 + k)))"
  shows "store32 (store32 (store32 m b lw) (b + 4) mw) (b + 8) hw = store_le m (b + of_nat off) 8 v"
proof (rule mem_eqI_range [where n = 12 and b = b])
  fix k :: nat assume k: "k < 12"
  show "store32 (store32 (store32 m b lw) (b + 4) mw) (b + 8) hw (b + of_nat k) =
        store_le m (b + of_nat off) 8 v (b + of_nat k)"
    using store32_offset [of k 0 m b] store32_offset [of k 4 "store32 m b lw" b] k assms(1,2)
      store32_offset [of k 8 "store32 (store32 m b lw) (b + 4) mw" b]
    by (auto simp: store_le_offset low mid high)
next
  fix x assume "\<not> in_range x b 12"
  then show "store32 (store32 (store32 m b lw) (b + 4) mw) (b + 8) hw x =
      store_le m (b + of_nat off) 8 v x"
    using store32_outside [of x b 12 0] store32_outside [of x b 12 4]
      store32_outside [of x b 12 8] assms(1,2)
    by (simp add: store_le_outside)
qed simp

lemma store_two_words:
  "store32 (store32 m b (ucast v)) (b + 4) (ucast (drop_bit 32 v)) = store_le m b 8 (v :: u64)"
proof (rule mem_eqI_range [where n = 8 and b = b])
  fix k :: nat assume "k < 8"
  then show "store32 (store32 m b (ucast v)) (b + 4) (ucast (drop_bit 32 v)) (b + of_nat k) =
      store_le m b 8 v (b + of_nat k)"
    using store32_offset [of k 0 m b] store32_offset [of k 4 "store32 m b (ucast v)" b]
      store_le_offset [of k 0 8 m b v] byte_of_drop [of 4 v]
    by (auto simp: byte_of_ucast)
next
  fix x assume "\<not> in_range x b 8"
  then show "store32 (store32 m b (ucast v)) (b + 4) (ucast (drop_bit 32 v)) x = store_le m b 8 v x"
    using store32_outside [of x b 8 0] store32_outside [of x b 8 4] store_le_outside [of x b 8 0 8 m v]
    by simp
qed simp

text \<open>The upper word of a straddling write is read after the lower one is written, and not touched by it.\<close>

lemma byte_of_next_word:
  assumes "k < 4"
  shows "byte_of (load32 (store32 m b w) (b + 4)) k = m (b + of_nat (4 + k))"
  using assms store32_offset [of "4 + k" 0 m b w] by (simp add: byte_of_load32 add.assoc)

lemma byte_of_third_word:
  assumes "k < 4"
  shows "byte_of (load32 (store32 (store32 m b w) (b + 4) w') (b + 8)) k = m (b + of_nat (8 + k))"
  using assms store32_offset [of "8 + k" 0 m b w] store32_offset [of "8 + k" 4 "store32 m b w" b w']
  by (simp add: byte_of_load32 add.assoc)

lemma mod_4_split:
  obtains off b where "off < 4" "(a :: addr) mod 4 = of_nat off" "a = b + of_nat off"
    "unat (of_nat off :: addr) = off" "aligned4 b"
proof
  let ?off = "unat (a mod 4)"
  show "?off < 4" by (simp add: unat_mod)
  show "a mod 4 = of_nat ?off" by simp
  show "a = (a - a mod 4) + of_nat ?off" by simp
  show "unat (of_nat ?off :: addr) = ?off" by simp
  have "unat (a - a mod 4) = unat a - unat a mod 4"
    by (simp add: unat_sub word_le_nat_alt unat_mod)
  then have "unat ((a - a mod 4) mod 4) = 0"
    by (simp add: unat_mod minus_mod_eq_mult_div)
  then show "aligned4 (a - a mod 4)" by (simp add: aligned4_def unat_eq_0)
qed

lemma mask_constants: "(0xFF :: u32) = mask 8" "(0xFFFF :: u32) = mask 16"
  by (simp_all add: mask_eq_exp_minus_1)

text \<open>
  Property: on a memory-like PCI space, \<^verbatim>\<open>pci_write8\<close> at any address stores exactly that byte
  and leaves every other byte of the space as it was.
\<close>

theorem pci_write8_stores:
  "mem_after m (io (pci_write8 (ram_device m) a v s)) = store_le (mem_after m (io s)) a 1 v"
proof -
  obtain off b where a: "off < 4" "a mod 4 = of_nat off" "a = b + of_nat off"
    "unat (of_nat off :: addr) = off" by (rule mod_4_split)
  have "a - a mod 4 = b" using a by simp
  with a show ?thesis
    using store_masked [of off 1 "mem_after m (io s)" b v]
    by (simp add: pci_write8_def pci_read32_ram Let_def mem_after_write_word mask_constants mult.commute)
qed

text \<open>
  Property: \<^verbatim>\<open>pci_write16\<close> stores exactly the two bytes of its value, little-endian, at any
  address, also where they straddle two words.
\<close>

theorem pci_write16_stores:
  "mem_after m (io (pci_write16 (ram_device m) a v s)) = store_le (mem_after m (io s)) a 2 v"
proof -
  let ?m = "mem_after m (io s)"
  obtain off b where a: "off < 4" "a mod 4 = of_nat off" "a = b + of_nat off"
    "unat (of_nat off :: addr) = off" by (rule mod_4_split)
  have b: "a - a mod 4 = b" using a by simp
  show ?thesis
  proof (cases "off = 3")
    case False
    then have "a mod 4 \<noteq> 3" using a(1,4) by (auto simp: a(2))
    with False a(1,4) b show ?thesis
      using store_masked [of off 2 ?m b v]
      by (simp add: pci_write16_def pci_read32_ram Let_def mem_after_write_word mask_constants
          a(2) flip: a(3)) (simp add: a(3) mult.commute)
  next
    case True
    then have mod: "a mod 4 = 3" and upper: "a + 1 = b + 4" and lower: "a - 3 = b" using a by simp_all
    let ?lw = "drop_bit 8 (push_bit 8 (load32 ?m b)) OR push_bit 24 (ucast v) :: u32"
    let ?hw = "push_bit 8 (drop_bit 8 (load32 (store32 ?m b ?lw) (b + 4))) OR ucast (drop_bit 8 v) :: u32"
    have "store32 (store32 ?m b ?lw) (b + 4) ?hw = store_le ?m (b + of_nat 3) 2 v"
    proof (rule store_straddle)
      fix k :: nat assume k: "k < 4"
      show "byte_of ?lw k = (if k < 3 then ?m (b + of_nat k) else byte_of v (k - 3))"
        using byte_of_low [of 3 k "load32 ?m b" "ucast v"] k by (simp add: byte_of_load32 byte_of_ucast)
      have "n < 8 * 1" if "bit (ucast (drop_bit 8 v) :: u32) n" for n
        using that by (auto simp: bit_simps dest: bit_imp_le_length)
      then show "byte_of ?hw k =
          (if k < 3 + 2 - 4 then byte_of v (k + 4 - 3) else ?m (b + of_nat (4 + k)))"
        using k byte_of_high [of k "ucast (drop_bit 8 v)" 1] byte_of_drop [of 1 v]
        by (auto simp: byte_of_ucast byte_of_next_word)
    qed simp_all
    then show ?thesis
      by (simp add: pci_write16_def mod upper lower pci_read32_ram Let_def mem_after_write_word
          flip: a(3)) (simp add: a True)
  qed
qed

text \<open>The two words of an unaligned four-byte store, merged as \<^verbatim>\<open>pci_write32\<close> merges them.\<close>

lemma merge_two_words:
  fixes m :: mem and b :: addr and v :: u32
  assumes off: "0 < off" "off < 4"
  defines "lw \<equiv> drop_bit (32 - 8 * off) (push_bit (32 - 8 * off) (load32 m b)) OR push_bit (8 * off) v"
  defines "hw \<equiv> push_bit (8 * off) (drop_bit (8 * off) (load32 (store32 m b lw) (b + 4))) OR drop_bit (32 - 8 * off) v"
  shows "store32 (store32 m b lw) (b + 4) hw = store_le m (b + of_nat off) 4 v"
proof (rule store_straddle)
  fix k :: nat assume k: "k < 4"
  show "byte_of lw k = (if k < off then m (b + of_nat k) else byte_of v (k - off))"
    using byte_of_low [of off k] k off by (simp add: lw_def byte_of_load32)
  have "n < 8 * off" if "bit (drop_bit (32 - 8 * off) v) n" for n
    using that off by (auto simp: bit_simps dest: bit_imp_le_length)
  then show "byte_of hw k = (if k < off + 4 - 4 then byte_of v (k + 4 - off) else m (b + of_nat (4 + k)))"
    using k byte_of_high [of k "drop_bit (32 - 8 * off) v" off] byte_of_drop [of "4 - off" v] off
    by (auto simp: hw_def byte_of_next_word diff_mult_distrib2 add.commute)
qed (use off in simp_all)

text \<open>
  Property C21: \<^verbatim>\<open>pci_write32\<close> stores exactly the four bytes of its value, little-endian, at any
  address: one word where the address is aligned, else two words read, merged and written back.
\<close>

theorem pci_write32_stores:
  "mem_after m (io (pci_write32 (ram_device m) a v s)) = store_le (mem_after m (io s)) a 4 v"
proof -
  obtain off b where a: "off < 4" "a mod 4 = of_nat off" "a = b + of_nat off"
    "unat (of_nat off :: addr) = off" by (rule mod_4_split)
  show ?thesis
  proof (cases "off = 0")
    case True
    with a show ?thesis by (simp add: pci_write32_def mem_after_write_word store32_def)
  next
    case False
    then have mod: "a mod 4 \<noteq> 0" using a(1,4) by (auto simp: a(2))
    have lower: "a - a mod 4 = b" and upper: "a + (4 - a mod 4) = b + 4" using a(2,3) by simp_all
    have shifts: "unat (a mod 4) * 8 = 8 * off" "unat (4 - a mod 4) * 8 = 32 - 8 * off"
      using a(1,2,4) by (simp_all add: unat_sub word_le_nat_alt)
    show ?thesis
      using merge_two_words [of off "mem_after m (io s)" b v] False a(1)
      by (simp add: pci_write32_def mod lower upper shifts pci_read32_ram Let_def mem_after_write_word)
        (simp add: a(3))
  qed
qed

text \<open>The three words of an unaligned eight-byte store, merged as \<^verbatim>\<open>pci_write64\<close> merges them.\<close>

lemma merge_three_words:
  fixes m :: mem and b :: addr and v :: u64
  assumes off: "0 < off" "off < 4"
  defines "lw \<equiv> drop_bit (32 - 8 * off) (push_bit (32 - 8 * off) (load32 m b)) OR ucast (push_bit (8 * off) v) :: u32"
  defines "mw \<equiv> ucast (drop_bit (32 - 8 * off) v) :: u32"
  defines "hw \<equiv> push_bit (8 * off) (drop_bit (8 * off) (load32 (store32 (store32 m b lw) (b + 4) mw) (b + 8)))
      OR ucast (drop_bit (64 - 8 * off) v) :: u32"
  shows "store32 (store32 (store32 m b lw) (b + 4) mw) (b + 8) hw = store_le m (b + of_nat off) 8 v"
proof (rule store_straddle3)
  fix k :: nat assume k: "k < 4"
  have "(ucast (push_bit (8 * off) v) :: u32) = push_bit (8 * off) (ucast v)"
    by (rule bit_word_eqI) (auto simp: bit_simps)
  then show "byte_of lw k = (if k < off then m (b + of_nat k) else byte_of v (k - off))"
    using byte_of_low [of off k] k off by (simp add: lw_def byte_of_load32 byte_of_ucast)
  show "byte_of mw k = byte_of v (k + 4 - off)"
    using byte_of_drop [of "4 - off" v] off k
    by (simp add: mw_def byte_of_ucast diff_mult_distrib2 add.commute)
  have "n < 8 * off" if "bit (ucast (drop_bit (64 - 8 * off) v) :: u32) n" for n
    using that off by (auto simp: bit_simps dest: bit_imp_le_length)
  then show "byte_of hw k = (if k < off then byte_of v (k + 8 - off) else m (b + of_nat (8 + k)))"
    using k byte_of_high [of k "ucast (drop_bit (64 - 8 * off) v)" off] byte_of_drop [of "8 - off" v] off
    by (auto simp: hw_def byte_of_third_word byte_of_ucast diff_mult_distrib2 add.commute)
qed (use off in simp_all)

text \<open>
  Property: \<^verbatim>\<open>pci_write64\<close> stores exactly the eight bytes of its value, little-endian, at any
  address: two words where it is aligned, else three.
\<close>

theorem pci_write64_stores:
  "mem_after m (io (pci_write64 (ram_device m) a v s)) = store_le (mem_after m (io s)) a 8 v"
proof -
  obtain off b where a: "off < 4" "a mod 4 = of_nat off" "a = b + of_nat off"
    "unat (of_nat off :: addr) = off" by (rule mod_4_split)
  show ?thesis
  proof (cases "off = 0")
    case True
    with a show ?thesis by (simp add: pci_write64_def mem_after_write_word store_two_words)
  next
    case False
    then have mod: "a mod 4 \<noteq> 0" using a(1,4) by (auto simp: a(2))
    have lower: "a - a mod 4 = b" and middle: "a + (4 - a mod 4) = b + 4"
      and upper: "a + 4 + (4 - a mod 4) = b + 8" using a(2,3) by simp_all
    have shifts: "unat (a mod 4) * 8 = 8 * off" "unat (4 - a mod 4) * 8 = 32 - 8 * off"
      "32 - 8 * off + 32 = 64 - 8 * off"
      using a(1,2,4) by (simp_all add: unat_sub word_le_nat_alt)
    show ?thesis
      using merge_three_words [of off "mem_after m (io s)" b v] False a(1)
      by (simp add: pci_write64_def mod lower middle upper shifts pci_read32_ram Let_def
          mem_after_write_word) (simp add: a(3))
  qed
qed

section \<open>Alignment\<close>

definition issues_aligned :: "'s io_state_scheme \<Rightarrow> 's io_state_scheme \<Rightarrow> bool" where
  "issues_aligned s s' \<longleftrightarrow> (\<exists>h. io s' = h @ io s \<and> list_all word_aligned h)"

lemma issues_aligned_refl: "issues_aligned s s"
  by (simp add: issues_aligned_def)

lemma issues_aligned_write:
  "issues_aligned s s' \<Longrightarrow> aligned4 a \<Longrightarrow> issues_aligned s (write_word a v s')"
  by (auto simp: issues_aligned_def write_word_def bus_write_def)

lemma issues_aligned_read:
  "issues_aligned s s' \<Longrightarrow> aligned4 a \<Longrightarrow> issues_aligned s (snd (pci_read32 dev a s'))"
  by (auto simp: issues_aligned_def pci_read32_def bus_read_def Let_def)

lemma aligned_add_4: "aligned4 b \<Longrightarrow> aligned4 (b + 4)"
proof -
  assume "aligned4 b"
  then have "unat (b mod 4) = 0" by (simp add: aligned4_def)
  then have "unat b mod 4 = 0" by (simp add: unat_mod)
  then have "unat ((b + 4) mod 4) = 0"
    by (simp add: unat_mod unat_word_ariths mod_mod_cancel)
  then show ?thesis by (simp add: aligned4_def unat_eq_0)
qed

text \<open>
  Property: whatever the device answers, every bus access the PCI write routines issue is a
  whole word at a word-aligned address, the condition \<^verbatim>\<open>write_word\<close> is documented to need.
\<close>

theorem pci_writes_aligned:
  "issues_aligned s (pci_write8 dev a v8 s) \<and> issues_aligned s (pci_write16 dev a v16 s) \<and>
   issues_aligned s (pci_write32 dev a v32 s) \<and> issues_aligned s (pci_write64 dev a v64 s)"
proof -
  obtain off b where a: "off < 4" "a mod 4 = of_nat off" "a = b + of_nat off"
    "unat (of_nat off :: addr) = off" and b: "aligned4 b"
    by (rule mod_4_split)
  have addrs: "a - a mod 4 = b" "a + (4 - a mod 4) = b + 4" "a + 4 + (4 - a mod 4) = b + 8"
    using a(2,3) by simp_all
  have b4: "aligned4 (b + 4)" using b by (rule aligned_add_4)
  then have b8: "aligned4 (b + 8)" using aligned_add_4 [of "b + 4"] by (simp add: add.assoc)
  note rules = issues_aligned_refl issues_aligned_write issues_aligned_read b b4 b8 aligned_add_4
  have "issues_aligned s (pci_write8 dev a v8 s)"
    by (simp add: pci_write8_def Let_def split_beta addrs rules)
  moreover have "issues_aligned s (pci_write16 dev a v16 s)"
  proof (cases "a mod 4 = 3")
    case True
    then have "a - 3 = b" and up: "a + 1 = b + 4" using addrs by simp_all
    with True show ?thesis
      by (simp only: pci_write16_def Let_def split_beta up) (simp add: rules)
  next
    case False
    then show ?thesis by (simp add: pci_write16_def Let_def split_beta addrs rules)
  qed
  moreover have "issues_aligned s (pci_write32 dev a v32 s)"
    by (cases "a mod 4 = 0")
      (simp_all only: pci_write32_def Let_def split_beta addrs aligned4_def [symmetric] rules if_True if_False
        simp_thms)
  moreover have "issues_aligned s (pci_write64 dev a v64 s)"
    by (cases "a mod 4 = 0")
      (simp_all only: pci_write64_def Let_def split_beta addrs aligned4_def [symmetric] rules if_True if_False
        simp_thms)
  ultimately show ?thesis by blast
qed

end
