(* ===== verification/Heap.thy ===== *)
theory Heap
  imports Machine
begin

text \<open>
  The heap: \<^verbatim>\<open>libc/unistd/sbrk.c\<close> and \<^verbatim>\<open>libc/stdlib/malloc.c\<close> over byte memory, with the block
  headers where the code keeps them. The representation predicate \<open>heap_rep\<close> reads the heap as a
  chain of blocks from \<^verbatim>\<open>HEAP_START\<close> to the program break and the free list as a list of some of
  them; the theorems say that \<^verbatim>\<open>malloc\<close> and \<^verbatim>\<open>free\<close> keep it, that an allocation is fresh, aligned
  and large enough, and that the contents of the live blocks are left alone.
\<close>

section \<open>State\<close>

record heap_state = io_state +
  ram :: mem
  current_heap_address :: u32
  free_block_list_head_next :: addr

text \<open>\<^verbatim>\<open>kernel/memory.h\<close>, \<^verbatim>\<open>libc/include/errno.h\<close>.\<close>

definition HEAP_SIZE :: u32 where [const_defs]: "HEAP_SIZE = 0x1000000"
definition HEAP_START :: u32 where [const_defs]: "HEAP_START = 0x5000000"
definition ENOMEM :: u32 where "ENOMEM = 12"

section \<open>sbrk\<close>

definition sbrk :: "size_t \<Rightarrow> 's heap_state_scheme \<Rightarrow> addr \<times> 's heap_state_scheme" where
  "sbrk increment s =
     (if current_heap_address s + increment > HEAP_START + HEAP_SIZE
      then (0, s\<lparr>errno := ENOMEM\<rparr>)
      else (current_heap_address s,
            s\<lparr>current_heap_address := current_heap_address s + increment\<rparr>))"

section \<open>malloc and free\<close>

text \<open>\<^verbatim>\<open>ALIGN\<close> of \<^verbatim>\<open>malloc.c\<close>, on \<^verbatim>\<open>size_t\<close>.\<close>

definition ALIGN :: "size_t \<Rightarrow> size_t \<Rightarrow> size_t" where
  "ALIGN val alignment = (val + (alignment - 1)) AND (- alignment)"

definition ALIGN_16 :: "size_t \<Rightarrow> size_t" where
  "ALIGN_16 val = ALIGN val 16"

text \<open>\<^verbatim>\<open>block_t\<close>: the pointer \<^verbatim>\<open>next\<close> at offset 0, \<^verbatim>\<open>size\<close> at offset 4, eight bytes in all.\<close>

definition block_next :: "mem \<Rightarrow> addr \<Rightarrow> addr" where
  "block_next m b = load32 m b"

definition block_size :: "mem \<Rightarrow> addr \<Rightarrow> size_t" where
  "block_size m b = load32 m (b + 4)"

definition overhead :: size_t where
  "overhead = ALIGN_16 8"

text \<open>\<^verbatim>\<open>block_t **head\<close>: the address of the link to the current block, in the list head or in a block.\<close>

datatype link = Free_Head | Next_Of addr

fun set_link :: "link \<Rightarrow> addr \<Rightarrow> 's heap_state_scheme \<Rightarrow> 's heap_state_scheme" where
  "set_link Free_Head v s = s\<lparr>free_block_list_head_next := v\<rparr>"
| "set_link (Next_Of b) v s = s\<lparr>ram := store32 (ram s) b v\<rparr>"

text \<open>
  The search of the free list. It follows pointers in memory, so nothing in the code bounds it:
  \<open>None\<close> is a walk that never ends, \<open>Some (None, _)\<close> a list without a large enough block.
\<close>

partial_function (option) malloc_find ::
  "size_t \<Rightarrow> link \<Rightarrow> addr \<Rightarrow> 's heap_state_scheme \<Rightarrow> (addr option \<times> 's heap_state_scheme) option" where
  "malloc_find sz lnk block s =
     (if block = 0 then Some (None, s)
      else if sz \<le> block_size (ram s) block
      then Some (Some block, set_link lnk (block_next (ram s) block) s)
      else malloc_find sz (Next_Of block) (block_next (ram s) block) s)"

definition malloc :: "size_t \<Rightarrow> 's heap_state_scheme \<Rightarrow> (addr \<times> 's heap_state_scheme) option" where
  "malloc n s =
     (let sz = ALIGN_16 (n + overhead) in
      case malloc_find sz Free_Head (free_block_list_head_next s) s of
        None \<Rightarrow> None
      | Some (Some block, s) \<Rightarrow> Some (block + overhead, s)
      | Some (None, s) \<Rightarrow>
          (let (block, s) = sbrk sz s in
           if block = 0 then Some (0, s\<lparr>errno := ENOMEM\<rparr>)
           else Some (block + overhead, s\<lparr>ram := store32 (ram s) (block + 4) sz\<rparr>)))"

definition free :: "addr \<Rightarrow> 's heap_state_scheme \<Rightarrow> 's heap_state_scheme" where
  "free ptr s =
     (let block = ptr - overhead;
          s = s\<lparr>ram := store32 (ram s) block (free_block_list_head_next s)\<rparr>
      in s\<lparr>free_block_list_head_next := block\<rparr>)"

section \<open>The heap as a list of blocks\<close>

definition heap_end :: nat where
  "heap_end = unat (HEAP_START + HEAP_SIZE)"

abbreviation bsize :: "mem \<Rightarrow> addr \<Rightarrow> nat" where
  "bsize m b \<equiv> unat (block_size m b)"

text \<open>The blocks \<open>bs\<close> lie one after the other from \<open>a\<close> to \<open>e\<close>.\<close>

fun chain :: "mem \<Rightarrow> nat \<Rightarrow> addr list \<Rightarrow> nat \<Rightarrow> bool" where
  "chain m a [] e \<longleftrightarrow> a = e"
| "chain m a (b # bs) e \<longleftrightarrow>
     unat b = a \<and> 16 \<le> bsize m b \<and> 16 dvd bsize m b \<and> chain m (a + bsize m b) bs e"

text \<open>The blocks \<open>fs\<close> are linked from \<open>p\<close> by their \<^verbatim>\<open>next\<close> fields.\<close>

fun free_list :: "mem \<Rightarrow> addr \<Rightarrow> addr list \<Rightarrow> bool" where
  "free_list m p [] \<longleftrightarrow> p = 0"
| "free_list m p (b # bs) \<longleftrightarrow> p = b \<and> b \<noteq> 0 \<and> free_list m (block_next m b) bs"

definition heap_rep :: "addr list \<Rightarrow> addr list \<Rightarrow> 's heap_state_scheme \<Rightarrow> bool" where
  "heap_rep bs fs s \<longleftrightarrow>
     chain (ram s) (unat HEAP_START) bs (unat (current_heap_address s)) \<and>
     unat (current_heap_address s) \<le> heap_end \<and>
     free_list (ram s) (free_block_list_head_next s) fs \<and>
     distinct fs \<and> set fs \<subseteq> set bs"

text \<open>The live allocations: the blocks that are not free, as the caller sees them.\<close>

definition live :: "addr list \<Rightarrow> addr list \<Rightarrow> addr set" where
  "live bs fs = set bs - set fs"

text \<open>The initial heap of \<^verbatim>\<open>sbrk.c\<close> and \<^verbatim>\<open>malloc.c\<close>: no blocks, an empty free list.\<close>

definition heap_init :: "'s heap_state_scheme \<Rightarrow> bool" where
  "heap_init s \<longleftrightarrow> current_heap_address s = HEAP_START \<and> free_block_list_head_next s = 0"

lemma heap_end_eq: "heap_end = 0x6000000"
  by (simp add: heap_end_def const_defs)

lemma overhead_eq [simp]: "overhead = 16"
  by (simp add: overhead_def ALIGN_16_def ALIGN_def)

lemma heap_rep_init: "heap_init s \<Longrightarrow> heap_rep [] [] s"
  by (simp add: heap_init_def heap_rep_def heap_end_eq const_defs)

lemma ALIGN_16_unat:
  assumes "unat n + 15 < 2 ^ 32"
  shows "unat (ALIGN_16 n) = (unat n + 15) div 16 * 16"
proof -
  have "(- 16 :: u32) = NOT (mask 4)" by (simp add: mask_eq_exp_minus_1 not_eq_complement)
  then have "ALIGN_16 n = (n + 15) AND NOT (mask 4)" by (simp add: ALIGN_16_def ALIGN_def)
  also have "\<dots> = push_bit 4 (drop_bit 4 (n + 15))"
    by (rule bit_word_eqI) (auto simp: bit_simps)
  finally have "unat (ALIGN_16 n) = unat (push_bit 4 (drop_bit 4 (n + 15)))" by simp
  moreover have "unat (n + 15) = unat n + 15" using assms by (simp add: unat_word_ariths)
  moreover have "(unat n + 15) div 16 * 16 < 2 ^ 32" using assms by simp
  ultimately show ?thesis
    by (simp add: push_bit_eq_mult drop_bit_eq_div unat_word_ariths unat_div)
qed

section \<open>Chains of blocks and the free list\<close>

lemma chain_le: "chain m a bs e \<Longrightarrow> a \<le> e"
  by (induction bs arbitrary: a) fastforce+

lemma chain_block:
  "chain m a bs e \<Longrightarrow> b \<in> set bs \<Longrightarrow>
   a \<le> unat b \<and> unat b + bsize m b \<le> e \<and> 16 \<le> bsize m b \<and> 16 dvd bsize m b"
proof (induction bs arbitrary: a)
  case (Cons c bs)
  then show ?case using chain_le [of m "a + bsize m c" bs e] by fastforce
qed simp

lemma chain_aligned: "chain m a bs e \<Longrightarrow> 16 dvd a \<Longrightarrow> b \<in> set bs \<Longrightarrow> 16 dvd unat b"
  by (induction bs arbitrary: a) auto

lemma chain_end_aligned: "chain m a bs e \<Longrightarrow> 16 dvd a \<Longrightarrow> 16 dvd e"
  by (induction bs arbitrary: a) auto

lemma chain_disjoint:
  "chain m a bs e \<Longrightarrow> b \<in> set bs \<Longrightarrow> c \<in> set bs \<Longrightarrow> b \<noteq> c \<Longrightarrow>
   unat b + bsize m b \<le> unat c \<or> unat c + bsize m c \<le> unat b"
proof (induction bs arbitrary: a)
  case (Cons d bs)
  then show ?case using chain_block [of m "a + bsize m d" bs e] by fastforce
qed simp

lemma chain_snoc:
  "chain m a bs (unat b) \<Longrightarrow> 16 \<le> bsize m b \<Longrightarrow> 16 dvd bsize m b \<Longrightarrow>
   chain m a (bs @ [b]) (unat b + bsize m b)"
  by (induction bs arbitrary: a) auto

lemma chain_cong:
  "(\<And>b. b \<in> set bs \<Longrightarrow> block_size m' b = block_size m b) \<Longrightarrow> chain m' a bs e = chain m a bs e"
  by (induction bs arbitrary: a) auto

lemma free_list_cong:
  "(\<And>b. b \<in> set fs \<Longrightarrow> block_next m' b = block_next m b) \<Longrightarrow> free_list m' p fs = free_list m p fs"
  by (induction fs arbitrary: p) auto

lemma malloc_find_None:
  "free_list (ram s) p fs \<Longrightarrow> (\<And>b. b \<in> set fs \<Longrightarrow> \<not> sz \<le> block_size (ram s) b) \<Longrightarrow>
   malloc_find sz lnk p s = Some (None, s)"
  by (induction fs arbitrary: p lnk) (subst malloc_find.simps, simp)+

lemma malloc_find_Some:
  "free_list (ram s) p (xs @ b # ys) \<Longrightarrow> (\<And>x. x \<in> set xs \<Longrightarrow> \<not> sz \<le> block_size (ram s) x) \<Longrightarrow>
   sz \<le> block_size (ram s) b \<Longrightarrow>
   malloc_find sz lnk p s =
     Some (Some b, set_link (if xs = [] then lnk else Next_Of (last xs)) (block_next (ram s) b) s)"
  by (induction xs arbitrary: p lnk) (subst malloc_find.simps, simp)+

lemma free_list_append:
  "free_list m p (xs @ b # ys) \<Longrightarrow> free_list m (block_next m b) ys"
  by (induction xs arbitrary: p) auto

lemma free_list_unlink:
  assumes "free_list m p (xs @ b # ys)" "xs \<noteq> []" "distinct (xs @ b # ys)"
    and "block_next m' (last xs) = block_next m b"
    and "\<And>x. x \<in> set (xs @ ys) \<Longrightarrow> x \<noteq> last xs \<Longrightarrow> block_next m' x = block_next m x"
  shows "free_list m' p (xs @ ys)"
  using assms
proof (induction xs arbitrary: p)
  case (Cons x xs)
  show ?case
  proof (cases "xs = []")
    case True
    have "free_list m (block_next m b) ys" using Cons.prems(1) True by simp
    moreover have "free_list m' q ys = free_list m q ys" for q
      using Cons.prems(3,5) True by (intro free_list_cong) auto
    ultimately show ?thesis using Cons.prems(1,4) True by simp
  next
    case False
    then have "x \<noteq> last xs" using Cons.prems(3) by auto
    with False Cons show ?thesis by simp
  qed
qed simp

section \<open>Headers do not overlap\<close>

definition block_addr :: "addr \<Rightarrow> bool" where
  "block_addr b \<longleftrightarrow> 16 dvd unat b \<and> unat b + 16 \<le> 2 ^ 32"

lemma dvd_16_apart: "16 dvd (x :: nat) \<Longrightarrow> 16 dvd y \<Longrightarrow> x \<noteq> y \<Longrightarrow> x + 16 \<le> y \<or> y + 16 \<le> x"
  by presburger

lemma block_addr_add_4: "block_addr b \<Longrightarrow> unat (b + 4) = unat b + 4"
  using unat_add_small [of b 4] by (simp add: block_addr_def)

lemma block_fields:
  assumes "block_addr b" "block_addr c"
  shows "block_size (store32 m c v) b = block_size m b"
    and "block_next (store32 m (c + 4) v) b = block_next m b"
    and "b \<noteq> c \<Longrightarrow> block_next (store32 m c v) b = block_next m b"
    and "b \<noteq> c \<Longrightarrow> block_size (store32 m (c + 4) v) b = block_size m b"
proof -
  have apart: "b = c \<or> unat b + 16 \<le> unat c \<or> unat c + 16 \<le> unat b"
    using assms dvd_16_apart [of "unat b" "unat c"] by (auto simp: block_addr_def word_unat_eq_iff)
  note unats = block_addr_add_4 [OF assms(1)] block_addr_add_4 [OF assms(2)]
  show "block_size (store32 m c v) b = block_size m b"
    unfolding block_size_def using apart assms unats
    by (intro load32_store32_other disjoint_rangesI) (auto simp: block_addr_def)
  show "block_next (store32 m (c + 4) v) b = block_next m b"
    unfolding block_next_def using apart assms unats
    by (intro load32_store32_other disjoint_rangesI) (auto simp: block_addr_def)
  show "block_next (store32 m c v) b = block_next m b" if "b \<noteq> c"
    unfolding block_next_def using apart assms unats that
    by (intro load32_store32_other disjoint_rangesI) (auto simp: block_addr_def)
  show "block_size (store32 m (c + 4) v) b = block_size m b" if "b \<noteq> c"
    unfolding block_size_def using apart assms unats that
    by (intro load32_store32_other disjoint_rangesI) (auto simp: block_addr_def)
qed

lemma block_fields_same [simp]:
  "block_next (store32 m b v) b = v" "block_size (store32 m (b + 4) v) b = v"
  by (simp_all add: block_next_def block_size_def load32_store32_same)

text \<open>What \<open>heap_rep\<close> says of each block.\<close>

lemma heap_rep_block:
  assumes "heap_rep bs fs s" "b \<in> set bs"
  shows "0x5000000 \<le> unat b" "unat b + bsize (ram s) b \<le> unat (current_heap_address s)"
    "unat (current_heap_address s) \<le> 0x6000000"
    "16 \<le> bsize (ram s) b" "16 dvd bsize (ram s) b" "block_addr b"
proof -
  have chain: "chain (ram s) 0x5000000 bs (unat (current_heap_address s))"
    and le: "unat (current_heap_address s) \<le> 0x6000000"
    using assms(1) by (simp_all add: heap_rep_def heap_end_eq const_defs)
  show "0x5000000 \<le> unat b" "unat b + bsize (ram s) b \<le> unat (current_heap_address s)"
    "16 \<le> bsize (ram s) b" "16 dvd bsize (ram s) b"
    using chain_block [OF chain assms(2)] by auto
  show "unat (current_heap_address s) \<le> 0x6000000" by (rule le)
  moreover have "16 dvd unat b" using chain_aligned [OF chain _ assms(2)] by simp
  ultimately show "block_addr b"
    using chain_block [OF chain assms(2)] by (simp add: block_addr_def)
qed

lemma heap_rep_disjoint:
  assumes "heap_rep bs fs s" "b \<in> set bs" "c \<in> set bs" "b \<noteq> c"
  shows "unat b + bsize (ram s) b \<le> unat c \<or> unat c + bsize (ram s) c \<le> unat b"
  using assms(1) chain_disjoint [OF _ assms(2-4), of "ram s"] by (auto simp: heap_rep_def)

text \<open>
  The bytes the allocator may not touch: those outside the heap, and the payload of a live block.
\<close>

definition user_byte :: "addr list \<Rightarrow> addr list \<Rightarrow> mem \<Rightarrow> addr \<Rightarrow> bool" where
  "user_byte bs fs m x \<longleftrightarrow>
     unat x < unat HEAP_START \<or> heap_end \<le> unat x \<or>
     (\<exists>b \<in> live bs fs. unat b + 16 \<le> unat x \<and> unat x < unat b + bsize m b)"

lemma store_header_user_byte:
  assumes "heap_rep bs fs s" "c \<in> set bs" "user_byte bs fs (ram s) x" "k = 0 \<or> k = 4"
  shows "store32 (ram s) (c + k) v x = ram s x"
proof -
  note c = heap_rep_block [OF assms(1,2)]
  have k: "unat (c + k) = unat c + unat k" "unat k + 4 \<le> 8"
    using assms(4) block_addr_add_4 [OF c(6)] by auto
  have "unat x < unat c \<or> unat c + 8 \<le> unat x"
  proof (cases "unat x < unat HEAP_START \<or> heap_end \<le> unat x")
    case True
    then show ?thesis using c by (auto simp: heap_end_eq const_defs)
  next
    case False
    then obtain b where b: "b \<in> set bs" "unat b + 16 \<le> unat x" "unat x < unat b + bsize (ram s) b"
      using assms(3) by (auto simp: user_byte_def live_def)
    then show ?thesis
      using heap_rep_disjoint [OF assms(1) b(1) assms(2)] c by (cases "b = c") auto
  qed
  then have "\<not> in_range x (c + k) 4"
    using k c by (subst in_range_unat) auto
  then show ?thesis by (simp add: store32_def store_le_other)
qed

section \<open>malloc and free keep the heap\<close>

text \<open>
  \<^verbatim>\<open>malloc\<close> computes with \<^verbatim>\<open>size_t\<close>; below this bound neither the rounding nor the addition of
  \<^verbatim>\<open>sbrk\<close> wraps around.
\<close>

definition malloc_size_ok :: "size_t \<Rightarrow> bool" where
  "malloc_size_ok n \<longleftrightarrow> unat n \<le> 0xF9FFFFE0"

lemma malloc_rounding:
  assumes "malloc_size_ok n"
  shows "unat (ALIGN_16 (n + overhead)) = (unat n + 31) div 16 * 16"
    and "unat (ALIGN_16 (n + overhead)) \<le> 0xF9FFFFF0"
    and "unat n + 16 \<le> unat (ALIGN_16 (n + overhead))"
    and "16 dvd unat (ALIGN_16 (n + overhead))"
proof -
  have "unat (n + 16) = unat n + 16"
    using assms by (simp add: malloc_size_ok_def unat_word_ariths)
  then show *: "unat (ALIGN_16 (n + overhead)) = (unat n + 31) div 16 * 16"
    using assms ALIGN_16_unat [of "n + 16"] by (simp add: malloc_size_ok_def)
  show "unat (ALIGN_16 (n + overhead)) \<le> 0xF9FFFFF0" "unat n + 16 \<le> unat (ALIGN_16 (n + overhead))"
    "16 dvd unat (ALIGN_16 (n + overhead))"
    unfolding * using assms by (simp_all add: malloc_size_ok_def)
qed

text \<open>Taking a block off the free list.\<close>

lemma heap_rep_unlink:
  assumes rep: "heap_rep bs (xs @ b # ys) s"
    and s': "s' = set_link (if xs = [] then Free_Head else Next_Of (last xs)) (block_next (ram s) b) s"
  shows "heap_rep bs (xs @ ys) s'"
    and "c \<in> set bs \<Longrightarrow> block_size (ram s') c = block_size (ram s) c"
    and "user_byte bs (xs @ b # ys) (ram s) x \<Longrightarrow> ram s' x = ram s x"
proof -
  have fl: "free_list (ram s) (free_block_list_head_next s) (xs @ b # ys)"
    and dist: "distinct (xs @ b # ys)" and sub: "set (xs @ b # ys) \<subseteq> set bs"
    using rep by (simp_all add: heap_rep_def)
  have addr: "block_addr c" if "c \<in> set bs" for c using heap_rep_block(6) [OF rep that] .
  have last: "last xs \<in> set bs" if "xs \<noteq> []" using that sub by auto
  have size: "block_size (ram s') c = block_size (ram s) c" if "c \<in> set bs" for c
    using addr that last by (cases "xs = []") (simp_all add: s' block_fields)
  then show "c \<in> set bs \<Longrightarrow> block_size (ram s') c = block_size (ram s) c" .
  show "ram s' x = ram s x" if "user_byte bs (xs @ b # ys) (ram s) x"
    using store_header_user_byte [OF rep last that, of 0] by (cases "xs = []") (simp_all add: s')
  have "free_list (ram s') (free_block_list_head_next s') (xs @ ys)"
  proof (cases "xs = []")
    case True
    with fl show ?thesis by (simp add: s')
  next
    case False
    show ?thesis
    proof (rule free_list_unlink [OF _ False dist])
      show "free_list (ram s) (free_block_list_head_next s') (xs @ b # ys)"
        using fl False by (simp add: s')
      show "block_next (ram s') (last xs) = block_next (ram s) b" using False by (simp add: s')
      fix c assume "c \<in> set (xs @ ys)" "c \<noteq> last xs"
      then show "block_next (ram s') c = block_next (ram s) c"
        using False sub addr last by (auto simp: s' block_fields)
    qed
  qed
  moreover have "chain (ram s') a bs e = chain (ram s) a bs e" for a e
    using size by (rule chain_cong)
  ultimately show "heap_rep bs (xs @ ys) s'"
    using rep dist sub by (cases "xs = []") (auto simp: heap_rep_def s')
qed

text \<open>Extending the heap by a block at the program break.\<close>

lemma heap_rep_extend:
  assumes rep: "heap_rep bs fs s"
    and s': "s' = s\<lparr>current_heap_address := b + sz, ram := store32 (ram s) (b + 4) sz\<rparr>"
    and b: "b = current_heap_address s" and sz: "16 \<le> unat sz" "16 dvd unat sz"
    and fits: "unat b + unat sz \<le> heap_end"
  shows "heap_rep (bs @ [b]) fs s'" "b \<notin> set bs" "16 dvd unat b" "0 < unat b"
    and "c \<in> set bs \<Longrightarrow> block_size (ram s') c = block_size (ram s) c"
    and "user_byte bs fs (ram s) x \<Longrightarrow> ram s' x = ram s x"
proof -
  have chain: "chain (ram s) 0x5000000 bs (unat b)" and dist: "distinct fs" and sub: "set fs \<subseteq> set bs"
    and fl: "free_list (ram s) (free_block_list_head_next s) fs"
    using rep by (simp_all add: heap_rep_def b const_defs)
  show notin: "b \<notin> set bs"
    using chain_block [OF chain, of b] by auto
  have "0x5000000 \<le> unat b" using chain by (rule chain_le)
  then show "0 < unat b" by simp
  show dvd: "16 dvd unat b"
    using chain by (rule chain_end_aligned) simp
  with sz(1) fits have ba: "block_addr b" by (simp add: block_addr_def heap_end_eq)
  have addr: "block_addr c" if "c \<in> set bs" for c using heap_rep_block(6) [OF rep that] .
  show size: "block_size (ram s') c = block_size (ram s) c" if "c \<in> set bs" for c
    using block_fields(4) [OF addr [OF that] ba] that notin by (auto simp: s')
  have "unat (b + sz) = unat b + unat sz"
    using fits by (simp add: unat_word_ariths heap_end_eq)
  moreover have "chain (ram s') 0x5000000 bs (unat b)"
    using chain chain_cong [of bs "ram s'" "ram s"] size by simp
  then have "chain (ram s') 0x5000000 (bs @ [b]) (unat b + unat sz)"
    using chain_snoc [of "ram s'" _ bs b] sz by (simp add: s')
  moreover have "free_list (ram s') (free_block_list_head_next s) fs"
  proof -
    have "block_next (ram s') c = block_next (ram s) c" if "c \<in> set fs" for c
      using block_fields(2) [OF addr ba] that sub by (auto simp: s')
    then show ?thesis using fl free_list_cong by blast
  qed
  ultimately show "heap_rep (bs @ [b]) fs s'"
    using fits dist sub by (auto simp: heap_rep_def s' const_defs)
  show "ram s' x = ram s x" if "user_byte bs fs (ram s) x"
  proof -
    have "unat x < unat b \<or> unat b + 16 \<le> unat x"
      using that chain_block [OF chain] \<open>0x5000000 \<le> unat b\<close> fits sz(1)
      by (fastforce simp: user_byte_def live_def const_defs)
    then have "\<not> in_range x (b + 4) 4"
      using block_addr_add_4 [OF ba] ba by (subst in_range_unat) (auto simp: block_addr_def)
    then show ?thesis by (simp add: s' store32_def store_le_other)
  qed
qed

text \<open>
  What an allocation of \<open>n\<close> bytes at \<open>p\<close> gives: a block that was not live and now is, aligned and
  large enough, with the sizes of the other blocks and every user byte as they were.
\<close>

definition allocated ::
  "addr list \<Rightarrow> addr list \<Rightarrow> 's heap_state_scheme \<Rightarrow> size_t \<Rightarrow> addr \<Rightarrow>
   addr list \<Rightarrow> addr list \<Rightarrow> 's heap_state_scheme \<Rightarrow> bool" where
  "allocated bs fs s n p bs' fs' s' \<longleftrightarrow>
     heap_rep bs' fs' s' \<and> p - 16 \<notin> live bs fs \<and> live bs' fs' = insert (p - 16) (live bs fs) \<and>
     16 dvd unat p \<and> unat p = unat (p - 16) + 16 \<and> unat n + 16 \<le> bsize (ram s') (p - 16) \<and>
     (\<forall>b \<in> live bs fs. block_size (ram s') b = block_size (ram s) b) \<and>
     (\<forall>x. user_byte bs fs (ram s) x \<longrightarrow> ram s' x = ram s x)"

lemma block_addr_payload:
  assumes "block_addr b" "unat b + 16 < 2 ^ 32"
  shows "unat (b + 16) = unat b + 16" "16 dvd unat (b + 16)" "b + 16 \<noteq> 0"
proof -
  show *: "unat (b + 16) = unat b + 16" using assms unat_add_small [of b 16] by simp
  show "16 dvd unat (b + 16)" unfolding * using assms(1) by (simp add: block_addr_def)
  show "b + 16 \<noteq> 0" using * by (metis add_is_0 unat_0 zero_neq_numeral)
qed

lemma malloc_reuse:
  assumes rep: "heap_rep bs (xs @ b # ys) s" and n: "malloc_size_ok n"
    and small: "\<And>x. x \<in> set xs \<Longrightarrow> \<not> ALIGN_16 (n + overhead) \<le> block_size (ram s) x"
    and large: "ALIGN_16 (n + overhead) \<le> block_size (ram s) b"
  shows "\<exists>s'. malloc n s = Some (b + 16, s') \<and> b + 16 \<noteq> 0 \<and>
    allocated bs (xs @ b # ys) s n (b + 16) bs (xs @ ys) s'"
proof -
  define s' where "s' = set_link (if xs = [] then Free_Head else Next_Of (last xs)) (block_next (ram s) b) s"
  have b: "b \<in> set bs" using rep by (simp add: heap_rep_def)
  note blk = heap_rep_block [OF rep b] and unlink = heap_rep_unlink [OF rep s'_def]
  have "unat n + 16 \<le> bsize (ram s) b"
    using malloc_rounding(3) [OF n] large by (simp add: word_le_nat_alt)
  moreover have "malloc n s = Some (b + 16, s')"
    using malloc_find_Some [of s _ xs b ys "ALIGN_16 (n + overhead)" Free_Head] rep small large
    by (simp add: malloc_def heap_rep_def s'_def Let_def)
  moreover have "live bs (xs @ ys) = insert b (live bs (xs @ b # ys))"
    using rep b by (auto simp: live_def heap_rep_def)
  moreover note block_addr_payload [OF blk(6)] unlink(1,3) unlink(2) [of b]
  ultimately show ?thesis
    using blk b unlink(2) by (auto simp: allocated_def live_def)
qed

lemma malloc_extend:
  assumes rep: "heap_rep bs fs s" and n: "malloc_size_ok n"
    and small: "\<And>x. x \<in> set fs \<Longrightarrow> \<not> ALIGN_16 (n + overhead) \<le> block_size (ram s) x"
  defines "sz \<equiv> ALIGN_16 (n + overhead)" and "b \<equiv> current_heap_address s"
  shows "heap_end < unat b + unat sz \<Longrightarrow> malloc n s = Some (0, s\<lparr>errno := ENOMEM\<rparr>)"
    and "unat b + unat sz \<le> heap_end \<Longrightarrow> \<exists>s'. malloc n s = Some (b + 16, s') \<and> b + 16 \<noteq> 0 \<and>
      allocated bs fs s n (b + 16) (bs @ [b]) fs s'"
proof -
  note sz = malloc_rounding [OF n, folded sz_def]
  have szb: "ALIGN_16 (n + 16) = sz" "current_heap_address s = b" by (simp_all add: sz_def b_def)
  have brk: "unat b \<le> 0x6000000" "chain (ram s) 0x5000000 bs (unat b)"
    using rep by (simp_all add: heap_rep_def b_def heap_end_eq const_defs)
  then have sum: "unat (b + sz) = unat b + unat sz"
    using sz(2) by (simp add: unat_word_ariths)
  have find: "malloc_find sz Free_Head (free_block_list_head_next s) s = Some (None, s)"
    using malloc_find_None [of s _ fs sz] rep small by (simp add: heap_rep_def sz_def)
  have guard: "HEAP_START + HEAP_SIZE < b + sz \<longleftrightarrow> heap_end < unat b + unat sz"
    by (simp add: word_less_nat_alt sum heap_end_def)
  show "malloc n s = Some (0, s\<lparr>errno := ENOMEM\<rparr>)" if "heap_end < unat b + unat sz"
    using that find guard by (simp add: malloc_def sbrk_def Let_def szb)
  assume fits: "unat b + unat sz \<le> heap_end"
  define s' where "s' = s\<lparr>current_heap_address := b + sz, ram := store32 (ram s) (b + 4) sz\<rparr>"
  have "16 \<le> unat sz" using sz(3) by simp
  note ext = heap_rep_extend [OF rep s'_def szb(2) [symmetric] this sz(4) fits]
  have nz: "b \<noteq> 0" using ext(4) by auto
  have ba: "block_addr b" using ext(3) fits sz(3) by (simp add: block_addr_def heap_end_eq)
  have "malloc n s = Some (b + 16, s')"
    using find guard fits nz by (simp add: malloc_def sbrk_def Let_def s'_def szb)
  moreover have "live (bs @ [b]) fs = insert b (live bs fs)"
    using ext(2) rep by (auto simp: live_def heap_rep_def)
  moreover have "unat n + 16 \<le> bsize (ram s') b" using sz(3) by (simp add: s'_def)
  moreover note block_addr_payload [OF ba] ext(1,2,6)
  ultimately show "\<exists>s'. malloc n s = Some (b + 16, s') \<and> b + 16 \<noteq> 0 \<and>
      allocated bs fs s n (b + 16) (bs @ [b]) fs s'"
    using brk ext(5) by (auto simp: allocated_def live_def)
qed

lemma malloc_cases:
  assumes rep: "heap_rep bs fs s" and n: "malloc_size_ok n"
  shows "malloc n s = Some (0, s\<lparr>errno := ENOMEM\<rparr>) \<or>
    (\<exists>p s' bs' fs'. malloc n s = Some (p, s') \<and> p \<noteq> 0 \<and> allocated bs fs s n p bs' fs' s')"
proof (cases "\<exists>b \<in> set fs. ALIGN_16 (n + overhead) \<le> block_size (ram s) b")
  case True
  then obtain xs b ys where fs: "fs = xs @ b # ys" and large: "ALIGN_16 (n + overhead) \<le> block_size (ram s) b"
    and small: "\<forall>x \<in> set xs. \<not> ALIGN_16 (n + overhead) \<le> block_size (ram s) x"
    by (auto dest!: split_list_first_prop)
  then show ?thesis using malloc_reuse [of bs xs b ys s n] rep n by blast
next
  case False
  then show ?thesis
    using malloc_extend [OF rep n] by (cases "heap_end < unat (current_heap_address s)
      + unat (ALIGN_16 (n + overhead))") (auto simp del: overhead_eq)
qed

text \<open>
  \<^verbatim>\<open>free\<close> of a live block puts it on the free list; the other live blocks keep their contents.
\<close>

definition released ::
  "addr list \<Rightarrow> addr list \<Rightarrow> 's heap_state_scheme \<Rightarrow> addr \<Rightarrow> addr list \<Rightarrow> 's heap_state_scheme \<Rightarrow> bool" where
  "released bs fs s p fs' s' \<longleftrightarrow>
     heap_rep bs fs' s' \<and> live bs fs' = live bs fs - {p - 16} \<and>
     (\<forall>b \<in> set bs. block_size (ram s') b = block_size (ram s) b) \<and>
     (\<forall>x. user_byte bs fs' (ram s) x \<longrightarrow> ram s' x = ram s x)"

lemma free_released:
  assumes rep: "heap_rep bs fs s" and p: "p - 16 \<in> live bs fs"
  shows "released bs fs s p ((p - 16) # fs) (free p s)"
proof -
  let ?b = "p - 16" and ?s = "free p s"
  have b: "?b \<in> set bs" "?b \<notin> set fs" using p by (simp_all add: live_def)
  have ram: "ram ?s = store32 (ram s) ?b (free_block_list_head_next s)"
    "free_block_list_head_next ?s = ?b" "current_heap_address ?s = current_heap_address s"
    by (simp_all add: free_def Let_def)
  have addr: "block_addr c" if "c \<in> set bs" for c using heap_rep_block(6) [OF rep that] .
  have size: "block_size (ram ?s) c = block_size (ram s) c" if "c \<in> set bs" for c
    using addr b that by (simp add: ram block_fields)
  have nxt: "block_next (ram ?s) c = block_next (ram s) c" if "c \<in> set fs" for c
    using block_fields(3) [OF addr addr, of c ?b] b that rep by (auto simp: ram heap_rep_def)
  have "?b \<noteq> 0" using heap_rep_block(1) [OF rep b(1)] by auto
  moreover have "free_list (ram ?s) q fs = free_list (ram s) q fs" for q
    using nxt by (rule free_list_cong)
  moreover have "chain (ram ?s) a bs e = chain (ram s) a bs e" for a e
    using size by (rule chain_cong)
  ultimately have "heap_rep bs (?b # fs) ?s"
    using rep b by (simp add: heap_rep_def ram)
  moreover have "ram ?s x = ram s x" if "user_byte bs (?b # fs) (ram s) x" for x
  proof -
    have "user_byte bs fs (ram s) x" using that by (auto simp: user_byte_def live_def)
    then show ?thesis using store_header_user_byte [OF rep b(1), of x 0] by (simp add: ram)
  qed
  ultimately show ?thesis using size by (auto simp: released_def live_def)
qed

text \<open>Writing inside the payload of a live block does not disturb the heap.\<close>

lemma heap_rep_user_write:
  assumes rep: "heap_rep bs fs s"
    and same: "\<And>x. \<not> user_byte bs fs (ram s) x \<Longrightarrow> m x = ram s x"
  shows "heap_rep bs fs (s\<lparr>ram := m\<rparr>)" and "b \<in> set bs \<Longrightarrow> block_size m b = block_size (ram s) b"
proof -
  have header: "m (b + of_nat i) = ram s (b + of_nat i)" if b: "b \<in> set bs" and i: "i < 16" for b i
  proof (rule same)
    note blk = heap_rep_block [OF rep b]
    have x: "unat (b + of_nat i) = unat b + i"
      using i blk by (intro unat_add_small) (simp add: block_addr_def)
    show "\<not> user_byte bs fs (ram s) (b + of_nat i)"
    proof
      assume "user_byte bs fs (ram s) (b + of_nat i)"
      then obtain c where c: "c \<in> set bs" "unat c + 16 \<le> unat b + i" "unat b + i < unat c + bsize (ram s) c"
        using blk i by (auto simp: user_byte_def live_def x heap_end_eq const_defs)
      then show False
        using heap_rep_disjoint [OF rep b c(1)] i blk by (cases "b = c") auto
    qed
  qed
  have nxt: "block_next m b = block_next (ram s) b" if "b \<in> set bs" for b
    unfolding block_next_def using that by (intro load32_cong) (simp add: header)
  have size: "block_size m b = block_size (ram s) b" if "b \<in> set bs" for b
    unfolding block_size_def
  proof (rule load32_cong)
    fix i :: nat assume "i < 4"
    then show "m (b + 4 + of_nat i) = ram s (b + 4 + of_nat i)"
      using header [OF that, of "4 + i"] by (simp add: add.assoc)
  qed
  then show "b \<in> set bs \<Longrightarrow> block_size m b = block_size (ram s) b" .
  have "free_list m q fs = free_list (ram s) q fs" for q
    using nxt rep by (intro free_list_cong) (auto simp: heap_rep_def)
  moreover have "chain m a bs e = chain (ram s) a bs e" for a e
    using size by (rule chain_cong)
  ultimately show "heap_rep bs fs (s\<lparr>ram := m\<rparr>)" using rep by (simp add: heap_rep_def)
qed

text \<open>\<^verbatim>\<open>malloc\<close> and \<^verbatim>\<open>free\<close> change memory, the heap's own variables and \<^verbatim>\<open>errno\<close>, and nothing else.\<close>

definition heap_only :: "'s heap_state_scheme \<Rightarrow> 's heap_state_scheme \<Rightarrow> bool" where
  "heap_only s s' \<longleftrightarrow> s' = s\<lparr>errno := errno s', ram := ram s',
     current_heap_address := current_heap_address s', free_block_list_head_next := free_block_list_head_next s'\<rparr>"

lemma heap_only_update:
  "heap_only s (s\<lparr>errno := e, ram := m, current_heap_address := c, free_block_list_head_next := f\<rparr>)"
  "heap_only s (s\<lparr>ram := m\<rparr>)" "heap_only s (s\<lparr>free_block_list_head_next := f\<rparr>)" "heap_only s (s\<lparr>errno := e\<rparr>)"
  "heap_only s (s\<lparr>ram := m, free_block_list_head_next := f\<rparr>)"
  "heap_only s (s\<lparr>current_heap_address := c, ram := m\<rparr>)" "heap_only s (s\<lparr>current_heap_address := c, errno := e\<rparr>)"
  by (cases s, simp add: heap_only_def)+

lemma heap_only_set_link: "heap_only s (set_link lnk v s)"
  by (cases lnk) (simp_all add: heap_only_update)

lemma malloc_heap_only:
  assumes "heap_rep bs fs s" "malloc n s = Some (p, s')"
  shows "heap_only s s'"
proof (cases "\<exists>b \<in> set fs. ALIGN_16 (n + overhead) \<le> block_size (ram s) b")
  case True
  then obtain xs b ys where split: "fs = xs @ b # ys" "ALIGN_16 (n + overhead) \<le> block_size (ram s) b"
    "\<forall>x \<in> set xs. \<not> ALIGN_16 (n + overhead) \<le> block_size (ram s) x"
    by (auto dest!: split_list_first_prop)
  have "free_list (ram s) (free_block_list_head_next s) (xs @ b # ys)" using assms(1) split(1) by (simp add: heap_rep_def)
  from malloc_find_Some [OF this, of "ALIGN_16 (n + overhead)" Free_Head] split(2,3) assms(2)
  have "s' = set_link (if xs = [] then Free_Head else Next_Of (last xs)) (block_next (ram s) b) s"
    by (simp add: malloc_def Let_def)
  then show ?thesis by (simp only: heap_only_set_link)
next
  case False
  have "free_list (ram s) (free_block_list_head_next s) fs" using assms(1) by (simp add: heap_rep_def)
  from malloc_find_None [OF this, of "ALIGN_16 (n + overhead)" Free_Head] False assms(2)
  show ?thesis
    by (auto simp: malloc_def Let_def sbrk_def heap_only_update split: if_splits)
qed

lemma free_heap_only: "heap_only s (free p s)"
  by (simp add: free_def Let_def heap_only_update)

section \<open>The allocator as an interface\<close>

text \<open>
  What the callers of \<^verbatim>\<open>malloc\<close> and \<^verbatim>\<open>free\<close> rely on, without the representation. \<open>object g s p\<close> is the
  capacity of the live allocation at \<open>p\<close>; \<open>arena\<close> the addresses the allocator manages.
\<close>

locale allocator =
  fixes alloc :: "size_t \<Rightarrow> 's \<Rightarrow> (addr \<times> 's) option"
    and release :: "addr \<Rightarrow> 's \<Rightarrow> 's"
    and contents :: "'s \<Rightarrow> mem"
    and overwrite :: "mem \<Rightarrow> 's \<Rightarrow> 's"
    and rep :: "'g \<Rightarrow> 's \<Rightarrow> bool"
    and object :: "'g \<Rightarrow> 's \<Rightarrow> addr \<Rightarrow> nat option"
    and arena :: "addr \<Rightarrow> bool"
    and admissible :: "size_t \<Rightarrow> bool"
  assumes alloc_total: "rep g s \<Longrightarrow> admissible n \<Longrightarrow> \<exists>p s'. alloc n s = Some (p, s')"
    and alloc_fails: "rep g s \<Longrightarrow> admissible n \<Longrightarrow> alloc n s = Some (0, s') \<Longrightarrow>
      rep g s' \<and> contents s' = contents s \<and> object g s' = object g s"
    and alloc_object: "rep g s \<Longrightarrow> admissible n \<Longrightarrow> alloc n s = Some (p, s') \<Longrightarrow> p \<noteq> 0 \<Longrightarrow>
      \<exists>g' k. rep g' s' \<and> object g s p = None \<and> object g' s' = (object g s)(p \<mapsto> k) \<and> unat n \<le> k"
    and alloc_contents: "rep g s \<Longrightarrow> admissible n \<Longrightarrow> alloc n s = Some (p, s') \<Longrightarrow> p \<noteq> 0 \<Longrightarrow>
      \<not> arena x \<or> (\<exists>q l. object g s q = Some l \<and> in_range x q l) \<Longrightarrow> contents s' x = contents s x"
    and release_object: "rep g s \<Longrightarrow> object g s p = Some k \<Longrightarrow>
      \<exists>g'. rep g' (release p s) \<and> object g' (release p s) = (object g s)(p := None)"
    and release_contents: "rep g s \<Longrightarrow> object g s p = Some k \<Longrightarrow>
      \<not> arena x \<or> (\<exists>q l. q \<noteq> p \<and> object g s q = Some l \<and> in_range x q l) \<Longrightarrow>
      contents (release p s) x = contents s x"
    and contents_overwrite: "contents (overwrite m s) = m"
    and overwrite_object: "rep g s \<Longrightarrow> object g s p = Some k \<Longrightarrow>
      (\<And>x. \<not> in_range x p k \<Longrightarrow> m x = contents s x) \<Longrightarrow>
      rep g (overwrite m s) \<and> object g (overwrite m s) = object g s"
    and object_arena: "rep g s \<Longrightarrow> object g s p = Some k \<Longrightarrow> in_range x p k \<Longrightarrow> arena x"
    and objects_apart: "rep g s \<Longrightarrow> object g s p = Some k \<Longrightarrow> object g s q = Some l \<Longrightarrow> p \<noteq> q \<Longrightarrow>
      \<not> (in_range x p k \<and> in_range x q l)"
begin

text \<open>A fresh allocation shares no byte with a live one.\<close>

lemma alloc_separate:
  assumes "rep g s" "admissible n" "alloc n s = Some (p, s')" "p \<noteq> 0" "object g s q = Some l"
  shows "\<not> (in_range x p (unat n) \<and> in_range x q l)"
proof
  assume both: "in_range x p (unat n) \<and> in_range x q l"
  obtain g' k where g': "rep g' s'" "object g s p = None" "object g' s' = (object g s)(p \<mapsto> k)" "unat n \<le> k"
    using alloc_object [OF assms(1-4)] by blast
  then have "p \<noteq> q" "object g' s' p = Some k" "object g' s' q = Some l" using assms(5) by auto
  moreover have "in_range x p k" using both g'(4) by (simp add: in_range_def)
  ultimately show False using objects_apart [OF g'(1), of p k q l x] both by blast
qed

text \<open>
  A buffer allocated, written within its bounds and released again leaves the live objects, their
  contents and everything outside the arena as they were.
\<close>

lemma scratch_buffer:
  assumes "rep g s" "admissible n" "alloc n s = Some (p, s1)" "p \<noteq> 0"
    and m: "\<And>x. \<not> in_range x p (unat n) \<Longrightarrow> m x = contents s1 x"
  shows "\<exists>g'. rep g' (release p (overwrite m s1)) \<and> object g' (release p (overwrite m s1)) = object g s"
    and "\<not> arena x \<or> (\<exists>q l. object g s q = Some l \<and> in_range x q l) \<Longrightarrow>
      contents (release p (overwrite m s1)) x = contents s x"
proof -
  obtain g1 k where g1: "rep g1 s1" "object g s p = None" "object g1 s1 = (object g s)(p \<mapsto> k)" "unat n \<le> k"
    using alloc_object [OF assms(1-4)] by blast
  then have obj: "object g1 s1 p = Some k" by simp
  have mk: "m x = contents s1 x" if "\<not> in_range x p k" for x
    using m that g1(4) by (simp add: in_range_def)
  have w: "rep g1 (overwrite m s1)" "object g1 (overwrite m s1) = object g1 s1"
    using overwrite_object [OF g1(1) obj mk] by auto
  show "\<exists>g'. rep g' (release p (overwrite m s1)) \<and> object g' (release p (overwrite m s1)) = object g s"
    using release_object [of g1 "overwrite m s1" p k] w g1 fun_upd_idem [of "object g s" p None] by auto
  assume x: "\<not> arena x \<or> (\<exists>q l. object g s q = Some l \<and> in_range x q l)"
  then have x1: "\<not> arena x \<or> (\<exists>q l. q \<noteq> p \<and> object g1 s1 q = Some l \<and> in_range x q l)"
    using g1(2,3) by (metis fun_upd_other option.distinct(1))
  then have "\<not> in_range x p (unat n)"
    using object_arena [OF g1(1) obj] objects_apart [OF g1(1) obj] g1(4)
    by (auto simp: in_range_def)
  then have "m x = contents s1 x" by (rule m)
  moreover have "contents (release p (overwrite m s1)) x = m x"
    using release_contents [of g1 "overwrite m s1" p k x] w obj x1 by (simp add: contents_overwrite)
  ultimately show "contents (release p (overwrite m s1)) x = contents s x"
    using alloc_contents [OF assms(1-4) x] by simp
qed

end

text \<open>The heap of \<^verbatim>\<open>malloc.c\<close> keeps this contract.\<close>

definition heap_object :: "addr list \<times> addr list \<Rightarrow> 's heap_state_scheme \<Rightarrow> addr \<Rightarrow> nat option" where
  "heap_object g s p =
     (if p - 16 \<in> live (fst g) (snd g) then Some (bsize (ram s) (p - 16) - 16) else None)"

definition heap_arena :: "addr \<Rightarrow> bool" where
  "heap_arena x \<longleftrightarrow> unat HEAP_START \<le> unat x \<and> unat x < heap_end"

lemma heap_object_range:
  assumes "heap_rep bs fs s" "b \<in> set bs"
  shows "in_range x (b + 16) (bsize (ram s) b - 16) \<longleftrightarrow> unat b + 16 \<le> unat x \<and> unat x < unat b + bsize (ram s) b"
proof -
  note blk = heap_rep_block [OF assms]
  have "unat (b + 16) = unat b + 16" using blk by (intro block_addr_payload) auto
  then show ?thesis using blk by (subst in_range_unat) auto
qed

lemma user_byte_object:
  assumes "heap_rep bs fs s"
  shows "user_byte bs fs (ram s) x \<longleftrightarrow>
    \<not> heap_arena x \<or> (\<exists>q l. heap_object (bs, fs) s q = Some l \<and> in_range x q l)"
proof -
  have "(\<exists>q l. heap_object (bs, fs) s q = Some l \<and> in_range x q l) \<longleftrightarrow>
        (\<exists>b \<in> live bs fs. in_range x (b + 16) (bsize (ram s) b - 16))"
    by (auto simp: heap_object_def split: if_splits intro: exI [where x = "_ + 16"])
      (metis diff_add_cancel)
  also have "\<dots> \<longleftrightarrow> (\<exists>b \<in> live bs fs. unat b + 16 \<le> unat x \<and> unat x < unat b + bsize (ram s) b)"
    using heap_object_range [OF assms] by (auto simp: live_def)
  finally show ?thesis by (auto simp: user_byte_def heap_arena_def)
qed

lemma allocated_object:
  assumes "heap_rep bs fs s" "allocated bs fs s n p bs' fs' s'"
  shows "heap_object (bs', fs') s' = (heap_object (bs, fs) s)(p \<mapsto> bsize (ram s') (p - 16) - 16)"
  using assms(2) by (auto simp: fun_eq_iff heap_object_def allocated_def)

lemma released_object:
  assumes "released bs fs s p fs' s'"
  shows "heap_object (bs, fs') s' = (heap_object (bs, fs) s)(p := None)"
  using assms by (auto simp: fun_eq_iff heap_object_def released_def live_def)

lemma heap_object_Some:
  "heap_object (bs, fs) s p = Some k \<longleftrightarrow> p - 16 \<in> live bs fs \<and> k = bsize (ram s) (p - 16) - 16"
  by (auto simp: heap_object_def)

lemma user_byte_release:
  assumes "heap_rep bs fs s"
    and "\<not> heap_arena x \<or> (\<exists>q l. q \<noteq> p \<and> heap_object (bs, fs) s q = Some l \<and> in_range x q l)"
  shows "user_byte bs ((p - 16) # fs) (ram s) x"
proof (cases "heap_arena x")
  case True
  with assms(2) obtain q l where q: "q \<noteq> p" "heap_object (bs, fs) s q = Some l" "in_range x q l" by blast
  then have "q - 16 \<in> live bs ((p - 16) # fs)" and "q - 16 \<in> set bs"
    by (auto simp: heap_object_Some live_def)
  moreover have "in_range x (q - 16 + 16) (bsize (ram s) (q - 16) - 16)"
    using q by (simp add: heap_object_Some)
  ultimately show ?thesis
    using heap_object_range [OF assms(1), of "q - 16" x] by (auto simp: user_byte_def)
next
  case False
  then show ?thesis by (auto simp: user_byte_def heap_arena_def)
qed

text \<open>An overwritten object leaves the structure alone; the objects lie in the arena, apart from each other.\<close>

lemma heap_object_overwrite:
  assumes "heap_rep bs fs s" "heap_object (bs, fs) s p = Some k" "\<And>x. \<not> in_range x p k \<Longrightarrow> m x = ram s x"
  shows "heap_rep bs fs (s\<lparr>ram := m\<rparr>)" "heap_object (bs, fs) (s\<lparr>ram := m\<rparr>) = heap_object (bs, fs) s"
proof -
  have "m x = ram s x" if "\<not> user_byte bs fs (ram s) x" for x
    using that user_byte_object [OF assms(1), of x] assms(2,3) by auto
  note w = heap_rep_user_write [OF assms(1) this]
  show "heap_rep bs fs (s\<lparr>ram := m\<rparr>)" by (rule w(1))
  show "heap_object (bs, fs) (s\<lparr>ram := m\<rparr>) = heap_object (bs, fs) s"
    using w by (auto simp: fun_eq_iff heap_object_def live_def)
qed

lemma heap_object_arena:
  assumes "heap_rep bs fs s" "heap_object (bs, fs) s p = Some k" "in_range x p k"
  shows "heap_arena x"
proof -
  have b: "p - 16 \<in> set bs" "k = bsize (ram s) (p - 16) - 16" using assms(2) by (simp_all add: heap_object_Some live_def)
  then show ?thesis
    using assms(3) heap_object_range [OF assms(1) b(1), of x] heap_rep_block [OF assms(1) b(1)]
    by (auto simp: heap_arena_def heap_end_eq const_defs)
qed

lemma heap_objects_disjoint:
  assumes "heap_rep bs fs s" "heap_object (bs, fs) s p = Some k" "heap_object (bs, fs) s q = Some l" "p \<noteq> q"
    and "in_range x p k"
  shows "\<not> in_range x q l"
proof -
  have b: "p - 16 \<in> set bs" "k = bsize (ram s) (p - 16) - 16" and c: "q - 16 \<in> set bs" "l = bsize (ram s) (q - 16) - 16"
    using assms(2,3) by (simp_all add: heap_object_Some live_def)
  have "p - 16 \<noteq> q - 16" using assms(4) by simp
  then show ?thesis
    using assms(5) heap_object_range [OF assms(1) b(1), of x] heap_object_range [OF assms(1) c(1), of x]
      heap_rep_disjoint [OF assms(1) b(1) c(1)] by (auto simp: b(2) c(2))
qed

lemma malloc_allocated:
  assumes "heap_rep bs fs s" "malloc_size_ok n" "malloc n s = Some (p, s')" "p \<noteq> 0"
  obtains bs' fs' where "allocated bs fs s n p bs' fs' s'"
  using malloc_cases [OF assms(1,2)] assms(3,4) by auto

interpretation heap: allocator malloc free ram "\<lambda>m s. s\<lparr>ram := m\<rparr>"
  "\<lambda>g. heap_rep (fst g) (snd g)" heap_object heap_arena malloc_size_ok
proof (unfold_locales, goal_cases)
  case (1 g s n)
  then show ?case using malloc_cases [of "fst g" "snd g" s n] by blast
next
  case (2 g s n s')
  then show ?case using malloc_cases [of "fst g" "snd g" s n]
    by (auto simp: heap_rep_def heap_object_def)
next
  case (3 g s n p s')
  then obtain bs' fs' where a: "allocated (fst g) (snd g) s n p bs' fs' s'" by (auto elim: malloc_allocated)
  then have "heap_object g s p = None" "unat n \<le> bsize (ram s') (p - 16) - 16" "heap_rep bs' fs' s'"
    by (auto simp: allocated_def heap_object_def)
  then show ?case using allocated_object [OF 3(1) a] by (intro exI [where x = "(bs', fs')"]) auto
next
  case (4 g s n p s' x)
  then obtain bs' fs' where "allocated (fst g) (snd g) s n p bs' fs' s'" by (auto elim: malloc_allocated)
  then show ?case using 4 user_byte_object [of "fst g" "snd g" s x] by (simp add: allocated_def)
next
  case (5 g s p k)
  then have r: "released (fst g) (snd g) s p ((p - 16) # snd g) (free p s)"
    by (cases g) (simp add: heap_object_Some free_released)
  then show ?case using released_object [OF r]
    by (intro exI [where x = "(fst g, (p - 16) # snd g)"]) (simp add: released_def)
next
  case (6 g s p k x)
  then have "released (fst g) (snd g) s p ((p - 16) # snd g) (free p s)"
    by (cases g) (simp add: heap_object_Some free_released)
  then show ?case using user_byte_release [of "fst g" "snd g" s x p] 6 by (simp add: released_def)
next
  case (8 g s p k m)
  then show ?case using heap_object_overwrite [of "fst g" "snd g" s p k m] by simp
next
  case (9 g s p k x)
  then show ?case using heap_object_arena [of "fst g" "snd g" s p k x] by simp
next
  case (10 g s p k q l x)
  then show ?case using heap_objects_disjoint [of "fst g" "snd g" s p k q l x] by simp
qed simp

text \<open>
  Room for a request: a free block that is large enough, or space above the program break. A buffer that was
  allocated and released again leaves room for the next request of its size: its block is then free.
\<close>

definition heap_room :: "addr list \<Rightarrow> nat \<Rightarrow> 's heap_state_scheme \<Rightarrow> bool" where
  "heap_room fs n s \<longleftrightarrow> (\<exists>b \<in> set fs. (n + 31) div 16 * 16 \<le> bsize (ram s) b) \<or>
     unat (current_heap_address s) + (n + 31) div 16 * 16 \<le> heap_end"

lemma scratch_block_free:
  assumes rep: "heap_rep bs fs s" and n: "malloc_size_ok n" and m: "malloc n s = Some (p, s1)" "p \<noteq> 0"
    and out: "\<And>x. \<not> in_range x p (unat n) \<Longrightarrow> w x = ram s1 x"
  shows "\<exists>bs' fs'. heap_rep bs' fs' (free p (s1\<lparr>ram := w\<rparr>)) \<and>
    heap_object (bs', fs') (free p (s1\<lparr>ram := w\<rparr>)) = heap_object (bs, fs) s \<and>
    heap_room fs' (unat n) (free p (s1\<lparr>ram := w\<rparr>))"
proof -
  obtain bs1 fs1 where a: "allocated bs fs s n p bs1 fs1 s1" using malloc_cases [OF rep n] m by auto
  then have rep1: "heap_rep bs1 fs1 s1" and blk: "p - 16 \<in> live bs1 fs1" and size: "unat n + 16 \<le> bsize (ram s1) (p - 16)"
    by (simp_all add: allocated_def)
  have obj: "heap_object (bs1, fs1) s1 p = Some (bsize (ram s1) (p - 16) - 16)" "unat n \<le> bsize (ram s1) (p - 16) - 16"
    using blk size by (simp_all add: heap_object_Some)
  have "w x = ram s1 x" if "\<not> user_byte bs1 fs1 (ram s1) x" for x
  proof (rule out)
    show "\<not> in_range x p (unat n)"
      using that obj user_byte_object [OF rep1, of x] by (auto simp: in_range_def dest!: spec [of _ p])
  qed
  note same = heap_rep_user_write [OF rep1 this]
  let ?s = "s1\<lparr>ram := w\<rparr>"
  have r: "released bs1 fs1 ?s p ((p - 16) # fs1) (free p ?s)" using same(1) blk by (intro free_released) simp_all
  have "heap_object (bs1, fs1) ?s = heap_object (bs1, fs1) s1"
    using same(2) by (auto simp: fun_eq_iff heap_object_def live_def)
  moreover have fresh: "heap_object (bs, fs) s p = None" using a by (simp add: allocated_def heap_object_def)
  ultimately have "heap_object (bs1, (p - 16) # fs1) (free p ?s) = heap_object (bs, fs) s"
    using released_object [OF r] allocated_object [OF rep a] fresh by (simp add: fun_upd_idem)
  moreover have "bsize (ram (free p ?s)) (p - 16) = bsize (ram s1) (p - 16)"
    using r same(2) [of "p - 16"] blk by (simp add: released_def live_def)
  moreover have "(unat n + 31) div 16 * 16 \<le> bsize (ram s1) (p - 16)"
    using size heap_rep_block [OF rep1, of "p - 16"] blk by (auto simp: live_def dvd_def)
  ultimately show ?thesis using r by (intro exI [of _ bs1] exI [of _ "(p - 16) # fs1"]) (simp add: released_def heap_room_def)
qed

section \<open>Clients of the heap\<close>

text \<open>
  The states a well-behaved client can bring the heap into, with the client's own record of what it
  holds (pointer and requested size): it allocates, frees what it holds, and writes within the bounds
  of what it holds.
\<close>

inductive heap_client :: "'s heap_state_scheme \<Rightarrow> (addr \<rightharpoonup> nat) \<Rightarrow> bool" where
  client_init: "heap_init s \<Longrightarrow> heap_client s Map.empty"
| client_malloc: "heap_client s A \<Longrightarrow> malloc_size_ok n \<Longrightarrow> malloc n s = Some (p, s') \<Longrightarrow> p \<noteq> 0 \<Longrightarrow>
    heap_client s' (A(p \<mapsto> unat n))"
| client_malloc_null: "heap_client s A \<Longrightarrow> malloc_size_ok n \<Longrightarrow> malloc n s = Some (0, s') \<Longrightarrow>
    heap_client s' A"
| client_free: "heap_client s A \<Longrightarrow> A p = Some n \<Longrightarrow> heap_client (free p s) (A(p := None))"
| client_write: "heap_client s A \<Longrightarrow> A p = Some n \<Longrightarrow> in_range x p n \<Longrightarrow>
    heap_client (s\<lparr>ram := (ram s)(x := v)\<rparr>) A"

definition client_inv :: "addr list \<times> addr list \<Rightarrow> 's heap_state_scheme \<Rightarrow> (addr \<rightharpoonup> nat) \<Rightarrow> bool" where
  "client_inv g s A \<longleftrightarrow> heap_rep (fst g) (snd g) s \<and>
     (\<forall>p n. A p = Some n \<longrightarrow> (\<exists>k. heap_object g s p = Some k \<and> n \<le> k))"

lemma heap_client_inv: "heap_client s A \<Longrightarrow> \<exists>g. client_inv g s A"
proof (induction rule: heap_client.induct)
  case (client_init s)
  then show ?case using heap_rep_init by (intro exI [where x = "([], [])"]) (simp add: client_inv_def)
next
  case (client_malloc s A n p s')
  then obtain g where g: "client_inv g s A" by blast
  then obtain g' k where "heap_rep (fst g') (snd g') s'" "heap_object g s p = None"
    "heap_object g' s' = (heap_object g s)(p \<mapsto> k)" "unat n \<le> k"
    using heap.alloc_object [of g s n p s'] client_malloc by (auto simp: client_inv_def)
  with g show ?case by (intro exI [where x = g']) (auto simp: client_inv_def)
next
  case (client_malloc_null s A n s')
  then obtain g where g: "client_inv g s A" by blast
  then have "heap_rep (fst g) (snd g) s' \<and> heap_object g s' = heap_object g s"
    using client_malloc_null heap.alloc_fails [of g s n s'] by (simp add: client_inv_def)
  with g show ?case by (intro exI [where x = g]) (simp add: client_inv_def)
next
  case (client_free s A p n)
  then obtain g where g: "client_inv g s A" by blast
  with client_free obtain k where "heap_object g s p = Some k" unfolding client_inv_def by blast
  with g obtain g' where "heap_rep (fst g') (snd g') (free p s)"
    "heap_object g' (free p s) = (heap_object g s)(p := None)"
    using heap.release_object [of g s p k] by (auto simp: client_inv_def)
  with g show ?case by (intro exI [where x = g']) (auto simp: client_inv_def)
next
  case (client_write s A p n x v)
  then obtain g where g: "client_inv g s A" by blast
  with client_write obtain k where k: "heap_object g s p = Some k" "n \<le> k"
    unfolding client_inv_def by blast
  have "((ram s)(x := v)) y = ram s y" if "\<not> in_range y p k" for y
    using that client_write(3) k(2) by (auto simp: in_range_def)
  then have "heap_rep (fst g) (snd g) (s\<lparr>ram := (ram s)(x := v)\<rparr>) \<and>
      heap_object g (s\<lparr>ram := (ram s)(x := v)\<rparr>) = heap_object g s"
    using heap.overwrite_object [of g s p k "(ram s)(x := v)"] g k by (simp add: client_inv_def)
  with g show ?case by (intro exI [where x = g]) (simp add: client_inv_def)
qed


text \<open>A heap as the boot code leaves it, and a client that holds one allocation in it.\<close>

definition heap0 :: heap_state where
  "heap0 = \<lparr>console = [], io = [], errno = 0, ram = (\<lambda>_. 0),
     current_heap_address = HEAP_START, free_block_list_head_next = 0\<rparr>"

lemma heap_init_heap0: "heap_init heap0"
  by (simp add: heap_init_def heap0_def)

lemma malloc_heap0: "\<exists>s'. malloc 20 heap0 = Some (0x5000010, s') \<and> heap_client s' [0x5000010 \<mapsto> 20]"
proof -
  have "malloc 20 heap0 = Some (0x5000010, heap0\<lparr>current_heap_address := 0x5000030,
      ram := store32 (\<lambda>_. 0) 0x5000004 0x30\<rparr>)"
    by (simp add: malloc_def heap0_def malloc_find.simps sbrk_def const_defs ALIGN_16_def ALIGN_def)
  moreover from client_malloc [OF client_init [OF heap_init_heap0] _ this]
  have "heap_client (heap0\<lparr>current_heap_address := 0x5000030, ram := store32 (\<lambda>_. 0) 0x5000004 0x30\<rparr>)
      [0x5000010 \<mapsto> 20]" by (simp add: malloc_size_ok_def)
  ultimately show ?thesis by blast
qed


text \<open>
  Property C16: allocation and release never disturb what a client holds: after \<^verbatim>\<open>malloc\<close>, and after
  \<^verbatim>\<open>free\<close> of any other pointer, every byte of a live allocation is as it was.
\<close>

theorem heap_contents_stable:
  assumes "heap_client s A" "malloc_size_ok n" "malloc n s = Some (p, s')"
    and "A q = Some k" "in_range x q k"
  shows "ram s' x = ram s x \<and> (\<forall>r j. A r = Some j \<and> r \<noteq> q \<longrightarrow> ram (free r s) x = ram s x)"
proof -
  obtain g where g: "client_inv g s A" using heap_client_inv [OF assms(1)] by blast
  then have rep: "heap_rep (fst g) (snd g) s" by (simp add: client_inv_def)
  obtain l where l: "heap_object g s q = Some l" "in_range x q l"
    using g assms(4,5) by (fastforce simp: client_inv_def in_range_def)
  have "ram s' x = ram s x"
    using heap.alloc_contents [OF rep assms(2,3), of x] heap.alloc_fails [OF rep assms(2), of s'] assms(3) l
    by (cases "p = 0") (simp, blast)
  moreover have "ram (free r s) x = ram s x" if r: "A r = Some j" "r \<noteq> q" for r j
  proof -
    obtain i where "heap_object g s r = Some i" using g r(1) unfolding client_inv_def by blast
    then show ?thesis using heap.release_contents [OF rep, of r i x] l r(2) by metis
  qed
  ultimately show ?thesis by blast
qed

theorem heap_contents_stable_witness:
  "\<exists>s s' :: heap_state. heap_client s [0x5000010 \<mapsto> 20] \<and> malloc 4 s = Some (0x5000040, s') \<and>
     ram s' 0x5000012 = ram s 0x5000012"
proof -
  let ?s = "heap0\<lparr>current_heap_address := 0x5000030, ram := store32 (\<lambda>_. 0) 0x5000004 0x30\<rparr>"
  obtain s where s: "malloc 20 heap0 = Some (0x5000010, s)" "heap_client s [0x5000010 \<mapsto> 20]"
    using malloc_heap0 by blast
  then have s_eq: "s = ?s"
    by (simp add: malloc_def heap0_def malloc_find.simps sbrk_def const_defs ALIGN_16_def ALIGN_def)
  have m: "malloc 4 s = Some (0x5000040, s\<lparr>current_heap_address := 0x5000050,
      ram := store32 (ram s) 0x5000034 0x20\<rparr>)"
    by (simp add: s_eq malloc_def heap0_def malloc_find.simps sbrk_def const_defs ALIGN_16_def ALIGN_def)
  from heap_contents_stable [OF s(2) _ m, where q = "0x5000010" and k = 20 and x = "0x5000012"] s(2) m
  show ?thesis by (auto simp: malloc_size_ok_def in_range_def)
qed

lemma malloc_result_cases:
  assumes rep: "heap_rep bs fs s" and n: "malloc_size_ok n"
  defines "sz \<equiv> (unat n + 31) div 16 * 16"
  shows "if (\<forall>b \<in> set fs. bsize (ram s) b < sz) \<and> heap_end < unat (current_heap_address s) + sz
     then malloc n s = Some (0, s\<lparr>errno := ENOMEM\<rparr>)
     else \<exists>p s' bs' fs'. malloc n s = Some (p, s') \<and> p \<noteq> 0 \<and> allocated bs fs s n p bs' fs' s'"
proof -
  have sz: "unat (ALIGN_16 (n + overhead)) = sz" using malloc_rounding(1) [OF n] by (simp add: sz_def)
  then have small: "ALIGN_16 (n + overhead) \<le> block_size (ram s) b \<longleftrightarrow> \<not> bsize (ram s) b < sz" for b
    by (simp add: word_le_nat_alt not_less)
  show ?thesis
  proof (cases "\<forall>b \<in> set fs. bsize (ram s) b < sz")
    case True
    then show ?thesis using malloc_extend [OF rep n] small sz by (auto simp: not_less simp del: overhead_eq)
  next
    case False
    then obtain xs b ys where fs: "fs = xs @ b # ys" "\<not> bsize (ram s) b < sz"
      "\<forall>x \<in> set xs. bsize (ram s) x < sz" by (auto dest!: split_list_first_prop)
    then have "\<exists>p s' bs' fs'. malloc n s = Some (p, s') \<and> p \<noteq> 0 \<and> allocated bs fs s n p bs' fs' s'"
      using malloc_reuse [of bs xs b ys s n] rep n small by blast
    with False show ?thesis by auto
  qed
qed



text \<open>
  Property: freed memory is reused first: after \<^verbatim>\<open>free p\<close>, the next \<^verbatim>\<open>malloc\<close> whose rounded size
  fits into that block returns \<^verbatim>\<open>p\<close> again, and the live blocks are the same as before the release.
\<close>

theorem malloc_after_free:
  assumes rep: "heap_rep bs fs s" and p: "p - 16 \<in> live bs fs" and n: "malloc_size_ok n"
    and fits: "(unat n + 31) div 16 * 16 \<le> bsize (ram s) (p - 16)"
  shows "\<exists>s'. malloc n (free p s) = Some (p, s') \<and> heap_rep bs fs s' \<and>
    current_heap_address s' = current_heap_address s \<and> free_block_list_head_next s' = free_block_list_head_next s"
proof -
  have rel: "released bs fs s p ((p - 16) # fs) (free p s)" using rep p by (rule free_released)
  then have rep': "heap_rep bs ([] @ (p - 16) # fs) (free p s)" by (simp add: released_def)
  have size: "block_size (ram (free p s)) (p - 16) = block_size (ram s) (p - 16)"
    using rel p by (simp add: released_def live_def)
  have large: "ALIGN_16 (n + overhead) \<le> block_size (ram (free p s)) (p - 16)"
    unfolding size word_le_nat_alt malloc_rounding(1) [OF n] using fits .
  have nx: "block_next (ram (free p s)) (p - 16) = free_block_list_head_next s"
    by (simp add: free_def Let_def)
  let ?s = "set_link Free_Head (block_next (ram (free p s)) (p - 16)) (free p s)"
  have "malloc n (free p s) = Some (p, ?s)"
    using malloc_find_Some [of "free p s" "p - 16" "[]" "p - 16" fs _ Free_Head] rep' large
    by (simp add: malloc_def heap_rep_def Let_def)
  moreover have "heap_rep bs fs ?s" using heap_rep_unlink(1) [OF rep', of ?s] by simp
  ultimately show ?thesis by (auto simp: nx) (simp_all add: free_def Let_def)
qed

theorem malloc_after_free_witness:
  "\<exists>s s' :: heap_state. heap_rep [0x5000000] [] s \<and> malloc 16 (free 0x5000010 s) = Some (0x5000010, s')"
proof -
  let ?s = "heap0\<lparr>current_heap_address := 0x5000030, ram := store32 (\<lambda>_. 0) 0x5000004 0x30\<rparr>"
  have size: "block_size (ram ?s) 0x5000000 = 0x30"
    using block_fields_same(2) [of "\<lambda>_. 0" "0x5000000" "0x30"] by simp
  then have rep: "heap_rep [0x5000000] [] ?s"
    by (simp add: heap_rep_def heap0_def const_defs heap_end_eq)
  have "\<exists>s'. malloc 16 (free 0x5000010 ?s) = Some (0x5000010, s') \<and> heap_rep [0x5000000] [] s' \<and>
    current_heap_address s' = current_heap_address ?s \<and>
    free_block_list_head_next s' = free_block_list_head_next ?s"
    using size by (intro malloc_after_free [OF rep]) (simp_all add: live_def malloc_size_ok_def)
  with rep show ?thesis by blast
qed

text \<open>
  Property C40: the bound on the request is needed. \<^verbatim>\<open>malloc\<close> does not check that \<^verbatim>\<open>size + overhead\<close>
  stays below \<^verbatim>\<open>2^32\<close>: a request of \<^verbatim>\<open>0xFFFFFFF0\<close> bytes rounds to a block of size 0, succeeds without
  moving the program break, and the next allocation returns the same address.
\<close>

theorem malloc_size_overflow:
  assumes "heap_init s"
  shows "\<exists>s'. malloc 0xFFFFFFF0 s = Some (HEAP_START + 16, s') \<and>
    current_heap_address s' = HEAP_START \<and> (\<exists>s''. malloc 16 s' = Some (HEAP_START + 16, s''))"
  using assms
  by (simp add: heap_init_def malloc_def malloc_find.simps sbrk_def const_defs ALIGN_16_def ALIGN_def)

theorem malloc_size_overflow_witness:
  "heap_init heap0 \<and> (\<exists>s' s''. malloc 0xFFFFFFF0 heap0 = Some (HEAP_START + 16, s') \<and>
     malloc 16 s' = Some (HEAP_START + 16, s''))"
  using malloc_size_overflow [OF heap_init_heap0] heap_init_heap0 by blast

end
