(* ===== verification/Clock.thy ===== *)
theory Clock
  imports Heap
begin

text \<open>
  Time: the two hardware timers of the VersatilePB board (\<^verbatim>\<open>kernel/drivers/timer.c\<close> drives the
  scheduler's, \<^verbatim>\<open>kernel/time.c\<close> the clock's), the millisecond counter and its conversions and
  printed form.
\<close>

section \<open>State and registers\<close>

record time_state = heap_state +
  clock :: u64

text \<open>\<^verbatim>\<open>kernel/memory.h\<close>; the control and clear registers are accessed as \<^verbatim>\<open>char\<close>.\<close>

definition TIMER1_BASE :: addr where [const_defs]: "TIMER1_BASE = 0x101E2000"
definition TIMER3_BASE :: addr where [const_defs]: "TIMER3_BASE = 0x101E3000"

text \<open>\<^verbatim>\<open>kernel/time.h\<close>\<close>

definition TIMER_MILLIS_INTERVAL :: u32 where "TIMER_MILLIS_INTERVAL = 0x3e8"

text \<open>\<^verbatim>\<open>*reg &= x\<close> and \<^verbatim>\<open>*reg |= x\<close> on a volatile register: a read and a write.\<close>

definition rmw8 :: "device \<Rightarrow> addr \<Rightarrow> (u8 \<Rightarrow> u8) \<Rightarrow> 's io_state_scheme \<Rightarrow> 's io_state_scheme" where
  "rmw8 dev a f s = (let (v, s) = read8 dev a s in write8 a (f v) s)"

definition rmw32 :: "device \<Rightarrow> addr \<Rightarrow> (u32 \<Rightarrow> u32) \<Rightarrow> 's io_state_scheme \<Rightarrow> 's io_state_scheme" where
  "rmw32 dev a f s = (let (v, s) = read32 dev a s in write32 a (f v) s)"

text \<open>Operations that only add events to the bus history.\<close>

definition only_io :: "'s io_state_scheme \<Rightarrow> 's io_state_scheme \<Rightarrow> bool" where
  "only_io s s' \<longleftrightarrow> (\<exists>h. s' = s\<lparr>io := h @ io s\<rparr>)"

named_theorems only_io_intros \<open>operations that only add events to the bus history\<close>

lemma only_io_refl [only_io_intros]: "only_io s s"
  unfolding only_io_def by (rule exI [of _ "[]"]) simp

lemma only_io_bus_write [only_io_intros]: "only_io s t \<Longrightarrow> only_io s (bus_write w a v t)"
  by (auto simp: only_io_def bus_write_def intro: exI [of _ "_ # _"])

lemma only_io_bus_read [only_io_intros]: "only_io s t \<Longrightarrow> only_io s (snd (bus_read dev w a t))"
  by (auto simp: only_io_def bus_read_def Let_def intro: exI [of _ "_ # _"])

lemma only_io_write [only_io_intros]:
  "only_io s t \<Longrightarrow> only_io s (write8 a v8 t)" "only_io s t \<Longrightarrow> only_io s (write16 a v16 t)"
  "only_io s t \<Longrightarrow> only_io s (write32 a v32 t)" "only_io s t \<Longrightarrow> only_io s (write64 a v64 t)"
  by (simp_all add: write8_def write16_def write32_def write64_def only_io_bus_write)

lemma only_io_read [only_io_intros]:
  "only_io s t \<Longrightarrow> only_io s (snd (read8 dev a t))" "only_io s t \<Longrightarrow> only_io s (snd (read16 dev a t))"
  "only_io s t \<Longrightarrow> only_io s (snd (read32 dev a t))" "only_io s t \<Longrightarrow> only_io s (snd (read64 dev a t))"
  by (simp_all add: read8_def read16_def read32_def read64_def split_beta only_io_bus_read)

lemma only_io_rmw [only_io_intros]:
  "only_io s t \<Longrightarrow> only_io s (rmw8 dev a f8 t)" "only_io s t \<Longrightarrow> only_io s (rmw32 dev a f32 t)"
  by (simp_all add: rmw8_def rmw32_def split_beta only_io_intros)

section \<open>Starting and stopping a timer\<close>

text \<open>\<^verbatim>\<open>timer_start\<close> and \<^verbatim>\<open>clock_start\<close> are the same eight statements on TIMER1 and on TIMER3.\<close>

definition timer_program :: "device \<Rightarrow> addr \<Rightarrow> u32 \<Rightarrow> 's io_state_scheme \<Rightarrow> 's io_state_scheme" where
  "timer_program dev base period s =
     (let s = rmw8 dev (base + 0x08) (\<lambda>v. v AND NOT (push_bit 7 1)) s;
          s = rmw8 dev (base + 0x08) (\<lambda>v. v OR push_bit 6 1) s;
          s = write8 (base + 0x0C) 0x1 s;
          s = rmw8 dev (base + 0x08) (\<lambda>v. v OR push_bit 5 1) s;
          s = rmw8 dev (base + 0x08) (\<lambda>v. v OR push_bit 1 1) s;
          s = rmw8 dev (base + 0x08) (\<lambda>v. v AND NOT (push_bit 0 1)) s;
          s = write32 base period s
      in rmw8 dev (base + 0x08) (\<lambda>v. v OR push_bit 7 1) s)"

definition timer_disable :: "device \<Rightarrow> addr \<Rightarrow> 's io_state_scheme \<Rightarrow> 's io_state_scheme" where
  "timer_disable dev base s =
     (let s = rmw8 dev (base + 0x08) (\<lambda>v. v AND NOT (push_bit 7 1)) s
      in write8 (base + 0x0C) 0x1 s)"

definition timer_start :: "device \<Rightarrow> u32 \<Rightarrow> 's io_state_scheme \<Rightarrow> 's io_state_scheme" where
  "timer_start dev period s = timer_program dev TIMER1_BASE period s"

definition timer_stop :: "device \<Rightarrow> 's io_state_scheme \<Rightarrow> 's io_state_scheme" where
  "timer_stop dev s = timer_disable dev TIMER1_BASE s"

definition clock_start :: "device \<Rightarrow> u32 \<Rightarrow> 's io_state_scheme \<Rightarrow> 's io_state_scheme" where
  "clock_start dev period s = timer_program dev TIMER3_BASE period s"

definition clock_stop :: "device \<Rightarrow> 's io_state_scheme \<Rightarrow> 's io_state_scheme" where
  "clock_stop dev s = timer_disable dev TIMER3_BASE s"

definition time_init :: "device \<Rightarrow> 's io_state_scheme \<Rightarrow> 's io_state_scheme" where
  "time_init dev s = clock_start dev TIMER_MILLIS_INTERVAL (clock_stop dev s)"

section \<open>The clock\<close>

definition irq_handler_clock :: "'s time_state_scheme \<Rightarrow> 's time_state_scheme" where
  "irq_handler_clock s =
     (let s = s\<lparr>clock := clock s + 1\<rparr> in write8 (TIMER3_BASE + 0x0C) 1 s)"

definition clock_millis :: "'s time_state_scheme \<Rightarrow> u64" where
  "clock_millis s = clock s"

definition clock_seconds :: "'s time_state_scheme \<Rightarrow> u64" where
  "clock_seconds s = clock s div 1000"

definition clock_minutes :: "'s time_state_scheme \<Rightarrow> u64" where
  "clock_minutes s = clock s div (1000 * 60)"

definition clock_hours :: "'s time_state_scheme \<Rightarrow> u64" where
  "clock_hours s = clock s div (1000 * 60 * 60)"

definition INTTOCHAR :: "u64 \<Rightarrow> char" where
  "INTTOCHAR v = char_of (unat v + 48)"

text \<open>The C function writes into its string literal and returns it: every call overwrites the result of the call
  before. All digits are written each time, so that the string of a call does not depend on earlier ones.\<close>

definition clock_time_to_str :: "u64 \<Rightarrow> string" where
  "clock_time_to_str time =
     (let mils = time; secs = mils div 1000; mins = mils div 60000;
          format = ''mm:ss:lll'';
          format = format[0 := INTTOCHAR (mins div 10 mod 10)];
          format = format[1 := INTTOCHAR (mins mod 10)];
          format = format[3 := INTTOCHAR (secs div 10 mod 10)];
          format = format[4 := INTTOCHAR (secs mod 10)];
          format = format[6 := INTTOCHAR (mils div 100 mod 10)];
          format = format[7 := INTTOCHAR (mils div 10 mod 10)];
          format = format[8 := INTTOCHAR (mils mod 10)]
      in format)"

definition clock_formatted_msms :: "'s time_state_scheme \<Rightarrow> string" where
  "clock_formatted_msms s = clock_time_to_str (clock_millis s)"

section \<open>Conversions\<close>

lemma unat_clock_units:
  "unat (clock_seconds s) = unat (clock s) div 1000"
  "unat (clock_minutes s) = unat (clock s) div 60000"
  "unat (clock_hours s) = unat (clock s) div 3600000"
  by (simp_all add: clock_seconds_def clock_minutes_def clock_hours_def unat_div)

text \<open>The printed fields as the digits of the three counters; a decimal reading of a field.\<close>

definition digit_value :: "char \<Rightarrow> nat" where
  "digit_value c = of_char c - 48"

definition field_value :: "string \<Rightarrow> nat" where
  "field_value cs = foldl (\<lambda>n c. 10 * n + digit_value c) 0 cs"

lemma digit_value_INTTOCHAR: "unat v < 10 \<Longrightarrow> digit_value (INTTOCHAR v) = unat v"
  by (simp add: digit_value_def INTTOCHAR_def of_char_of)

text \<open>
  Property: the time string is always nine characters \<^verbatim>\<open>mm:ss:lll\<close>, and its fields read back as
  the minutes modulo 100, the seconds modulo 100 and the milliseconds modulo 1000.
\<close>

theorem clock_time_to_str_fields:
  "let str = clock_time_to_str t in
     length str = 9 \<and> str ! 2 = CHR '':'' \<and> str ! 5 = CHR '':'' \<and>
     field_value (take 2 str) = unat t div 60000 mod 100 \<and>
     field_value (take 2 (drop 3 str)) = unat t div 1000 mod 100 \<and>
     field_value (drop 6 str) = unat t mod 1000"
proof -
  have two: "10 * (n div 10 mod 10) + n mod 10 = n mod 100" for n :: nat
    using mod_mult2_eq [of n 10 10] by simp
  have three: "10 * (10 * (n div 100 mod 10) + n div 10 mod 10) + n mod 10 = n mod 1000" for n :: nat
    using mod_mult2_eq [of n 10 100] mod_mult2_eq [of "n div 10" 10 10] by (simp add: div_mult2_eq [symmetric])
  then have "100 * (n div 100 mod 10) + 10 * (n div 10 mod 10) + n mod 10 = n mod 1000" for n :: nat
    by (simp add: algebra_simps)
  with two show ?thesis
    by (simp add: clock_time_to_str_def Let_def field_value_def digit_value_INTTOCHAR unat_mod unat_div)
qed

text \<open>
  Property: below one minute the second field is the number of seconds; from one minute on it is
  not reduced modulo 60, so 61 seconds after the start of the system print as \<^verbatim>\<open>01:61:000\<close>.
\<close>

theorem clock_time_to_str_seconds_not_reduced: "clock_time_to_str 61000 = ''01:61:000''"
  by code_simp

section \<open>Programming a timer\<close>

text \<open>On a register file that keeps what is written, the accesses of \<^verbatim>\<open>timer_start\<close> as memory updates.\<close>

lemma ucast_load_byte: "(ucast (take_bit 8 (load_le m a (Suc 0) :: u64)) :: u8) = m a"
  by (rule word8_eqI) (simp add: bit_simps bit_load_le)

lemma mem_after_write8 [mem_simps]: "mem_after m (io (write8 a v s)) = (mem_after m (io s))(a := v)"
proof
  fix x
  show "mem_after m (io (write8 a v s)) x = ((mem_after m (io s))(a := v)) x"
    by (cases "x = a")
      (auto simp: write8_def bus_write_def store_le_def byte_of_def unat_eq_0 ucast_up_ucast_id is_up)
qed

lemma mem_after_write32 [mem_simps]:
  "mem_after m (io (write32 a v s)) = store_le (mem_after m (io s)) a 4 v"
  by (simp add: write32_def bus_write_def store_le_ucast)

lemma mem_after_rmw8 [mem_simps]:
  "mem_after m (io (rmw8 (ram_device m) a f s)) =
     (mem_after m (io s))(a := f (mem_after m (io s) a))"
proof -
  have "read8 (ram_device m) a s = (mem_after m (io s) a,
      s\<lparr>io := In 1 a (take_bit 8 (load_le (mem_after m (io s)) a (Suc 0))) # io s\<rparr>)"
    by (simp add: read8_def bus_read_def ram_device_def Let_def ucast_load_byte del: load_le.simps)
  then show ?thesis by (simp add: rmw8_def mem_after_write8)
qed

text \<open>
  Property: on a timer whose registers keep what is written, \<^verbatim>\<open>timer_start\<close> leaves the load
  register at the period and the control register enabled, periodic, with interrupts and 32-bit
  counting on and wrapping mode, its other two bits as they were; every other byte but the
  interrupt-clear register is unchanged.
\<close>

theorem timer_start_registers:
  fixes m :: mem and s :: "'s io_state_scheme" and period :: u32
  defines "r \<equiv> mem_after m (io s)" and "r' \<equiv> mem_after m (io (timer_start (ram_device m) period s))"
  shows "load32 r' TIMER1_BASE = period \<and>
    r' (TIMER1_BASE + 8) = (r (TIMER1_BASE + 8) AND 0x1C) OR 0xE2 \<and>
    (\<forall>x. \<not> in_range x TIMER1_BASE 4 \<and> x \<noteq> TIMER1_BASE + 8 \<and> x \<noteq> TIMER1_BASE + 12 \<longrightarrow> r' x = r x)"
proof -
  obtain q c where q: "r' = (store32 q TIMER1_BASE period)(TIMER1_BASE + 8 := c)"
    and c: "c = (r (TIMER1_BASE + 8) AND 0x1C) OR 0xE2"
    and frame: "\<And>x. x \<noteq> TIMER1_BASE + 8 \<Longrightarrow> x \<noteq> TIMER1_BASE + 12 \<Longrightarrow> q x = r x"
  proof
    let ?ctrl = "((((r (TIMER1_BASE + 8) AND NOT 0x80) OR 0x40) OR 0x20) OR 2) AND NOT 1 :: u8"
    let ?q = "r(TIMER1_BASE + 12 := 1, TIMER1_BASE + 8 := ?ctrl)"
    have "store32 q TIMER1_BASE period (TIMER1_BASE + 8) = q (TIMER1_BASE + 8)" for q
      by (simp add: store32_def store_le_def const_defs)
    then show "r' = (store32 ?q TIMER1_BASE period)(TIMER1_BASE + 8 := ?ctrl OR 0x80)"
      by (simp add: r'_def timer_start_def timer_program_def Let_def mem_simps flip: r_def store32_def)
    show "?ctrl OR 0x80 = (r (TIMER1_BASE + 8) AND 0x1C) OR 0xE2"
      by (rule word8_bitsI; (simp only: bit_and_iff bit_or_iff bit_not_iff)?; simp)
  qed auto
  have "load32 r' TIMER1_BASE = load32 (store32 q TIMER1_BASE period) TIMER1_BASE"
    unfolding q
    by (rule load32_cong) (auto simp: const_defs dest!: nat_less_4_cases)
  moreover have "r' x = r x" if "\<not> in_range x TIMER1_BASE 4" "x \<noteq> TIMER1_BASE + 8" "x \<noteq> TIMER1_BASE + 12" for x
    using that frame by (simp add: q store32_def store_le_other)
  ultimately show ?thesis using c by (simp add: load32_store32_same) (simp add: q)
qed


theorem timer_start_registers_witness:
  "load32 (mem_after (\<lambda>_. 0) (io (timer_start (ram_device (\<lambda>_. 0)) 0x2000 heap0))) TIMER1_BASE = 0x2000 \<and>
   mem_after (\<lambda>_. 0) (io (timer_start (ram_device (\<lambda>_. 0)) 0x2000 heap0)) TIMER3_BASE = 0"
  using timer_start_registers [of "\<lambda>_. 0" "0x2000" heap0]
  by (simp add: in_range_def const_defs heap0_def)

end
