(* ===== verification/Ring.thy ===== *)
theory Ring
  imports Prelude
begin

text \<open>
  Ring buffers. The scheduler and the network task keep a queue in an array with a start and an end
  index, one slot of which always stays unused. This theory has the index arithmetic they share, and
  the interface \<open>bounded_fifo\<close> both are interpreted as: a first-in first-out list that drops
  insertions once it is full.
\<close>

section \<open>Index arithmetic\<close>

text \<open>The elements between the indices, oldest first.\<close>

definition ring_length :: "nat \<Rightarrow> nat \<Rightarrow> nat \<Rightarrow> nat" where
  "ring_length n start fin = (fin + n - start) mod n"

definition ring_list :: "nat \<Rightarrow> 'a list \<Rightarrow> nat \<Rightarrow> nat \<Rightarrow> 'a list" where
  "ring_list n buf start fin = map (\<lambda>i. buf ! ((start + i) mod n)) [0..<ring_length n start fin]"

lemma length_ring_list [simp]: "length (ring_list n buf start fin) = ring_length n start fin"
  by (simp add: ring_list_def)

lemma ring_length_less: "0 < n \<Longrightarrow> ring_length n start fin < n"
  by (simp add: ring_length_def)

lemma ring_length_cases:
  "start < n \<Longrightarrow> fin < n \<Longrightarrow>
   ring_length n start fin = (if start \<le> fin then fin - start else fin + n - start)"
  by (auto simp: ring_length_def mod_if)

lemma ring_empty_iff: "start < n \<Longrightarrow> fin < n \<Longrightarrow> ring_length n start fin = 0 \<longleftrightarrow> start = fin"
  by (auto simp: ring_length_cases)

lemma ring_full_iff:
  assumes "start < n" "fin < n"
  shows "(fin + 1) mod n = start \<longleftrightarrow> ring_length n start fin = n - 1"
  using assms by (cases "fin + 1 = n") (auto simp: ring_length_cases)

lemma ring_length_put:
  assumes "start < n" "fin < n" "(fin + 1) mod n \<noteq> start"
  shows "ring_length n start ((fin + 1) mod n) = Suc (ring_length n start fin)"
  using assms by (cases "fin + 1 = n") (auto simp: ring_length_cases)

lemma ring_length_get:
  assumes "start < n" "fin < n" "start \<noteq> fin"
  shows "ring_length n start fin = Suc (ring_length n ((start + 1) mod n) fin)"
  using assms by (cases "start + 1 = n") (auto simp: ring_length_cases)

lemma ring_end_index: "start < n \<Longrightarrow> fin < n \<Longrightarrow> (start + ring_length n start fin) mod n = fin"
  by (auto simp: ring_length_cases)

lemma ring_index_inj:
  assumes "start < (n :: nat)" "i < n" "j < n" "(start + i) mod n = (start + j) mod n"
  shows "i = j"
proof -
  have "(start + k) mod n = (if start + k < n then start + k else start + k - n)" if "k < n" for k
    using assms(1) that by (simp add: mod_if)
  with assms show ?thesis by (auto split: if_splits)
qed

lemma ring_list_put:
  assumes "start < n" "fin < n" "length buf = n" "(fin + 1) mod n \<noteq> start"
  shows "ring_list n (buf[fin := x]) start ((fin + 1) mod n) = ring_list n buf start fin @ [x]"
proof -
  let ?k = "ring_length n start fin"
  have "?k < n" using assms by (intro ring_length_less) simp
  have "buf[fin := x] ! ((start + i) mod n) = buf ! ((start + i) mod n)" if "i < ?k" for i
  proof -
    have "(start + i) mod n \<noteq> fin"
      using ring_index_inj [of start n i ?k] ring_end_index [of start n fin] that assms \<open>?k < n\<close> by auto
    then show ?thesis by simp
  qed
  moreover have "buf[fin := x] ! ((start + ?k) mod n) = x"
    using ring_end_index [of start n fin] assms by simp
  ultimately show ?thesis unfolding ring_list_def ring_length_put [OF assms(1,2,4)] by simp
qed

lemma ring_list_get:
  assumes "start < n" "fin < n" "start \<noteq> fin"
  shows "ring_list n buf start fin = buf ! start # ring_list n buf ((start + 1) mod n) fin"
  using assms
  by (simp add: ring_list_def ring_length_get upt_conv_Cons mod_simps comp_def del: upt_Suc flip: map_Suc_upt)

text \<open>An insertion leaves every slot but the one at the end index alone, and that one is not in use.\<close>

lemma ring_list_cong:
  "(\<And>i. i < ring_length n start fin \<Longrightarrow> buf ! ((start + i) mod n) = buf' ! ((start + i) mod n)) \<Longrightarrow>
   ring_list n buf start fin = ring_list n buf' start fin"
  by (simp add: ring_list_def)

section \<open>Bounded queues\<close>

locale bounded_fifo =
  fixes put :: "'a \<Rightarrow> 'q \<Rightarrow> 'q"
    and get :: "'q \<Rightarrow> 'a option \<times> 'q"
    and queue :: "'q \<Rightarrow> 'b list"
    and view :: "'a \<Rightarrow> 'b"
    and ok :: "'q \<Rightarrow> bool"
    and valid :: "'a \<Rightarrow> bool"
    and capacity :: nat
  assumes ok_put: "ok q \<Longrightarrow> valid x \<Longrightarrow> ok (put x q)"
    and ok_get: "ok q \<Longrightarrow> ok (snd (get q))"
    and queue_put: "ok q \<Longrightarrow> valid x \<Longrightarrow> queue (put x q) =
      (if length (queue q) < capacity then queue q @ [view x] else queue q)"
    and get_empty: "ok q \<Longrightarrow> queue q = [] \<Longrightarrow> get q = (None, q)"
    and get_some: "ok q \<Longrightarrow> queue q \<noteq> [] \<Longrightarrow>
      \<exists>x. fst (get q) = Some x \<and> view x = hd (queue q) \<and> queue (snd (get q)) = tl (queue q)"
    and queue_bounded: "ok q \<Longrightarrow> length (queue q) \<le> capacity"
begin

lemma queue_put_all:
  "ok q \<Longrightarrow> list_all valid xs \<Longrightarrow>
   ok (fold put xs q) \<and> queue (fold put xs q) = queue q @ map view (take (capacity - length (queue q)) xs)"
proof (induction xs arbitrary: q)
  case Nil
  then show ?case by simp
next
  case (Cons x xs)
  then have IH: "ok (fold put xs (put x q))"
    "queue (fold put xs (put x q)) =
     queue (put x q) @ map view (take (capacity - length (queue (put x q))) xs)"
    using Cons.IH [of "put x q"] ok_put [of q x] by auto
  show ?case
  proof (cases "length (queue q) < capacity")
    case True
    with IH Cons.prems queue_put [of q x] show ?thesis by (simp add: take_Cons')
  next
    case False
    with IH Cons.prems queue_put [of q x] queue_bounded [of q] show ?thesis by simp
  qed
qed

text \<open>Taking everything out again: the oldest element first.\<close>

fun drain :: "nat \<Rightarrow> 'q \<Rightarrow> 'a option list \<times> 'q" where
  "drain 0 q = ([], q)"
| "drain (Suc n) q = (let (x, q') = get q; (xs, q'') = drain n q' in (x # xs, q''))"

lemma drain_queue:
  "ok q \<Longrightarrow> n \<le> length (queue q) \<Longrightarrow>
   map (map_option view) (fst (drain n q)) = map Some (take n (queue q)) \<and>
   queue (snd (drain n q)) = drop n (queue q) \<and> ok (snd (drain n q))"
proof (induction n arbitrary: q)
  case 0
  then show ?case by simp
next
  case (Suc n)
  then have "queue q \<noteq> []" by auto
  with Suc.prems obtain x where x: "fst (get q) = Some x" "view x = hd (queue q)"
    "queue (snd (get q)) = tl (queue q)" using get_some by blast
  have "ok (snd (get q))" using Suc.prems by (simp add: ok_get)
  with Suc.IH [of "snd (get q)"] Suc.prems x \<open>queue q \<noteq> []\<close> show ?case
    by (cases "queue q") (auto simp: split_beta Let_def)
qed

end

end
