(* ===== verification/Scheduler.thy ===== *)
theory Scheduler
  imports Clock Ring
begin

text \<open>
  Tasks and their scheduling: \<^verbatim>\<open>kernel/scheduler.c\<close>, the privilege test of \<^verbatim>\<open>kernel/utilities.c\<close>, the
  interrupt set-up of \<^verbatim>\<open>kernel/interrupt.c\<close> that \<^verbatim>\<open>start_scheduler\<close> runs, and the context switch of
  \<^verbatim>\<open>kernel/interrupt_handler.S\<close>. A \<^verbatim>\<open>task_t *\<close> is \<open>None\<close> for the null pointer and \<open>Some i\<close> for
  \<^verbatim>\<open>&tasks[i]\<close>.
\<close>

section \<open>State\<close>

record task_t =
  reg :: "u32 list"
  sp :: u32
  lr :: u32
  pc :: u32
  cpsr :: u32

type_synonym task_ptr = "nat option"

text \<open>
  The static variables of \<^verbatim>\<open>scheduler.c\<close>, with the user-visible registers of the processor
  (\<open>cpu\<close>, its \<open>cpsr\<close> the current program status register) and the banked stack pointer of IRQ mode.
\<close>

record sched_state = time_state +
  cpu :: task_t
  sp_irq :: u32
  task_count :: nat
  buffer_start :: nat
  buffer_end :: nat
  isRunning :: bool
  tasks :: "task_t list"
  ring_buffer :: "task_ptr list"
  current_task :: task_ptr

definition MAX_TASK_NUMBER :: nat where [simp]: "MAX_TASK_NUMBER = 16"
definition CPSR_MODE_SVC :: u32 where "CPSR_MODE_SVC = 0x13"
definition CPSR_MODE_USER :: u32 where "CPSR_MODE_USER = 0x10"
definition TIMER_LOAD_VALUE :: u32 where "TIMER_LOAD_VALUE = 0x2000"

text \<open>\<^verbatim>\<open>kernel/memory.h\<close> for the VersatilePB; \<^verbatim>\<open>libc/include/errno.h\<close>.\<close>

definition STACK_SIZE :: u32 where [const_defs]: "STACK_SIZE = 0x10000"
definition IRQ_STACK_ADDRESS :: u32 where [const_defs]: "IRQ_STACK_ADDRESS = 0x4000000"
definition SVC_STACK_ADDRESS :: u32 where [const_defs]: "SVC_STACK_ADDRESS = IRQ_STACK_ADDRESS - STACK_SIZE"
definition TASK_STACK_BASE_ADDRESS :: u32 where [const_defs]:
  "TASK_STACK_BASE_ADDRESS = SVC_STACK_ADDRESS - STACK_SIZE"
definition EPERMISSION :: u32 where "EPERMISSION = 1"
definition ETOOMANYTASKS :: u32 where "ETOOMANYTASKS = 2"

section \<open>kernel/utilities.c\<close>

definition get_operating_mode :: "'s sched_state_scheme \<Rightarrow> u32" where
  "get_operating_mode s = cpsr (cpu s) AND 0x1f"

definition is_privileged :: "'s sched_state_scheme \<Rightarrow> bool" where
  "is_privileged s \<longleftrightarrow> get_operating_mode s \<noteq> 0x10"

text \<open>The body of the test is empty: halting is not implemented.\<close>

definition halt_execution :: "'s sched_state_scheme \<Rightarrow> 's sched_state_scheme" where
  "halt_execution s = (if is_privileged s then s else s)"

section \<open>The ring of tasks\<close>

definition ring_buffer_insert :: "task_ptr \<Rightarrow> 's sched_state_scheme \<Rightarrow> 's sched_state_scheme" where
  "ring_buffer_insert task s =
     (let new_end = (buffer_end s + 1) mod MAX_TASK_NUMBER in
      if new_end \<noteq> buffer_start s
      then s\<lparr>ring_buffer := (ring_buffer s)[buffer_end s := task], buffer_end := new_end\<rparr>
      else s)"

definition ring_buffer_remove :: "'s sched_state_scheme \<Rightarrow> task_ptr \<times> 's sched_state_scheme" where
  "ring_buffer_remove s =
     (if buffer_start s = buffer_end s then (None, s)
      else (ring_buffer s ! buffer_start s,
            s\<lparr>buffer_start := (buffer_start s + 1) mod MAX_TASK_NUMBER\<rparr>))"

section \<open>Creating and switching tasks\<close>

definition init_task :: "u32 \<Rightarrow> u32 \<Rightarrow> task_t" where
  "init_task entrypoint stackbase =
     \<lparr>reg = map of_nat [0..<13], sp = stackbase, lr = 0, pc = entrypoint, cpsr = CPSR_MODE_USER\<rparr>"

definition add_task :: "u32 \<Rightarrow> 's sched_state_scheme \<Rightarrow> int \<times> 's sched_state_scheme" where
  "add_task entrypoint s =
     (if \<not> is_privileged s then (- 1, s\<lparr>errno := EPERMISSION\<rparr>)
      else if task_count s \<ge> MAX_TASK_NUMBER then (- 1, s\<lparr>errno := ETOOMANYTASKS\<rparr>)
      else
        (let stackbase = TASK_STACK_BASE_ADDRESS - STACK_SIZE * of_nat (task_count s);
             s = s\<lparr>tasks := (tasks s)[task_count s := init_task entrypoint stackbase]\<rparr>;
             s = ring_buffer_insert (Some (task_count s)) s
         in (0, s\<lparr>task_count := task_count s + 1\<rparr>)))"

definition schedule :: "'s sched_state_scheme \<Rightarrow> 's sched_state_scheme" where
  "schedule s =
     (let s = ring_buffer_insert (current_task s) s;
          (t, s) = ring_buffer_remove s
      in s\<lparr>current_task := t\<rparr>)"

section \<open>Interrupt set-up (kernel/interrupt.c) and the context switch (kernel/interrupt_handler.S)\<close>

definition PIC_BASE :: addr where [const_defs]: "PIC_BASE = 0x10140000"
definition SIC_BASE :: addr where [const_defs]: "SIC_BASE = 0x10003000"
definition TIMER1_INTBIT :: u32 where [const_defs]: "TIMER1_INTBIT = push_bit 4 1"
definition TIMER3_INTBIT :: u32 where [const_defs]: "TIMER3_INTBIT = push_bit 5 1"
definition PCI_INTBITS :: u32 where [const_defs]:
  "PCI_INTBITS = push_bit 27 1 OR push_bit 28 1 OR push_bit 29 1 OR push_bit 30 1"

text \<open>
  The interrupt vector table at address 0. The addresses the linker gives \<^verbatim>\<open>syscall_handler\<close> and
  \<^verbatim>\<open>irq_handler\<close> are parameters.
\<close>

definition setup_ivt :: "u32 \<Rightarrow> u32 \<Rightarrow> 's sched_state_scheme \<Rightarrow> 's sched_state_scheme" where
  "setup_ivt syscall_addr irq_addr s =
     s\<lparr>ram := fold (\<lambda>(a, v) m. store32 m a v)
       [(0x00, 0),
        (0x04, 0xe59ff014), (0x08, 0xe59ff014), (0x0c, 0xe59ff014), (0x10, 0xe59ff014),
        (0x14, 0xe59ff014), (0x18, 0xe59ff014), (0x1c, 0xe59ff014),
        (0x20, 0), (0x24, syscall_addr), (0x28, 0), (0x2c, 0), (0x30, 0), (0x34, irq_addr), (0x38, 0)]
       (ram s)\<rparr>"

text \<open>Enters IRQ mode, sets its stack pointer and goes (back) to SVC mode.\<close>

definition setup_irq_stack :: "'s sched_state_scheme \<Rightarrow> 's sched_state_scheme" where
  "setup_irq_stack s =
     s\<lparr>sp_irq := IRQ_STACK_ADDRESS,
       cpu := (cpu s)\<lparr>cpsr := (cpsr (cpu s) AND NOT 0x1f) OR 0x13\<rparr>\<rparr>"

definition init_timer_interrupt :: "device \<Rightarrow> 's io_state_scheme \<Rightarrow> 's io_state_scheme" where
  "init_timer_interrupt dev s =
     (let s = rmw32 dev (PIC_BASE + 0x10) (\<lambda>v. v OR TIMER1_INTBIT) s
      in rmw32 dev (PIC_BASE + 0x10) (\<lambda>v. v OR TIMER3_INTBIT) s)"

definition init_pci_interrupt :: "device \<Rightarrow> 's io_state_scheme \<Rightarrow> 's io_state_scheme" where
  "init_pci_interrupt dev s =
     (let s = rmw32 dev (PIC_BASE + 0x10) (\<lambda>v. v OR PCI_INTBITS) s;
          s = rmw32 dev (SIC_BASE + 0x08) (\<lambda>v. v OR PCI_INTBITS) s
      in rmw32 dev (SIC_BASE + 0x20) (\<lambda>v. v OR PCI_INTBITS) s)"

definition init_interrupt_controller :: "device \<Rightarrow> 's io_state_scheme \<Rightarrow> 's io_state_scheme" where
  "init_interrupt_controller dev s =
     (let s = rmw32 dev (PIC_BASE + 0x10) (\<lambda>v. v OR 2) s;
          s = init_timer_interrupt dev s
      in init_pci_interrupt dev s)"

definition enable_irq :: "'s sched_state_scheme \<Rightarrow> 's sched_state_scheme" where
  "enable_irq s = s\<lparr>cpu := (cpu s)\<lparr>cpsr := cpsr (cpu s) AND NOT 0x80\<rparr>\<rparr>"

definition init_interrupt_handling ::
  "device \<Rightarrow> u32 \<Rightarrow> u32 \<Rightarrow> 's sched_state_scheme \<Rightarrow> 's sched_state_scheme" where
  "init_interrupt_handling dev syscall_addr irq_addr s =
     (let s = setup_ivt syscall_addr irq_addr s;
          s = setup_irq_stack s;
          s = init_interrupt_controller dev s
      in enable_irq s)"

text \<open>
  \<^verbatim>\<open>save_current_task_state\<close> stores r0 to r12, the user-mode sp and lr, the interrupted pc (the IRQ
  link register less 4) and spsr; \<^verbatim>\<open>load_current_task_state\<close> loads them. Both dereference
  \<^verbatim>\<open>current_task\<close>: \<open>None\<close> is the null pointer dereferenced. On entry the processor has put the
  interrupted pc plus 4 into the link register and the interrupted cpsr into spsr.
\<close>

definition save_current_task_state ::
  "u32 \<Rightarrow> u32 \<Rightarrow> 's sched_state_scheme \<Rightarrow> 's sched_state_scheme option" where
  "save_current_task_state lr_irq spsr s =
     (case current_task s of
        None \<Rightarrow> None
      | Some i \<Rightarrow> Some (s\<lparr>tasks := (tasks s)[i :=
          \<lparr>reg = reg (cpu s), sp = sp (cpu s), lr = lr (cpu s), pc = lr_irq - 4, cpsr = spsr\<rparr>]\<rparr>))"

definition load_current_task_state :: "'s sched_state_scheme \<Rightarrow> 's sched_state_scheme option" where
  "load_current_task_state s =
     (case current_task s of None \<Rightarrow> None | Some i \<Rightarrow> Some (s\<lparr>cpu := tasks s ! i\<rparr>))"

definition irq_handler_timer :: "'s sched_state_scheme \<Rightarrow> 's sched_state_scheme" where
  "irq_handler_timer s = write32 (TIMER1_BASE + 0x0C) 1 (schedule s)"

text \<open>\<^verbatim>\<open>irq_handler\<close>: the handler in the middle is \<^verbatim>\<open>handle_interrupt\<close>.\<close>

definition irq_handler ::
  "('s sched_state_scheme \<Rightarrow> 's sched_state_scheme) \<Rightarrow> 's sched_state_scheme \<Rightarrow> 's sched_state_scheme option" where
  "irq_handler handle s =
     (case save_current_task_state (pc (cpu s) + 4) (cpsr (cpu s)) s of
        None \<Rightarrow> None
      | Some s \<Rightarrow> load_current_task_state (handle s))"

definition start_scheduler ::
  "device \<Rightarrow> u32 \<Rightarrow> u32 \<Rightarrow> 's sched_state_scheme \<Rightarrow> 's sched_state_scheme option" where
  "start_scheduler dev syscall_addr irq_addr s =
     (if \<not> isRunning s then
        (let (t, s) = ring_buffer_remove s;
             s = s\<lparr>current_task := t\<rparr>;
             s = s\<lparr>isRunning := True\<rparr>;
             s = timer_stop dev s;
             s = init_interrupt_handling dev syscall_addr irq_addr s;
             s = timer_start dev TIMER_LOAD_VALUE s
         in load_current_task_state s)
      else Some s)"

section \<open>The run queue as a bounded queue\<close>

definition run_queue :: "'s sched_state_scheme \<Rightarrow> task_ptr list" where
  "run_queue s = ring_list 16 (ring_buffer s) (buffer_start s) (buffer_end s)"

text \<open>The arrays have their declared sizes, the indices are in range, no null pointer is queued.\<close>

definition sched_ok :: "'s sched_state_scheme \<Rightarrow> bool" where
  "sched_ok s \<longleftrightarrow> length (ring_buffer s) = 16 \<and> length (tasks s) = 16 \<and>
     buffer_start s < 16 \<and> buffer_end s < 16 \<and> None \<notin> set (run_queue s)"

lemma ring_buffer_insert_queue:
  assumes "length (ring_buffer s) = 16" "buffer_start s < 16" "buffer_end s < 16"
  shows "run_queue (ring_buffer_insert t s) =
    (if length (run_queue s) < 15 then run_queue s @ [t] else run_queue s)"
proof -
  have "length (run_queue s) = 15 \<longleftrightarrow> (buffer_end s + 1) mod 16 = buffer_start s"
    using ring_full_iff [OF assms(2,3)] by (simp add: run_queue_def)
  moreover have "length (run_queue s) < 16"
    using ring_length_less [of 16 "buffer_start s" "buffer_end s"] by (simp add: run_queue_def)
  ultimately show ?thesis
    using ring_list_put [OF assms(2,3,1)] by (auto simp: ring_buffer_insert_def run_queue_def Let_def)
qed

lemma ring_buffer_remove_queue:
  assumes "buffer_start s < 16" "buffer_end s < 16"
  shows "ring_buffer_remove s = (None, s) \<and> run_queue s = [] \<or>
    run_queue s = fst (ring_buffer_remove s) # run_queue (snd (ring_buffer_remove s))"
  using ring_list_get [OF assms] ring_empty_iff [OF assms]
  by (auto simp: ring_buffer_remove_def run_queue_def simp flip: length_0_conv)

lemma ring_buffer_insert_fields [frame_simps]:
  "tasks (ring_buffer_insert t s) = tasks s" "task_count (ring_buffer_insert t s) = task_count s"
  "current_task (ring_buffer_insert t s) = current_task s" "cpu (ring_buffer_insert t s) = cpu s"
  "length (ring_buffer (ring_buffer_insert t s)) = length (ring_buffer s)"
  "buffer_start (ring_buffer_insert t s) = buffer_start s"
  by (simp_all add: ring_buffer_insert_def Let_def)

lemma ring_buffer_remove_fields [frame_simps]:
  "tasks (snd (ring_buffer_remove s)) = tasks s" "task_count (snd (ring_buffer_remove s)) = task_count s"
  "current_task (snd (ring_buffer_remove s)) = current_task s" "cpu (snd (ring_buffer_remove s)) = cpu s"
  "ring_buffer (snd (ring_buffer_remove s)) = ring_buffer s"
  "buffer_end (snd (ring_buffer_remove s)) = buffer_end s"
  by (simp_all add: ring_buffer_remove_def)

lemma ring_buffer_insert_end: "buffer_end s < 16 \<Longrightarrow> buffer_end (ring_buffer_insert t s) < 16"
  by (simp add: ring_buffer_insert_def Let_def)

lemma ring_buffer_remove_start: "buffer_start s < 16 \<Longrightarrow> buffer_start (snd (ring_buffer_remove s)) < 16"
  by (simp add: ring_buffer_remove_def)

lemma sched_ok_insert: "sched_ok s \<Longrightarrow> t \<noteq> None \<Longrightarrow> sched_ok (ring_buffer_insert t s)"
  by (auto simp: sched_ok_def frame_simps ring_buffer_insert_queue ring_buffer_insert_end)

lemma sched_ok_remove: "sched_ok s \<Longrightarrow> sched_ok (snd (ring_buffer_remove s))"
  using ring_buffer_remove_queue [of s]
  by (cases "run_queue s") (auto simp: sched_ok_def frame_simps ring_buffer_remove_start)

interpretation task_ring: bounded_fifo "\<lambda>i. ring_buffer_insert (Some i)" ring_buffer_remove run_queue
  Some sched_ok "\<lambda>i. i < 16" 15
proof
  fix q :: "'s sched_state_scheme" and x :: nat
  assume ok: "sched_ok q"
  then have idx: "buffer_start q < 16" "buffer_end q < 16" "length (ring_buffer q) = 16"
    by (simp_all add: sched_ok_def)
  show "sched_ok (ring_buffer_insert (Some x) q)" using ok by (simp add: sched_ok_insert)
  show "sched_ok (snd (ring_buffer_remove q))" using ok by (rule sched_ok_remove)
  show "run_queue (ring_buffer_insert (Some x) q) =
      (if length (run_queue q) < 15 then run_queue q @ [Some x] else run_queue q)"
    using idx by (intro ring_buffer_insert_queue)
  show "ring_buffer_remove q = (None, q)" if "run_queue q = []"
    using ring_buffer_remove_queue [OF idx(1,2)] that by auto
  show "\<exists>x. fst (ring_buffer_remove q) = Some x \<and> Some x = hd (run_queue q) \<and>
      run_queue (snd (ring_buffer_remove q)) = tl (run_queue q)" if "run_queue q \<noteq> []"
  proof -
    have "run_queue q = fst (ring_buffer_remove q) # run_queue (snd (ring_buffer_remove q))"
      using ring_buffer_remove_queue [OF idx(1,2)] that by auto
    moreover from this have "fst (ring_buffer_remove q) \<noteq> None"
      using ok unfolding sched_ok_def by (metis list.set_intros(1))
    ultimately show ?thesis by (metis list.sel(1,3) not_None_eq)
  qed
  show "length (run_queue q) \<le> 15"
    using ring_length_less [of 16 "buffer_start q" "buffer_end q"] by (simp add: run_queue_def)
qed

section \<open>The scheduler's invariant\<close>

text \<open>The running task followed by the queued ones.\<close>

definition active :: "'s sched_state_scheme \<Rightarrow> task_ptr list" where
  "active s = (case current_task s of None \<Rightarrow> [] | Some i \<Rightarrow> [Some i]) @ run_queue s"

definition sched_inv :: "'s sched_state_scheme \<Rightarrow> bool" where
  "sched_inv s \<longleftrightarrow> sched_ok s \<and> task_count s \<le> 16 \<and> distinct (active s) \<and>
     set (active s) \<subseteq> Some ` {..<task_count s}"

text \<open>The static initialisation of \<^verbatim>\<open>scheduler.c\<close>.\<close>

definition sched_init :: "'s sched_state_scheme \<Rightarrow> bool" where
  "sched_init s \<longleftrightarrow> task_count s = 0 \<and> buffer_start s = 0 \<and> buffer_end s = 0 \<and> \<not> isRunning s \<and>
     length (tasks s) = 16 \<and> ring_buffer s = replicate 16 None \<and> current_task s = None"

lemma sched_init_inv: "sched_init s \<Longrightarrow> sched_inv s \<and> active s = []"
  by (simp add: sched_init_def sched_inv_def sched_ok_def active_def run_queue_def ring_list_def ring_length_def)

lemma sched_inv_idx:
  "sched_inv s \<Longrightarrow> length (ring_buffer s) = 16 \<and> length (tasks s) = 16 \<and> buffer_start s < 16 \<and> buffer_end s < 16"
  by (simp add: sched_inv_def sched_ok_def)

lemma schedule_active:
  assumes "sched_inv s" "current_task s \<noteq> None" "length (active s) \<le> 15"
  shows "sched_inv (schedule s) \<and> active (schedule s) = rotate1 (active s) \<and> current_task (schedule s) \<noteq> None"
proof -
  obtain i where i: "current_task s = Some i" using assms(2) by blast
  let ?s = "ring_buffer_insert (Some i) s"
  let ?t = "snd (ring_buffer_remove ?s)"
  have ok: "sched_ok ?s" using assms(1) by (simp add: sched_inv_def sched_ok_insert)
  have q: "run_queue ?s = run_queue s @ [Some i]"
    using assms i task_ring.queue_put [of s i] by (auto simp: sched_inv_def active_def)
  then obtain x where x: "fst (ring_buffer_remove ?s) = Some x" "Some x = hd (run_queue ?s)"
    "run_queue ?t = tl (run_queue ?s)"
    using task_ring.get_some [OF ok] by auto
  have sch: "schedule s = ?t\<lparr>current_task := Some x\<rparr>"
    using x(1) by (simp add: schedule_def i split_beta Let_def)
  have rq: "run_queue (schedule s) = run_queue ?t" by (simp add: sch run_queue_def)
  have "active (schedule s) = run_queue ?s"
    unfolding active_def rq using q x(2,3) by (cases "run_queue s") (auto simp: sch simp flip: x(2))
  then have act: "active (schedule s) = rotate1 (active s)" by (simp add: q active_def i)
  have "sched_ok (schedule s)" using sched_ok_remove [OF ok] unfolding sched_ok_def rq by (simp add: sch)
  then have "sched_inv (schedule s)"
    using assms(1) act by (simp add: sched_inv_def sch frame_simps)
  with act show ?thesis by (simp add: sch)
qed

lemma schedule_frame [frame_simps]:
  "tasks (schedule s) = tasks s" "task_count (schedule s) = task_count s" "cpu (schedule s) = cpu s"
  by (simp_all add: schedule_def split_beta Let_def frame_simps)

lemma schedule_full:
  assumes "sched_inv s" "current_task s = Some i" "length (active s) = 16"
  shows "active (schedule s) = tl (active s) \<and> sched_inv (schedule s) \<and> current_task (schedule s) \<noteq> None"
proof -
  have ok: "sched_ok s" and full: "length (run_queue s) = 15" using assms by (simp_all add: sched_inv_def active_def)
  have idx: "length (ring_buffer s) = 16" "buffer_start s < 16" "buffer_end s < 16"
    using ok by (simp_all add: sched_ok_def)
  have same: "ring_buffer_insert (Some i) s = s"
    using ring_full_iff [OF idx(2,3)] full by (simp add: ring_buffer_insert_def run_queue_def)
  obtain x where x: "fst (ring_buffer_remove s) = Some x" "Some x = hd (run_queue s)"
    "run_queue (snd (ring_buffer_remove s)) = tl (run_queue s)"
    using task_ring.get_some [OF ok] full by (cases "run_queue s") auto
  have "run_queue (schedule s) = tl (run_queue s)" "current_task (schedule s) = Some x"
    using x by (simp_all add: schedule_def assms(2) same split_beta Let_def run_queue_def)
  moreover have "run_queue s = Some x # tl (run_queue s)" using x(2) full by (cases "run_queue s") auto
  ultimately have act: "active (schedule s) = tl (active s)" by (simp add: active_def assms(2))
  have sch: "schedule s = (snd (ring_buffer_remove s))\<lparr>current_task := Some x\<rparr>"
    using x(1) by (simp add: schedule_def assms(2) same split_beta Let_def)
  have rq: "run_queue (schedule s) = run_queue (snd (ring_buffer_remove s))" by (simp add: sch run_queue_def)
  have "sched_ok (schedule s)" using sched_ok_remove [OF ok] unfolding sched_ok_def rq by (simp add: sch)
  moreover have "distinct (tl (active s))" "set (tl (active s)) \<subseteq> set (active s)"
    using assms(1) by (cases "active s"; auto simp: sched_inv_def)+
  ultimately have "sched_inv (schedule s)" using assms(1) act by (auto simp: sched_inv_def sch frame_simps)
  then show ?thesis using act by (simp add: sch)
qed

lemma schedule_keeps:
  assumes "sched_inv s" "current_task s \<noteq> None"
  shows "sched_inv (schedule s) \<and> current_task (schedule s) \<noteq> None"
proof -
  have "length (run_queue s) < 16"
    using ring_length_less [of 16 "buffer_start s" "buffer_end s"] by (simp add: run_queue_def)
  then have "length (active s) \<le> 16" using assms(2) by (auto simp: active_def split: option.splits)
  then consider "length (active s) \<le> 15" | "length (active s) = 16" by linarith
  then show ?thesis
    using schedule_active [OF assms] schedule_full [OF assms(1)] assms(2) by cases auto
qed

lemma hd_active: "current_task s \<noteq> None \<Longrightarrow> hd (active s) = current_task s"
  by (auto simp: active_def)


lemma schedule_active_iter:
  assumes "sched_inv s" "current_task s \<noteq> None" "length (active s) \<le> 15"
  shows "sched_inv ((schedule ^^ k) s) \<and> active ((schedule ^^ k) s) = rotate k (active s) \<and>
    current_task ((schedule ^^ k) s) \<noteq> None"
proof (induction k)
  case 0
  with assms show ?case by simp
next
  case (Suc k)
  then show ?case using schedule_active [of "(schedule ^^ k) s"] assms(3) by (simp add: rotate_Suc)
qed

lemma add_task_result:
  assumes "sched_inv s" "is_privileged s" "task_count s < 16"
  shows "fst (add_task entry s) = 0 \<and> sched_inv (snd (add_task entry s)) \<and>
    active (snd (add_task entry s)) = (if length (run_queue s) < 15 then active s @ [Some (task_count s)] else active s) \<and>
    task_count (snd (add_task entry s)) = task_count s + 1 \<and>
    tasks (snd (add_task entry s)) = (tasks s)[task_count s := init_task entry
      (TASK_STACK_BASE_ADDRESS - STACK_SIZE * of_nat (task_count s))] \<and>
    current_task (snd (add_task entry s)) = current_task s \<and> cpu (snd (add_task entry s)) = cpu s"
proof -
  let ?n = "task_count s"
  let ?t = "s\<lparr>tasks := (tasks s)[?n := init_task entry (TASK_STACK_BASE_ADDRESS - STACK_SIZE * of_nat ?n)]\<rparr>"
  let ?u = "ring_buffer_insert (Some ?n) ?t"
  have res: "add_task entry s = (0, ?u\<lparr>task_count := ?n + 1\<rparr>)"
    using assms by (simp add: add_task_def Let_def frame_simps)
  have t: "sched_ok ?t" "run_queue ?t = run_queue s"
    using assms(1) by (simp_all add: sched_inv_def sched_ok_def run_queue_def)
  have u: "sched_ok ?u" "run_queue ?u = (if length (run_queue s) < 15 then run_queue s @ [Some ?n] else run_queue s)"
    using t assms(3) task_ring.queue_put [of ?t ?n] by (simp_all add: sched_ok_insert)
  have rq: "run_queue (?u\<lparr>task_count := ?n + 1\<rparr>) = run_queue ?u" by (simp add: run_queue_def)
  have act: "active (snd (add_task entry s)) =
    (if length (run_queue s) < 15 then active s @ [Some ?n] else active s)"
    unfolding res active_def snd_conv rq by (simp add: u(2) frame_simps split: option.split)
  have "sched_ok (snd (add_task entry s))"
    using u(1) unfolding res snd_conv sched_ok_def rq by simp
  moreover have "Some ?n \<notin> set (active s)" using assms(1) by (auto simp: sched_inv_def)
  ultimately have "sched_inv (snd (add_task entry s))"
    using assms(1,3) act unfolding sched_inv_def
    by (auto simp: res lessThan_Suc)
  then show ?thesis using act by (simp add: res frame_simps)
qed

section \<open>Context switches\<close>

text \<open>
  What the tasks see: each task has a processor of its own. The context of the running task is in the
  registers, that of every other one in its \<^verbatim>\<open>task_t\<close>.
\<close>

definition contexts :: "'s sched_state_scheme \<Rightarrow> nat \<Rightarrow> task_t" where
  "contexts s i = (if current_task s = Some i then cpu s else tasks s ! i)"

text \<open>The scheduler runs: some task is current, and the ring has room for it.\<close>

definition running :: "'s sched_state_scheme \<Rightarrow> bool" where
  "running s \<longleftrightarrow> sched_inv s \<and> current_task s \<noteq> None \<and> length (active s) \<le> 15"

text \<open>The registers, the memory, the bus, the clock and the saved contexts do not matter for the queue.\<close>

lemma active_frame [frame_simps]:
  "active (s\<lparr>cpu := c\<rparr>) = active s" "active (s\<lparr>ram := m\<rparr>) = active s" "active (s\<lparr>io := h\<rparr>) = active s"
  "active (s\<lparr>clock := k\<rparr>) = active s" "active (s\<lparr>tasks := ts\<rparr>) = active s"
  by (simp_all add: active_def run_queue_def)

lemma running_frame [frame_simps]:
  "running (s\<lparr>cpu := c\<rparr>) = running s" "running (s\<lparr>ram := m\<rparr>) = running s" "running (s\<lparr>io := h\<rparr>) = running s"
  "running (s\<lparr>clock := k\<rparr>) = running s"
  "length ts = length (tasks s) \<Longrightarrow> running (s\<lparr>tasks := ts\<rparr>) = running s"
  by (simp_all add: running_def sched_inv_def sched_ok_def active_def run_queue_def)

text \<open>An interrupt handler that leaves the task data alone but may switch tasks.\<close>

lemma irq_handler_contexts:
  assumes run: "running s"
    and h: "\<And>t. running t \<Longrightarrow> running (handle t) \<and> tasks (handle t) = tasks t"
  shows "\<exists>s'. irq_handler handle s = Some s' \<and> running s' \<and>
    (\<exists>t. running t \<and> active t = active s \<and> active s' = active (handle t)) \<and>
    (\<forall>i < 16. contexts s' i = contexts s i)"
proof -
  obtain i where i: "current_task s = Some i" using run by (auto simp: running_def)
  let ?t = "s\<lparr>tasks := (tasks s)[i := cpu s]\<rparr>"
  have save: "save_current_task_state (pc (cpu s) + 4) (cpsr (cpu s)) s = Some ?t"
    by (cases "cpu s") (simp add: save_current_task_state_def i)
  have t: "running ?t" "active ?t = active s" using run by (simp_all add: frame_simps)
  obtain j where j: "current_task (handle ?t) = Some j" using h [OF t(1)] by (auto simp: running_def)
  let ?s = "(handle ?t)\<lparr>cpu := tasks (handle ?t) ! j\<rparr>"
  have "irq_handler handle s = Some ?s"
    by (simp add: irq_handler_def save load_current_task_state_def j)
  moreover have s': "running ?s" "active ?s = active (handle ?t)"
    using h [OF t(1)] by (simp_all add: frame_simps)
  moreover have "contexts ?s k = contexts s k" if "k < 16" for k
  proof -
    have "length (tasks s) = 16" using run by (simp add: running_def sched_inv_def sched_ok_def)
    then show ?thesis using that conjunct2 [OF h [OF t(1)]] i j
      by (cases "i = k") (auto simp: contexts_def nth_list_update)
  qed
  ultimately show ?thesis using t by blast
qed

lemma irq_handler_timer_running:
  "running t \<Longrightarrow> running (irq_handler_timer t) \<and> tasks (irq_handler_timer t) = tasks t \<and>
   active (irq_handler_timer t) = rotate1 (active t)"
proof -
  assume "running t"
  then have "running (schedule t)" "active (schedule t) = rotate1 (active t)"
    using schedule_active [of t] by (simp_all add: running_def)
  then show ?thesis by (simp add: irq_handler_timer_def mmio_defs frame_simps)
qed

lemma irq_handler_clock_running:
  "running t \<Longrightarrow> running (irq_handler_clock t) \<and> tasks (irq_handler_clock t) = tasks t \<and>
   active (irq_handler_clock t) = active t"
  by (simp add: irq_handler_clock_def mmio_defs frame_simps Let_def)

text \<open>
  The machine while the scheduler runs: the current task executes an instruction, which may change the
  registers and the memory, or one of the two timers interrupts it.
\<close>

inductive machine_step :: "'s sched_state_scheme \<Rightarrow> 's sched_state_scheme \<Rightarrow> bool" where
  instruction: "machine_step s (s\<lparr>cpu := c, ram := m\<rparr>)"
| scheduler_tick: "irq_handler irq_handler_timer s = Some s' \<Longrightarrow> machine_step s s'"
| clock_tick: "irq_handler irq_handler_clock s = Some s' \<Longrightarrow> machine_step s s'"

text \<open>The specification: a family of independent processors, of which the first in the list runs.\<close>

inductive virtual_step :: "task_ptr list \<times> (nat \<Rightarrow> task_t) \<Rightarrow> task_ptr list \<times> (nat \<Rightarrow> task_t) \<Rightarrow> bool" where
  execute: "virtual_step (Some i # ts, cs) (Some i # ts, cs(i := c))"
| switch: "virtual_step (ts, cs) (rotate1 ts, cs)"
| stutter: "virtual_step (ts, cs) (ts, cs)"

definition view :: "'s sched_state_scheme \<Rightarrow> task_ptr list \<times> (nat \<Rightarrow> task_t)" where
  "view s = (active s, \<lambda>i. if i < 16 then contexts s i else undefined)"

lemma running_current:
  "running s \<Longrightarrow> \<exists>i < 16. current_task s = Some i \<and> active s = Some i # run_queue s"
  by (auto simp: running_def sched_inv_def active_def)

lemma machine_step_refines:
  assumes "running s" "machine_step s s'"
  shows "running s' \<and> virtual_step (view s) (view s')"
  using assms(2)
proof (cases rule: machine_step.cases)
  case (instruction m c)
  obtain i where i: "i < 16" "current_task s = Some i" "active s = Some i # run_queue s"
    using running_current [OF assms(1)] by blast
  have same: "running s'" "active s' = active s"
    using assms(1) instruction by (simp_all add: frame_simps)
  have "view s' = (Some i # run_queue s, (snd (view s))(i := c))"
    using i same instruction by (auto simp: view_def contexts_def fun_eq_iff)
  moreover have "view s = (Some i # run_queue s, snd (view s))" using i by (simp add: view_def)
  ultimately show ?thesis using same execute by metis
next
  case scheduler_tick
  from irq_handler_contexts [OF assms(1), of irq_handler_timer] irq_handler_timer_running scheduler_tick
  have "running s'" "active s' = rotate1 (active s)" "\<forall>i < 16. contexts s' i = contexts s i"
    by fastforce+
  then show ?thesis using switch [of "active s" "snd (view s)"] by (simp add: view_def cong: if_cong)
next
  case clock_tick
  from irq_handler_contexts [OF assms(1), of irq_handler_clock] irq_handler_clock_running clock_tick
  have "running s'" "active s' = active s" "\<forall>i < 16. contexts s' i = contexts s i"
    by fastforce+
  then show ?thesis using stutter [of "active s" "snd (view s)"] by (simp add: view_def cong: if_cong)
qed


text \<open>
  The interrupt entry never dereferences a null pointer while the scheduler runs, and both
  timers keep every task's context.
\<close>

theorem irq_handler_returns:
  assumes "running s"
  shows "(\<exists>s'. irq_handler irq_handler_timer s = Some s' \<and> active s' = rotate1 (active s) \<and>
      (\<forall>i < 16. contexts s' i = contexts s i)) \<and>
    (\<exists>s'. irq_handler irq_handler_clock s = Some s' \<and> active s' = active s \<and> clock s' = clock s + 1 \<and>
      (\<forall>i < 16. contexts s' i = contexts s i))"
proof (intro conjI)
  from irq_handler_contexts [OF assms, of irq_handler_timer] irq_handler_timer_running
  show "\<exists>s'. irq_handler irq_handler_timer s = Some s' \<and> active s' = rotate1 (active s) \<and>
      (\<forall>i < 16. contexts s' i = contexts s i)" by fastforce
  from irq_handler_contexts [OF assms, of irq_handler_clock] irq_handler_clock_running
  obtain s' where s': "irq_handler irq_handler_clock s = Some s'" "active s' = active s"
    "\<forall>i < 16. contexts s' i = contexts s i" by fastforce
  moreover from s'(1) have "clock s' = clock s + 1"
    by (auto simp: irq_handler_def save_current_task_state_def load_current_task_state_def irq_handler_clock_def
        mmio_defs Let_def split: option.splits)
  ultimately show "\<exists>s'. irq_handler irq_handler_clock s = Some s' \<and> active s' = active s \<and>
      clock s' = clock s + 1 \<and> (\<forall>i < 16. contexts s' i = contexts s i)" by blast
qed

text \<open>
  Property C12: round robin. With at most fifteen active tasks, the \<open>k\<close>-th call of \<^verbatim>\<open>schedule\<close> makes the
  task at position \<open>k\<close> modulo their number current, so in every window of that many calls each active
  task is current exactly once, and the invariant holds throughout.
\<close>

theorem schedule_round_robin:
  assumes "sched_inv s" "current_task s \<noteq> None" "length (active s) \<le> 15"
  shows "current_task ((schedule ^^ k) s) = active s ! (k mod length (active s)) \<and>
    sched_inv ((schedule ^^ k) s) \<and>
    (\<forall>i \<in> set (active s). \<exists>!j. j < length (active s) \<and> current_task ((schedule ^^ (k + j)) s) = i)"
proof -
  let ?a = "active s"
  have ne: "?a \<noteq> []" using assms(2) by (auto simp: active_def)
  have cur: "current_task ((schedule ^^ n) s) = ?a ! (n mod length ?a)" for n
    using schedule_active_iter [OF assms, of n] hd_active [of "(schedule ^^ n) s"] ne
    by (simp add: hd_rotate_conv_nth)
  have win: "current_task ((schedule ^^ (k + j)) s) = rotate k ?a ! j" if "j < length ?a" for j
    using cur [of "k + j"] nth_rotate [OF that, of k] by simp
  have "\<exists>!j. j < length ?a \<and> rotate k ?a ! j = i" if "i \<in> set ?a" for i
    using distinct_Ex1 [of "rotate k ?a" i] assms(1) that by (simp add: sched_inv_def)
  then have "\<exists>!j. j < length ?a \<and> current_task ((schedule ^^ (k + j)) s) = i" if "i \<in> set ?a" for i
    using that win by (metis (no_types, lifting))
  then show ?thesis using cur schedule_active_iter [OF assms, of k] by blast
qed


section \<open>Concrete schedulers\<close>

definition sched0 :: sched_state where
  "sched0 = \<lparr>console = [], io = [], errno = 0, ram = (\<lambda>_. 0), current_heap_address = HEAP_START,
     free_block_list_head_next = 0, clock = 0, cpu = init_task 0 0\<lparr>cpsr := CPSR_MODE_SVC\<rparr>, sp_irq = 0,
     task_count = 0, buffer_start = 0, buffer_end = 0, isRunning = False,
     tasks = replicate 16 (init_task 0 0), ring_buffer = replicate 16 None, current_task = None\<rparr>"

text \<open>Adding tasks from a list of entry points.\<close>

definition add_tasks :: "u32 list \<Rightarrow> 's sched_state_scheme \<Rightarrow> 's sched_state_scheme" where
  "add_tasks entries s = fold (\<lambda>e s. snd (add_task e s)) entries s"

definition sched3 :: sched_state where
  "sched3 = (let (t, s) = ring_buffer_remove (add_tasks [0x100, 0x200, 0x300] sched0) in s\<lparr>current_task := t\<rparr>)"

lemma sched_init_sched0: "sched_init sched0"
  by (simp add: sched_init_def sched0_def)

lemma active_sched3: "active sched3 = [Some 0, Some 1, Some 2]"
  by (simp add: sched3_def sched0_def add_tasks_def add_task_def is_privileged_def get_operating_mode_def
      CPSR_MODE_SVC_def ring_buffer_insert_def ring_buffer_remove_def active_def run_queue_def
      ring_list_def ring_length_def init_task_def Let_def upt_rec)

lemma running_sched3: "running sched3"
proof -
  have "task_count sched3 = 3" "length (ring_buffer sched3) = 16" "length (tasks sched3) = 16"
    "buffer_start sched3 = 1" "buffer_end sched3 = 3" "current_task sched3 = Some 0"
    by (simp_all add: sched3_def sched0_def add_tasks_def add_task_def is_privileged_def get_operating_mode_def
      CPSR_MODE_SVC_def ring_buffer_insert_def ring_buffer_remove_def init_task_def Let_def)
  moreover from this(6) have "run_queue sched3 = [Some 1, Some 2]" using active_sched3 by (simp add: active_def)
  ultimately show ?thesis
    by (auto simp: running_def sched_inv_def sched_ok_def active_sched3)
qed


theorem irq_handler_returns_witness:
  "running sched3 \<and> (\<exists>s'. irq_handler irq_handler_timer sched3 = Some s' \<and> active s' = [Some 1, Some 2, Some 0])"
  using irq_handler_returns [OF running_sched3] running_sched3 by (auto simp: active_sched3)

theorem schedule_round_robin_witness:
  "sched_inv sched3 \<and> current_task ((schedule ^^ 4) sched3) = Some 1"
  using schedule_round_robin [of sched3 4] running_sched3 by (simp add: running_def active_sched3)

section \<open>Creating tasks\<close>

text \<open>
  Property C26: every outcome of \<^verbatim>\<open>add_task\<close>: from user mode and beyond sixteen tasks it returns -1 with
  the matching \<^verbatim>\<open>errno\<close> and changes nothing else; otherwise it returns 0, the new task is initialised
  for user mode at its entry point with a stack pointer of its own, and joins the end of the queue
  unless the queue already holds fifteen tasks. The invariant holds in each case.
\<close>

theorem add_task_outcomes:
  assumes "sched_inv s"
  shows "if \<not> is_privileged s then add_task entry s = (- 1, s\<lparr>errno := EPERMISSION\<rparr>)
    else if 16 \<le> task_count s then add_task entry s = (- 1, s\<lparr>errno := ETOOMANYTASKS\<rparr>)
    else fst (add_task entry s) = 0 \<and> sched_inv (snd (add_task entry s)) \<and>
      tasks (snd (add_task entry s)) ! task_count s =
        \<lparr>reg = [0, 1, 2, 3, 4, 5, 6, 7, 8, 9, 10, 11, 12], sp = 0x3FE0000 - 0x10000 * of_nat (task_count s),
         lr = 0, pc = entry, cpsr = 0x10\<rparr> \<and>
      active (snd (add_task entry s)) =
        (if length (run_queue s) < 15 then active s @ [Some (task_count s)] else active s)"
proof -
  have len: "length (tasks s) = 16" using assms by (simp add: sched_inv_def sched_ok_def)
  show ?thesis
  proof (cases "is_privileged s \<and> task_count s < 16")
    case True
    with add_task_result [OF assms, of entry] len show ?thesis
      by (simp add: init_task_def CPSR_MODE_USER_def upt_rec const_defs)
  next
    case False
    then show ?thesis by (auto simp: add_task_def)
  qed
qed

theorem add_task_outcomes_witness:
  "sched_inv sched0 \<and> is_privileged sched0 \<and> fst (add_task 0x100 sched0) = 0 \<and>
   active (snd (add_task 0x100 sched0)) = [Some 0]"
  using add_task_outcomes [of sched0 "0x100"] sched_init_inv [OF sched_init_sched0]
  by (simp add: is_privileged_def get_operating_mode_def sched0_def CPSR_MODE_SVC_def run_queue_def
      ring_list_def ring_length_def split: if_splits)

text \<open>The stack of task \<open>i\<close>: 64 KiB below its initial stack pointer.\<close>

definition stack_low :: "nat \<Rightarrow> addr" where
  "stack_low i = TASK_STACK_BASE_ADDRESS - STACK_SIZE * of_nat i - STACK_SIZE"

lemma unat_stack_low: "i < 16 \<Longrightarrow> unat (stack_low i) = 0x3FD0000 - 0x10000 * i"
proof -
  assume "i < 16"
  then have "stack_low i = of_nat (0x3FD0000 - 0x10000 * i)"
    by (simp add: stack_low_def const_defs of_nat_diff)
  then show ?thesis by (simp add: unat_of_nat take_bit_nat_eq_self del: of_nat_diff of_nat_mult)
qed

text \<open>
  Property: the stacks of different tasks are disjoint, and no task's stack reaches the heap, the
  supervisor stack or the interrupt vector table.
\<close>

theorem task_stacks_disjoint:
  assumes "i < MAX_TASK_NUMBER" "j < MAX_TASK_NUMBER" "i \<noteq> j"
  shows "disjoint_ranges (stack_low i) 0x10000 (stack_low j) 0x10000 \<and>
    disjoint_ranges (stack_low i) 0x10000 HEAP_START (unat HEAP_SIZE) \<and>
    unat (stack_low i) + 0x10000 \<le> unat SVC_STACK_ADDRESS - 0x10000 \<and> 0x3c \<le> unat (stack_low i)"
proof -
  have "i < j \<or> j < i" using assms(3) by linarith
  with assms show ?thesis
    by (auto simp: unat_stack_low const_defs intro!: disjoint_rangesI)
qed

theorem task_stacks_disjoint_witness:
  "disjoint_ranges (stack_low 0) 0x10000 (stack_low 15) 0x10000"
  using task_stacks_disjoint [of 0 15] by simp

text \<open>
  Property: sixteen successful calls of \<^verbatim>\<open>add_task\<close> do not give sixteen runnable tasks. The ring has
  sixteen slots of which one stays empty, so the sixteenth task is counted and initialised, the call
  returns 0, and the task is not queued.
\<close>

theorem sixteenth_task_dropped:
  assumes "sched_init s" "is_privileged s"
  shows "let s' = add_tasks (replicate 15 entry) s in
    fst (add_task entry s') = 0 \<and> task_count (snd (add_task entry s')) = 16 \<and>
    active (snd (add_task entry s')) = map Some [0..<15]"
proof -
  have *: "sched_inv (add_tasks (replicate n entry) s) \<and> is_privileged (add_tasks (replicate n entry) s) \<and>
    task_count (add_tasks (replicate n entry) s) = n \<and> current_task (add_tasks (replicate n entry) s) = None \<and>
    active (add_tasks (replicate n entry) s) = map Some [0..<n]" if "n \<le> 15" for n
    using that
  proof (induction n)
    case 0
    with sched_init_inv [OF assms(1)] assms show ?case by (simp add: add_tasks_def sched_init_def)
  next
    case (Suc n)
    let ?t = "add_tasks (replicate n entry) s"
    have t: "add_tasks (replicate (Suc n) entry) s = snd (add_task entry ?t)"
      by (simp add: add_tasks_def replicate_append_same [symmetric] del: replicate_Suc)
    have "length (run_queue ?t) < 15" using Suc by (auto simp: active_def split: option.splits)
    with Suc add_task_result [of ?t entry] show ?case
      unfolding t by (simp add: is_privileged_def get_operating_mode_def)
  qed
  let ?t = "add_tasks (replicate 15 entry) s"
  have "length (run_queue ?t) = 15" using * [of 15] by (auto simp: active_def)
  with * [of 15] add_task_result [of ?t entry] show ?thesis by (simp add: Let_def)
qed

theorem sixteenth_task_dropped_witness:
  "task_count (snd (add_task 0x100 (add_tasks (replicate 15 0x100) sched0))) = 16 \<and>
   active (snd (add_task 0x100 (add_tasks (replicate 15 0x100) sched0))) = map Some [0..<15]"
proof -
  have "is_privileged sched0" by (simp add: is_privileged_def get_operating_mode_def sched0_def CPSR_MODE_SVC_def)
  with sixteenth_task_dropped [OF sched_init_sched0, of "0x100"] show ?thesis by (simp add: Let_def)
qed


section \<open>Starting the scheduler\<close>

lemma only_io_timer [only_io_intros]:
  "only_io s t \<Longrightarrow> only_io s (timer_stop dev t)" "only_io s t \<Longrightarrow> only_io s (timer_start dev p t)"
  "only_io s t \<Longrightarrow> only_io s (init_interrupt_controller dev t)"
  by (simp_all add: timer_stop_def timer_start_def timer_program_def timer_disable_def
      init_interrupt_controller_def init_timer_interrupt_def init_pci_interrupt_def Let_def only_io_intros)

lemma store32_ivt: "\<not> in_range x a 4 \<Longrightarrow> store32 m a v x = m x"
  by (simp add: store32_def store_le_other)

text \<open>\<^verbatim>\<open>setup_ivt\<close> writes the first 0x3c bytes of memory and nothing else.\<close>

lemma setup_ivt_ram:
  "load32 (ram (setup_ivt sys irq s)) 0x24 = sys \<and> load32 (ram (setup_ivt sys irq s)) 0x34 = irq \<and>
   load32 (ram (setup_ivt sys irq s)) 0x08 = 0xe59ff014 \<and> load32 (ram (setup_ivt sys irq s)) 0x18 = 0xe59ff014 \<and>
   (\<forall>x. 0x3c \<le> unat x \<longrightarrow> ram (setup_ivt sys irq s) x = ram s x)"
proof (intro conjI allI impI)
  have d: "disjoint_ranges a 4 b 4" if "unat a + 4 \<le> unat b \<or> unat b + 4 \<le> unat a" "unat a < 0x100" "unat b < 0x100"
    for a b :: addr
    using that by (intro disjoint_rangesI) auto
  show "load32 (ram (setup_ivt sys irq s)) 0x24 = sys" "load32 (ram (setup_ivt sys irq s)) 0x34 = irq"
    "load32 (ram (setup_ivt sys irq s)) 0x08 = 0xe59ff014" "load32 (ram (setup_ivt sys irq s)) 0x18 = 0xe59ff014"
    by (simp_all add: setup_ivt_def load32_store32_same load32_store32_other d)
  fix x :: addr assume "0x3c \<le> unat x"
  then show "ram (setup_ivt sys irq s) x = ram s x"
    by (simp add: setup_ivt_def store32_ivt in_range_unat)
qed

lemma setup_ivt_frame [frame_simps]:
  "\<exists>m. setup_ivt sys irq s = s\<lparr>ram := m\<rparr>"
  by (auto simp: setup_ivt_def)

text \<open>Up to the load of the first task, \<^verbatim>\<open>start_scheduler\<close> changes the queue, the vector table, the interrupt
  stack, the interrupt flag and the bus.\<close>

lemma start_scheduler_steps:
  assumes "\<not> isRunning s"
  shows "\<exists>m c k. start_scheduler dev sys irq s = load_current_task_state
      (snd (ring_buffer_remove s)\<lparr>current_task := fst (ring_buffer_remove s), isRunning := True, ram := m,
        sp_irq := IRQ_STACK_ADDRESS, cpu := c, io := k\<rparr>) \<and>
    load32 m 0x08 = 0xe59ff014 \<and> load32 m 0x24 = sys \<and> load32 m 0x18 = 0xe59ff014 \<and> load32 m 0x34 = irq \<and>
    (\<forall>x. 0x3c \<le> unat x \<longrightarrow> m x = ram s x)"
proof -
  let ?r = "snd (ring_buffer_remove s)\<lparr>current_task := fst (ring_buffer_remove s), isRunning := True\<rparr>"
  obtain h where h: "timer_stop dev ?r = ?r\<lparr>io := h @ io ?r\<rparr>"
    using only_io_timer(1) [OF only_io_refl, of ?r dev] by (auto simp: only_io_def)
  let ?i = "setup_irq_stack (setup_ivt sys irq (?r\<lparr>io := h @ io ?r\<rparr>))"
  obtain h' where h': "init_interrupt_controller dev ?i = ?i\<lparr>io := h' @ io ?i\<rparr>"
    using only_io_timer(3) [OF only_io_refl, of ?i dev] by (auto simp: only_io_def)
  let ?e = "enable_irq (?i\<lparr>io := h' @ io ?i\<rparr>)"
  obtain h'' where h'': "timer_start dev TIMER_LOAD_VALUE ?e = ?e\<lparr>io := h'' @ io ?e\<rparr>"
    using only_io_timer(2) [OF only_io_refl, of ?e dev TIMER_LOAD_VALUE] by (auto simp: only_io_def)
  have start: "start_scheduler dev sys irq s = load_current_task_state (?e\<lparr>io := h'' @ io ?e\<rparr>)"
    using assms h h' h'' by (simp add: start_scheduler_def init_interrupt_handling_def split_beta Let_def)
  define m where "m = ram (setup_ivt sys irq (?r\<lparr>io := h @ io ?r\<rparr>))"
  have "setup_ivt sys irq t = t\<lparr>ram := ram (setup_ivt sys irq t)\<rparr>" for t :: "'a sched_state_scheme"
    by (simp add: setup_ivt_def)
  from this [of "?r\<lparr>io := h @ io ?r\<rparr>", folded m_def]
  obtain c k where "?e\<lparr>io := h'' @ io ?e\<rparr> = ?r\<lparr>ram := m, sp_irq := IRQ_STACK_ADDRESS, cpu := c, io := k\<rparr>"
    by (auto simp: enable_irq_def setup_irq_stack_def)
  moreover have "m x = ram s x" if "0x3c \<le> unat x" for x
    using setup_ivt_ram [of sys irq "?r\<lparr>io := h @ io ?r\<rparr>"] that by (simp add: m_def ring_buffer_remove_def)
  ultimately show ?thesis using start setup_ivt_ram unfolding m_def by metis
qed

text \<open>The state \<^verbatim>\<open>start_scheduler\<close> leaves, when there is a task and when there is none.\<close>

lemma start_scheduler_state:
  assumes "sched_inv s" "\<not> isRunning s" "current_task s = None" "length (active s) \<le> 15"
  shows "active s = [] \<Longrightarrow> start_scheduler dev sys irq s = None"
    and "active s = Some i # rest \<Longrightarrow> \<exists>m k. start_scheduler dev sys irq s = Some (snd (ring_buffer_remove s)
        \<lparr>current_task := Some i, isRunning := True, ram := m, sp_irq := IRQ_STACK_ADDRESS, io := k, cpu := tasks s ! i\<rparr>) \<and>
      running (the (start_scheduler dev sys irq s)) \<and> active (the (start_scheduler dev sys irq s)) = active s \<and>
      load32 m 0x08 = 0xe59ff014 \<and> load32 m 0x24 = sys \<and> load32 m 0x18 = 0xe59ff014 \<and> load32 m 0x34 = irq \<and>
      (\<forall>x. 0x3c \<le> unat x \<longrightarrow> m x = ram s x)"
proof -
  obtain m c k where start: "start_scheduler dev sys irq s = load_current_task_state
      (snd (ring_buffer_remove s)\<lparr>current_task := fst (ring_buffer_remove s), isRunning := True, ram := m,
        sp_irq := IRQ_STACK_ADDRESS, cpu := c, io := k\<rparr>)"
    and mem: "load32 m 0x08 = 0xe59ff014 \<and> load32 m 0x24 = sys \<and> load32 m 0x18 = 0xe59ff014 \<and> load32 m 0x34 = irq \<and>
      (\<forall>x. 0x3c \<le> unat x \<longrightarrow> m x = ram s x)"
    using start_scheduler_steps [OF assms(2), of dev sys irq] by blast
  have ok: "sched_ok s" using assms(1) by (simp add: sched_inv_def)
  have act: "active s = run_queue s" using assms(3) by (simp add: active_def)
  show "start_scheduler dev sys irq s = None" if "active s = []"
    using that start task_ring.get_empty [OF ok] act by (simp add: load_current_task_state_def)
  assume a: "active s = Some i # rest"
  then have i: "fst (ring_buffer_remove s) = Some i" "run_queue (snd (ring_buffer_remove s)) = rest"
    using task_ring.get_some [OF ok] act by auto
  let ?s = "snd (ring_buffer_remove s)\<lparr>current_task := Some i, isRunning := True, ram := m, sp_irq := IRQ_STACK_ADDRESS,
      io := k, cpu := tasks s ! i\<rparr>"
  have run: "start_scheduler dev sys irq s = Some ?s"
    using start i(1) by (simp add: load_current_task_state_def frame_simps)
  have rq: "run_queue ?s = rest" using i(2) by (simp add: run_queue_def)
  then have act': "active ?s = active s" using a by (simp add: active_def assms(3))
  have "sched_ok ?s" using sched_ok_remove [OF ok] i(2) rq unfolding sched_ok_def by simp
  then have "running ?s" using assms act' by (simp add: running_def sched_inv_def frame_simps)
  then show "\<exists>m k. start_scheduler dev sys irq s = Some (snd (ring_buffer_remove s)
        \<lparr>current_task := Some i, isRunning := True, ram := m, sp_irq := IRQ_STACK_ADDRESS, io := k, cpu := tasks s ! i\<rparr>) \<and>
      running (the (start_scheduler dev sys irq s)) \<and> active (the (start_scheduler dev sys irq s)) = active s \<and>
      load32 m 0x08 = 0xe59ff014 \<and> load32 m 0x24 = sys \<and> load32 m 0x18 = 0xe59ff014 \<and> load32 m 0x34 = irq \<and>
      (\<forall>x. 0x3c \<le> unat x \<longrightarrow> m x = ram s x)"
    using run act' mem by (intro exI [of _ m] exI [of _ k]) simp
qed

text \<open>
  Property C25: \<^verbatim>\<open>start_scheduler\<close> makes the oldest of at most fifteen added tasks current and loads its
  registers, with the same tasks active in the same order; the vector table then holds the two handlers
  and the load instructions that reach them. With no task it dereferences a null pointer.
\<close>

theorem start_scheduler_runs:
  assumes "sched_inv s" "\<not> isRunning s" "current_task s = None" "length (active s) \<le> 15"
  shows "if active s = [] then start_scheduler dev sys irq s = None
    else \<exists>s' i. start_scheduler dev sys irq s = Some s' \<and> running s' \<and> isRunning s' \<and> active s' = active s \<and>
      current_task s' = Some i \<and> Some i = hd (active s) \<and> cpu s' = tasks s ! i \<and>
      load32 (ram s') 0x08 = 0xe59ff014 \<and> load32 (ram s') 0x24 = sys \<and>
      load32 (ram s') 0x18 = 0xe59ff014 \<and> load32 (ram s') 0x34 = irq"
proof (cases "active s")
  case Nil
  then show ?thesis using start_scheduler_state(1) [OF assms] by simp
next
  case (Cons t rest)
  have "run_queue s = active s" "None \<notin> set (run_queue s)" using assms(1,3) by (simp_all add: active_def sched_inv_def sched_ok_def)
  then obtain i where "active s = Some i # rest" using Cons by (cases t) auto
  from start_scheduler_state(2) [OF assms this, of dev sys irq] this show ?thesis by auto
qed

theorem start_scheduler_runs_witness:
  "\<exists>s'. start_scheduler (\<lambda>_ _ _. 0) 0x8000 0x9000 (add_tasks [0x100] sched0) = Some s' \<and>
     running s' \<and> load32 (ram s') 0x34 = 0x9000"
proof -
  have priv: "is_privileged sched0" by (simp add: is_privileged_def get_operating_mode_def sched0_def CPSR_MODE_SVC_def)
  have inv: "sched_inv sched0" "active sched0 = []" using sched_init_inv [OF sched_init_sched0] by simp_all
  have c: "\<not> isRunning (add_tasks [0x100] sched0)"
    by (simp add: add_tasks_def add_task_def sched0_def ring_buffer_insert_def Let_def)
  have "task_count sched0 < 16" "length (run_queue sched0) = 0" "current_task sched0 = None"
    by (simp_all add: sched0_def run_queue_def ring_list_def ring_length_def)
  with add_task_result [OF inv(1) priv, of "0x100"] inv
    start_scheduler_runs [of "add_tasks [0x100] sched0" "\<lambda>_ _ _. 0" "0x8000" "0x9000", OF _ c]
  show ?thesis by (simp add: add_tasks_def) blast
qed

text \<open>
  Property C39: a task created while fifteen are active overfills the ring: the next \<^verbatim>\<open>schedule\<close> finds no
  free slot for the interrupted task, drops it, and it never runs again.
\<close>

theorem schedule_loses_task:
  assumes "sched_inv s" "current_task s = Some i" "length (active s) = 16"
  shows "active (schedule s) = tl (active s) \<and> Some i \<notin> set (active (schedule s))"
  using schedule_full [OF assms] assms(1,2) by (simp add: sched_inv_def active_def)


theorem schedule_loses_task_witness:
  "\<exists>s :: sched_state. sched_inv s \<and> current_task s = Some 0 \<and> Some 0 \<notin> set (active (schedule s))"
proof -
  let ?s = "sched0\<lparr>task_count := 16, ring_buffer := map Some [1..<16] @ [None], buffer_end := 15, current_task := Some 0\<rparr>"
  have rq: "run_queue ?s = map Some [1..<16]"
    by (simp add: sched0_def run_queue_def ring_list_def ring_length_def upt_rec)
  then have act: "active ?s = map Some [0..<16]" by (simp add: active_def upt_rec)
  have "sched_ok ?s" unfolding sched_ok_def rq by (simp add: sched0_def image_iff)
  then have "sched_inv ?s" unfolding sched_inv_def act by (auto simp: distinct_map)
  with schedule_loses_task [of ?s 0] act show ?thesis by (intro exI [of _ ?s]) (simp add: upt_rec)
qed

end
