(* ===== verification/Stdio.thy ===== *)
theory Stdio
  imports Machine "HOL-Library.Signed_Division"
begin

text \<open>
  Formatted output: \<^verbatim>\<open>putchar\<close>, \<^verbatim>\<open>puts\<close>, \<^verbatim>\<open>printf\<close> and \<^verbatim>\<open>vprintf\<close> of \<^verbatim>\<open>libc/stdio\<close>. The variable
  arguments are a list of typed values; a conversion that finds none or one of the wrong type, and a
  store past the end of a digit buffer, is undefined behaviour and has the value \<open>None\<close>. The theorems
  relate \<^verbatim>\<open>vprintf\<close> to a specification of the rendered text.
\<close>

section \<open>Characters\<close>

definition EOF :: int where [simp]: "EOF = - 1"

definition putchar_raw :: "int \<Rightarrow> 's io_state_scheme \<Rightarrow> 's io_state_scheme" where
  "putchar_raw c s = s\<lparr>console := console s @ [char_of (c mod 256)]\<rparr>"

definition putchar :: "int \<Rightarrow> 's io_state_scheme \<Rightarrow> int \<times> 's io_state_scheme" where
  "putchar c s = (let s = (if c = 10 then putchar_raw 13 s else s) in (c, putchar_raw c s))"

text \<open>A C string is read up to its first zero character; \<^verbatim>\<open>char\<close> is unsigned on the target.\<close>

fun puts_loop :: "string \<Rightarrow> 's io_state_scheme \<Rightarrow> int \<times> 's io_state_scheme" where
  "puts_loop [] s =
     (let (res, s) = putchar 10 s in if res = EOF then (EOF, s) else (0, s))"
| "puts_loop (c # cs) s =
     (if c = CHR 0x00 then puts_loop [] s
      else (let (res, s) = putchar (of_char c) s in
            if res = EOF then (EOF, s) else puts_loop cs s))"

definition puts :: "string \<Rightarrow> 's io_state_scheme \<Rightarrow> int \<times> 's io_state_scheme" where
  "puts str s = puts_loop str s"

section \<open>Conversions\<close>

datatype va_arg = Arg_int u32 | Arg_long u64 | Arg_str "string option"

text \<open>
  The digit loop \<^verbatim>\<open>while (x) { tmp[i] = x % base; x /= base; ++i; }\<close>, on a signed value: division and
  remainder truncate towards zero. A store outside \<^verbatim>\<open>tmp\<close> is \<open>None\<close>.
\<close>

function fill_tmp :: "int \<Rightarrow> int list \<Rightarrow> nat \<Rightarrow> int \<Rightarrow> (int list \<times> nat) option" where
  "fill_tmp base tmp i x =
     (if x = 0 then Some (tmp, i)
      else if i \<ge> length tmp then None
      else fill_tmp base (tmp[i := (x smod base) mod 256]) (Suc i) (x sdiv base))"
  by pat_completeness auto
termination by (relation "measure (\<lambda>(base, tmp, i, x). length tmp - i)") auto

declare fill_tmp.simps [simp del]

text \<open>
  The output loops write a character, stop with \<^verbatim>\<open>return chars_written\<close> when \<^verbatim>\<open>putchar\<close> reports an
  error (\<open>True\<close>), and count it otherwise.
\<close>

definition emit :: "int \<Rightarrow> u32 \<Rightarrow> 's io_state_scheme \<Rightarrow> bool \<times> u32 \<times> 's io_state_scheme" where
  "emit c chars_written s =
     (let (res, s) = putchar c s in if res = EOF then (True, chars_written, s) else (False, chars_written + 1, s))"

fun emit_digits ::
  "(int \<Rightarrow> int) \<Rightarrow> int list \<Rightarrow> nat \<Rightarrow> u32 \<Rightarrow> 's io_state_scheme \<Rightarrow> bool \<times> u32 \<times> 's io_state_scheme" where
  "emit_digits digit tmp 0 chars_written s = (False, chars_written, s)"
| "emit_digits digit tmp (Suc i) chars_written s =
     (let (stop, chars_written, s) = emit (digit (tmp ! i)) chars_written s in
      if stop then (True, chars_written, s) else emit_digits digit tmp i chars_written s)"

fun emit_str :: "string \<Rightarrow> u32 \<Rightarrow> 's io_state_scheme \<Rightarrow> bool \<times> u32 \<times> 's io_state_scheme" where
  "emit_str [] chars_written s = (False, chars_written, s)"
| "emit_str (x # xs) chars_written s =
     (if x = CHR 0x00 then (False, chars_written, s)
      else (let (stop, chars_written, s) = emit (of_char x) chars_written s in
            if stop then (True, chars_written, s) else emit_str xs chars_written s))"

definition digit_dec :: "int \<Rightarrow> int" where
  "digit_dec d = d + 48"

definition digit_hex_lower :: "int \<Rightarrow> int" where
  "digit_hex_lower d = (if d > 9 then d + 97 - 10 else d + 48)"

definition digit_hex_upper :: "int \<Rightarrow> int" where
  "digit_hex_upper d = (if d > 9 then d + 65 - 10 else d + 48)"

text \<open>
  The seven number conversions are the same statements with another type, base, buffer size and
  alphabet; the unsigned ones have no sign.
\<close>

definition print_number ::
  "int \<Rightarrow> nat \<Rightarrow> (int \<Rightarrow> int) \<Rightarrow> bool \<Rightarrow> int \<Rightarrow> u32 \<Rightarrow> 's io_state_scheme \<Rightarrow>
   (bool \<times> u32 \<times> 's io_state_scheme) option" where
  "print_number base tmp_size digit sign x chars_written s =
     (let chars_written = chars_written + of_bool sign in
      case fill_tmp base (replicate tmp_size 0) 0 x of
        None \<Rightarrow> None
      | Some (tmp, i) \<Rightarrow>
          (let i = (if i \<noteq> 0 then i - 1 else i);
               (res, s) = (if sign then putchar 45 s else (0, s))
           in if res = EOF then Some (True, chars_written, s)
              else Some (emit_digits digit tmp (Suc i) chars_written s)))"

text \<open>\<^verbatim>\<open>int sign = x < 0; if (sign) x *= -1;\<close> on two's complement words.\<close>

definition print_signed ::
  "int \<Rightarrow> nat \<Rightarrow> (int \<Rightarrow> int) \<Rightarrow> 'a::len word \<Rightarrow> u32 \<Rightarrow> 's io_state_scheme \<Rightarrow>
   (bool \<times> u32 \<times> 's io_state_scheme) option" where
  "print_signed base tmp_size digit x chars_written s =
     (let sign = sint x < 0; x = (if sign then x * (- 1) else x)
      in print_number base tmp_size digit sign (sint x) chars_written s)"

definition print_unsigned ::
  "int \<Rightarrow> nat \<Rightarrow> (int \<Rightarrow> int) \<Rightarrow> 'a::len word \<Rightarrow> u32 \<Rightarrow> 's io_state_scheme \<Rightarrow>
   (bool \<times> u32 \<times> 's io_state_scheme) option" where
  "print_unsigned base tmp_size digit x chars_written s =
     print_number base tmp_size digit False (uint x) chars_written s"

section \<open>vprintf\<close>

definition unimplemented :: string where
  "unimplemented = [CHR 0x0A] @ ''printf: unimplemented conversion character '' @
     [CHR 0x27] @ ''%c'' @ [CHR 0x27, CHR 0x0A]"

type_synonym 's print_fun = "string \<Rightarrow> va_arg list \<Rightarrow> 's \<Rightarrow> (u32 \<times> 's) option"

text \<open>
  The \<^verbatim>\<open>switch\<close>: the conversion character \<open>k\<close>, with the remaining arguments in the result. \<open>print\<close> is
  the \<^verbatim>\<open>printf\<close> the code calls for a null string and for an unknown conversion character, after which
  it returns.
\<close>

definition convert ::
  "'s io_state_scheme print_fun \<Rightarrow> char \<Rightarrow> va_arg list \<Rightarrow> u32 \<Rightarrow> 's io_state_scheme \<Rightarrow>
   ((bool \<times> u32 \<times> 's io_state_scheme) \<times> va_arg list) option" where
  "convert print k ap chars_written s =
     (let with = (\<lambda>ap r. map_option (\<lambda>r. (r, ap)) r)
      in if k = CHR ''%'' then Some (emit 37 chars_written s, ap)
      else if k = CHR ''c'' then
        (case ap of Arg_int x # ap \<Rightarrow> Some (emit (sint x) chars_written s, ap) | _ \<Rightarrow> None)
      else if k = CHR ''s'' then
        (case ap of
           Arg_str None # ap \<Rightarrow>
             (case print ''(null)'' [] s of
                None \<Rightarrow> None
              | Some (res, s) \<Rightarrow>
                  if sint res = EOF then Some ((True, chars_written, s), ap)
                  else Some ((False, chars_written + res, s), ap))
         | Arg_str (Some x) # ap \<Rightarrow> Some (emit_str x chars_written s, ap)
         | _ \<Rightarrow> None)
      else if k = CHR ''i'' then
        (case ap of Arg_int x # ap \<Rightarrow> with ap (print_signed 10 10 digit_dec x chars_written s) | _ \<Rightarrow> None)
      else if k = CHR ''l'' then
        (case ap of Arg_long x # ap \<Rightarrow> with ap (print_unsigned 10 20 digit_dec x chars_written s) | _ \<Rightarrow> None)
      else if k = CHR ''L'' then
        (case ap of Arg_long x # ap \<Rightarrow> with ap (print_signed 10 20 digit_dec x chars_written s) | _ \<Rightarrow> None)
      else if k = CHR ''x'' then
        (case ap of Arg_int x # ap \<Rightarrow> with ap (print_unsigned 16 10 digit_hex_lower x chars_written s) | _ \<Rightarrow> None)
      else if k = CHR ''X'' then
        (case ap of Arg_int x # ap \<Rightarrow> with ap (print_signed 16 10 digit_hex_upper x chars_written s) | _ \<Rightarrow> None)
      else if k = CHR ''y'' then
        (case ap of Arg_long x # ap \<Rightarrow> with ap (print_unsigned 16 20 digit_hex_lower x chars_written s) | _ \<Rightarrow> None)
      else if k = CHR ''Y'' then
        (case ap of Arg_long x # ap \<Rightarrow> with ap (print_signed 16 20 digit_hex_upper x chars_written s) | _ \<Rightarrow> None)
      else
        (case print unimplemented [Arg_int (of_nat (of_char k))] s of
           None \<Rightarrow> None
         | Some (_, s) \<Rightarrow> Some ((True, chars_written, s), ap)))"

fun vprintf_loop ::
  "'s io_state_scheme print_fun \<Rightarrow> string \<Rightarrow> va_arg list \<Rightarrow> u32 \<Rightarrow> 's io_state_scheme \<Rightarrow>
   (u32 \<times> 's io_state_scheme) option" where
  "vprintf_loop print [] ap chars_written s = Some (chars_written, s)"
| "vprintf_loop print (c # cs) ap chars_written s =
     (if c = CHR 0x00 then Some (chars_written, s)
      else if c = CHR ''%'' then
        (case convert print (case cs of [] \<Rightarrow> CHR 0x00 | k # _ \<Rightarrow> k) ap chars_written s of
           None \<Rightarrow> None
         | Some ((stop, chars_written, s), ap) \<Rightarrow>
             if stop then Some (chars_written, s) else vprintf_loop print (tl cs) ap chars_written s)
      else
        (let (stop, chars_written, s) = emit (of_char c) chars_written s in
         if stop then Some (chars_written, s) else vprintf_loop print cs ap chars_written s))"

text \<open>
  The formats of the nested calls are constants without a nested call of their own; \<open>depth\<close> bounds the
  nesting, and two levels are enough.
\<close>

primrec vprintf_depth :: "nat \<Rightarrow> 's io_state_scheme print_fun" where
  "vprintf_depth 0 = (\<lambda>format ap s. None)"
| "vprintf_depth (Suc d) = (\<lambda>format ap s. vprintf_loop (vprintf_depth d) format ap 0 s)"

definition vprintf :: "'s io_state_scheme print_fun" where
  "vprintf format ap s = vprintf_depth 2 format ap s"

definition printf :: "'s io_state_scheme print_fun" where
  "printf format args s = vprintf format args s"

section \<open>The digits of a number\<close>

text \<open>The digits, least significant first, and the number they stand for.\<close>

function digits :: "nat \<Rightarrow> nat \<Rightarrow> nat list" where
  "digits b n = (if n = 0 \<or> b < 2 then [] else n mod b # digits b (n div b))"
  by pat_completeness auto
termination by (relation "measure snd") auto

declare digits.simps [simp del]

definition number_of_digits :: "nat \<Rightarrow> nat list \<Rightarrow> nat" where
  "number_of_digits b ds = foldl (\<lambda>n d. b * n + d) 0 ds"

lemma digits_0 [simp]: "digits b 0 = []"
  by (simp add: digits.simps)

lemma digits_pos: "2 \<le> b \<Longrightarrow> 0 < n \<Longrightarrow> digits b n = n mod b # digits b (n div b)"
  by (simp add: digits.simps)

lemma number_of_digits_digits: "2 \<le> b \<Longrightarrow> number_of_digits b (rev (digits b n)) = n"
proof (induction n rule: less_induct)
  case (less n)
  show ?case
  proof (cases "n = 0")
    case False
    with less.prems less.IH [of "n div b"] show ?thesis
      by (simp add: digits_pos number_of_digits_def)
  qed (simp add: number_of_digits_def)
qed

lemma length_digits: "2 \<le> b \<Longrightarrow> n < b ^ k \<Longrightarrow> length (digits b n) \<le> k"
proof (induction k arbitrary: n)
  case (Suc k)
  then have "n div b < b ^ k" by (simp add: less_mult_imp_div_less mult.commute)
  with Suc show ?case by (cases "n = 0") (simp_all add: digits_pos)
qed simp

lemma digits_less: "2 \<le> b \<Longrightarrow> d \<in> set (digits b n) \<Longrightarrow> d < b"
proof (induction n rule: less_induct)
  case (less n)
  then show ?case using less.IH [of "n div b"] by (cases "n = 0") (auto simp: digits_pos)
qed

text \<open>Truncating and flooring division agree on the values the loops divide.\<close>

lemma fill_tmp_digits:
  assumes "2 \<le> b" "b \<le> 256" "i + length (digits b n) \<le> length tmp"
  shows "fill_tmp (int b) tmp i (int n) =
    Some (take i tmp @ map int (digits b n) @ drop (i + length (digits b n)) tmp, i + length (digits b n))"
  using assms
proof (induction n arbitrary: i tmp rule: less_induct)
  case (less n)
  show ?case
  proof (cases "n = 0")
    case True
    then show ?thesis by (subst fill_tmp.simps) simp
  next
    case False
    then have ds: "digits b n = n mod b # digits b (n div b)" and "n div b < n"
      using less.prems by (simp_all add: digits_pos)
    have mod: "int n smod int b mod 256 = int (n mod b)"
      using less.prems by (simp add: signed_modulo_int_def signed_divide_int_def sgn_if zmod_int [symmetric]
          minus_div_mult_eq_mod mod_less_divisor [THEN less_le_trans])
    have div: "int n sdiv int b = int (n div b)"
      using False less.prems by (simp add: signed_divide_int_def sgn_if zdiv_int)
    have "fill_tmp (int b) tmp i (int n) = fill_tmp (int b) (tmp[i := int (n mod b)]) (Suc i) (int (n div b))"
      using False less.prems ds by (subst fill_tmp.simps) (simp add: mod div)
    also have "\<dots> = Some (take (Suc i) (tmp[i := int (n mod b)]) @ map int (digits b (n div b)) @
        drop (Suc i + length (digits b (n div b))) (tmp[i := int (n mod b)]), Suc i + length (digits b (n div b)))"
      using less.prems ds by (intro less.IH [OF \<open>n div b < n\<close>]) simp_all
    finally show ?thesis using less.prems ds by (simp add: take_update_last)
  qed
qed

section \<open>The rendered text\<close>

text \<open>What the terminal shows: every line feed is preceded by a carriage return.\<close>

definition crlf :: "string \<Rightarrow> string" where
  "crlf str = concat (map (\<lambda>c. if c = CHR 0x0A then [CHR 0x0D, c] else [c]) str)"

lemma crlf_simps [simp]: "crlf [] = []" "crlf (xs @ ys) = crlf xs @ crlf ys"
  by (simp_all add: crlf_def)

text \<open>The state after writing \<open>str\<close>.\<close>

definition put :: "string \<Rightarrow> 's io_state_scheme \<Rightarrow> 's io_state_scheme" where
  "put str s = s\<lparr>console := console s @ crlf str\<rparr>"

lemma put_simps [simp]: "put [] s = s" "put ys (put xs s) = put (xs @ ys) s"
  by (simp_all add: put_def)

lemma putchar_put: "0 \<le> c \<Longrightarrow> c < 256 \<Longrightarrow> putchar c s = (c, put [char_of c] s)"
proof -
  assume c: "0 \<le> c" "c < 256"
  have "char_of c = CHR 0x0A \<longleftrightarrow> c = 10"
  proof
    assume "char_of c = CHR 0x0A"
    then have "(of_char (char_of c) :: int) = of_char CHR 0x0A" by simp
    with c show "c = 10" by simp
  next
    have "char_of (of_char CHR 0x0A :: int) = CHR 0x0A" by (rule char_of_char)
    then show "c = 10 \<Longrightarrow> char_of c = CHR 0x0A" by simp
  qed
  moreover have "char_of (of_char CHR 0x0D :: int) = CHR 0x0D" by (rule char_of_char)
  ultimately show ?thesis using c by (auto simp: putchar_def putchar_raw_def put_def crlf_def Let_def)
qed

lemma of_char_bound: "0 \<le> (of_char c :: int)" "(of_char c :: int) < 256"
  using pos_mod_bound [of 256 "of_char c"] pos_mod_sign [of 256 "of_char c"] by (simp_all add: of_char_mod_256)

lemma putchar_char: "putchar (of_char c) s = (of_char c, put [c] s)"
  using putchar_put [of "of_char c" s] of_char_bound by simp

lemma emit_put: "0 \<le> c \<Longrightarrow> c < 256 \<Longrightarrow> emit c n s = (False, n + 1, put [char_of c] s)"
  by (simp add: emit_def putchar_put)

lemma emit_char: "emit (of_char c) n s = (False, n + 1, put [c] s)"
  using emit_put [of "of_char c" n s] of_char_bound by simp

lemma emit_str_put:
  "emit_str x n s = (let str = takeWhile (\<lambda>c. c \<noteq> CHR 0x00) x in (False, n + of_nat (length str), put str s))"
  by (induction x arbitrary: n s) (simp_all add: emit_char Let_def)

lemma emit_digits_put:
  "k \<le> length tmp \<Longrightarrow> (\<And>d. d \<in> set (take k tmp) \<Longrightarrow> 0 \<le> digit d \<and> digit d < 256) \<Longrightarrow>
   emit_digits digit tmp k n s =
     (False, n + of_nat k, put (map (\<lambda>d. char_of (digit d)) (rev (take k tmp))) s)"
proof (induction k arbitrary: n s)
  case (Suc k)
  then have "tmp ! k \<in> set (take (Suc k) tmp)" by (auto simp: take_Suc_conv_app_nth)
  with Suc.prems have "emit (digit (tmp ! k)) n s = (False, n + 1, put [char_of (digit (tmp ! k))] s)"
    by (intro emit_put) auto
  with Suc show ?case by (simp add: take_Suc_conv_app_nth)
qed simp

section \<open>Numbers\<close>

definition numeral_str :: "nat \<Rightarrow> (int \<Rightarrow> int) \<Rightarrow> nat \<Rightarrow> string" where
  "numeral_str b digit n = map (\<lambda>d. char_of (digit (int d))) (rev (if n = 0 then [0] else digits b n))"

definition signed_str :: "nat \<Rightarrow> (int \<Rightarrow> int) \<Rightarrow> int \<Rightarrow> string" where
  "signed_str b digit x = (if x < 0 then [CHR 0x2D] else []) @ numeral_str b digit (nat \<bar>x\<bar>)"

definition digit_ok :: "(int \<Rightarrow> int) \<Rightarrow> bool" where
  "digit_ok digit \<longleftrightarrow> (\<forall>d. 0 \<le> d \<and> d < 16 \<longrightarrow> 0 \<le> digit d \<and> digit d < 256)"

lemma digit_ok_simps [simp]: "digit_ok digit_dec" "digit_ok digit_hex_lower" "digit_ok digit_hex_upper"
  by (simp_all add: digit_ok_def digit_dec_def digit_hex_lower_def digit_hex_upper_def)

lemma print_number_put:
  assumes b: "2 \<le> b" "b \<le> 16" and sz: "n < b ^ k" "k \<le> sz" "0 < sz" and digit: "digit_ok digit"
  shows "print_number (int b) sz digit sign (int n) cw s =
    (let str = (if sign then [CHR 0x2D] else []) @ numeral_str b digit n
     in Some (False, cw + of_nat (length str), put str s))"
proof -
  let ?ds = "digits b n" and ?tmp = "replicate sz (0 :: int)"
  have len: "length ?ds \<le> sz" using length_digits [OF b(1) sz(1)] sz(2) by simp
  define tmp' where "tmp' = map int ?ds @ drop (length ?ds) ?tmp"
  have fill: "fill_tmp (int b) ?tmp 0 (int n) = Some (tmp', length ?ds)"
    using fill_tmp_digits [OF b(1), of 0 n ?tmp] b(2) len by (simp add: tmp'_def)
  define i where "i = (if length ?ds \<noteq> 0 then length ?ds - 1 else length ?ds)"
  have n0: "?ds = [] \<longleftrightarrow> n = 0" using b(1) by (cases "n = 0") (simp_all add: digits_pos)
  have i: "Suc i \<le> length tmp'" using len sz(3) by (auto simp: i_def tmp'_def)
  have taken: "take (Suc i) tmp' = map int (if n = 0 then [0] else ?ds)"
    using len sz(3) n0 by (auto simp: i_def tmp'_def take_Suc_conv_app_nth)
  have "0 \<le> digit d \<and> digit d < 256" if "d \<in> set (take (Suc i) tmp')" for d
    using that digit digits_less [OF b(1)] b(2) unfolding taken digit_ok_def by (fastforce split: if_splits)
  then have "emit_digits digit tmp' (Suc i) m t =
      (False, m + of_nat (Suc i), put (map (\<lambda>d. char_of (digit d)) (rev (take (Suc i) tmp'))) t)" for m t
    by (intro emit_digits_put [OF i])
  then have em: "emit_digits digit tmp' (Suc i) m t = (False, m + of_nat (Suc i), put (numeral_str b digit n) t)" for m t
    unfolding taken by (simp add: numeral_str_def rev_map comp_def del: emit_digits.simps split del: if_split)
  have "length (numeral_str b digit n) = Suc i"
    using n0 by (auto simp: numeral_str_def i_def)
  moreover have "putchar 45 s = (45, put [CHR 0x2D] s)" using putchar_char [of "CHR 0x2D" s] by simp
  ultimately show ?thesis
    unfolding print_number_def fill Let_def option.case prod.case i_def [symmetric]
    by (cases sign) (simp_all add: em del: emit_digits.simps)
qed

lemma sint_negate:
  assumes "sint (x :: 'a::len word) \<noteq> - (2 ^ (LENGTH('a) - 1))"
  shows "sint (x * - 1) = - sint x"
proof -
  have "- (2 ^ (LENGTH('a) - 1)) \<le> sint x" "sint x < 2 ^ (LENGTH('a) - 1)"
    using sint_greater_eq [of x] sint_less [of x] by simp_all
  then have "signed_take_bit (LENGTH('a) - 1) (- sint x) = - sint x"
    using assms by (intro signed_take_bit_int_eq_self) auto
  then show ?thesis by (simp add: sint_word_ariths)
qed

lemma print_signed_put:
  fixes x :: "'a::len word"
  assumes "2 \<le> b" "b \<le> 16" "2 ^ (LENGTH('a) - 1) \<le> b ^ k" "k \<le> sz" "0 < sz" "digit_ok digit"
    and min: "sint x \<noteq> - (2 ^ (LENGTH('a) - 1))"
  shows "print_signed (int b) sz digit x cw s =
    (let str = signed_str b digit (sint x) in Some (False, cw + of_nat (length str), put str s))"
proof -
  define y where "y = (if sint x < 0 then x * (- 1) else x)"
  have y: "sint y = \<bar>sint x\<bar>" using sint_negate [OF min] by (simp add: y_def)
  have "sint y < 2 ^ (LENGTH('a) - 1)" using sint_less [of y] by simp
  then have "nat \<bar>sint x\<bar> < 2 ^ (LENGTH('a) - 1)" using y by (simp add: nat_less_iff)
  with assms(3) have "nat \<bar>sint x\<bar> < b ^ k" by linarith
  from print_number_put [OF assms(1,2) this assms(4-6), of "sint x < 0" cw s]
  show ?thesis by (simp add: print_signed_def Let_def signed_str_def y flip: y_def)
qed

lemma print_unsigned_put:
  fixes x :: "'a::len word"
  assumes "2 \<le> b" "b \<le> 16" "2 ^ LENGTH('a) \<le> b ^ k" "k \<le> sz" "0 < sz" "digit_ok digit"
  shows "print_unsigned (int b) sz digit x cw s =
    (let str = numeral_str b digit (unat x) in Some (False, cw + of_nat (length str), put str s))"
proof -
  have "unat x < b ^ k" using assms(3) unsigned_less [of x, where 'a = nat] by linarith
  from print_number_put [OF assms(1,2) this assms(4-6), of False cw s]
  show ?thesis by (simp add: print_unsigned_def)
qed


section \<open>What vprintf prints\<close>

text \<open>
  The specification: the text of one conversion, with the arguments that remain. It has no value for a
  missing or ill-typed argument, an unknown conversion character, a \<^verbatim>\<open>%c\<close> of the value \<^verbatim>\<open>EOF\<close> or the
  least number of a signed type.
\<close>

definition conversion :: "char \<Rightarrow> va_arg list \<Rightarrow> (string \<times> va_arg list) option" where
  "conversion k ap =
     (case ap of
        Arg_int x # r \<Rightarrow>
          if k = CHR ''%'' then Some (''%'', ap)
          else if k = CHR ''c'' then (if 0 \<le> sint x \<and> sint x < 256 then Some ([char_of (sint x)], r) else None)
          else if k = CHR ''i'' then (if sint x = - (2 ^ 31) then None else Some (signed_str 10 digit_dec (sint x), r))
          else if k = CHR ''x'' then Some (numeral_str 16 digit_hex_lower (unat x), r)
          else if k = CHR ''X'' then (if sint x = - (2 ^ 31) then None else Some (signed_str 16 digit_hex_upper (sint x), r))
          else None
      | Arg_long x # r \<Rightarrow>
          if k = CHR ''%'' then Some (''%'', ap)
          else if k = CHR ''l'' then Some (numeral_str 10 digit_dec (unat x), r)
          else if k = CHR ''L'' then (if sint x = - (2 ^ 63) then None else Some (signed_str 10 digit_dec (sint x), r))
          else if k = CHR ''y'' then Some (numeral_str 16 digit_hex_lower (unat x), r)
          else if k = CHR ''Y'' then (if sint x = - (2 ^ 63) then None else Some (signed_str 16 digit_hex_upper (sint x), r))
          else None
      | Arg_str str # r \<Rightarrow>
          if k = CHR ''%'' then Some (''%'', ap)
          else if k = CHR ''s'' then
            Some (case str of None \<Rightarrow> ''(null)'' | Some x \<Rightarrow> takeWhile (\<lambda>c. c \<noteq> CHR 0x00) x, r)
          else None
      | [] \<Rightarrow> if k = CHR ''%'' then Some (''%'', ap) else None)"

fun render :: "string \<Rightarrow> va_arg list \<Rightarrow> string option" where
  "render [] ap = Some []"
| "render (c # cs) ap =
     (if c = CHR 0x00 then Some []
      else if c = CHR ''%'' then
        (case cs of
           [] \<Rightarrow> None
         | k # cs \<Rightarrow>
             (case conversion k ap of
                None \<Rightarrow> None
              | Some (str, ap) \<Rightarrow> map_option ((@) str) (render cs ap)))
      else map_option ((#) c) (render cs ap))"

lemma vprintf_loop_plain:
  "CHR 0x00 \<notin> set format \<Longrightarrow> CHR ''%'' \<notin> set format \<Longrightarrow>
   vprintf_loop print format ap cw s = Some (cw + of_nat (length format), put format s)"
  by (induction format arbitrary: cw s) (auto simp: emit_char add.assoc)

lemma vprintf_null: "vprintf_depth (Suc 0) ''(null)'' [] s = Some (6, put ''(null)'' s)"
  using vprintf_loop_plain [of "''(null)''" _ "[]" 0 s] by simp

text \<open>The seven numeric conversions, each with a buffer that is long enough for its type.\<close>

lemma numeric_conversions:
  fixes w :: u32 and x :: u64
  shows "sint w \<noteq> - (2 ^ 31) \<Longrightarrow> print_signed 10 10 digit_dec w cw s =
      (let str = signed_str 10 digit_dec (sint w) in Some (False, cw + of_nat (length str), put str s))"
    and "sint w \<noteq> - (2 ^ 31) \<Longrightarrow> print_signed 16 10 digit_hex_upper w cw s =
      (let str = signed_str 16 digit_hex_upper (sint w) in Some (False, cw + of_nat (length str), put str s))"
    and "sint x \<noteq> - (2 ^ 63) \<Longrightarrow> print_signed 10 20 digit_dec x cw s =
      (let str = signed_str 10 digit_dec (sint x) in Some (False, cw + of_nat (length str), put str s))"
    and "sint x \<noteq> - (2 ^ 63) \<Longrightarrow> print_signed 16 20 digit_hex_upper x cw s =
      (let str = signed_str 16 digit_hex_upper (sint x) in Some (False, cw + of_nat (length str), put str s))"
    and "print_unsigned 16 10 digit_hex_lower w cw s =
      (let str = numeral_str 16 digit_hex_lower (unat w) in Some (False, cw + of_nat (length str), put str s))"
    and "print_unsigned 10 20 digit_dec x cw s =
      (let str = numeral_str 10 digit_dec (unat x) in Some (False, cw + of_nat (length str), put str s))"
    and "print_unsigned 16 20 digit_hex_lower x cw s =
      (let str = numeral_str 16 digit_hex_lower (unat x) in Some (False, cw + of_nat (length str), put str s))"
  using print_signed_put [of 10 10 10 digit_dec w cw s] print_signed_put [of 16 8 10 digit_hex_upper w cw s]
    print_signed_put [of 10 20 20 digit_dec x cw s] print_signed_put [of 16 16 20 digit_hex_upper x cw s]
    print_unsigned_put [of 16 8 10 digit_hex_lower w cw s] print_unsigned_put [of 10 20 20 digit_dec x cw s]
    print_unsigned_put [of 16 16 20 digit_hex_lower x cw s]
  by simp_all

lemma convert_spec:
  assumes "conversion k ap = Some (str, ap')"
  shows "convert (vprintf_depth 1) k ap cw s = Some ((False, cw + of_nat (length str), put str s), ap')"
proof -
  have pct: "emit 37 cw s = (False, cw + 1, put ''%'' s)" using emit_char [of "CHR ''%''" cw s] by simp
  consider "ap = []" | w r where "ap = Arg_int w # r" | w r where "ap = Arg_long w # r" | w r where "ap = Arg_str w # r"
    by (metis neq_Nil_conv va_arg.exhaust)
  then show ?thesis
  proof cases
    case 1
    with assms pct show ?thesis by (auto simp: conversion_def convert_def split: if_splits)
  next
    case 2
    with assms show ?thesis
      by (auto simp: conversion_def convert_def pct numeric_conversions emit_put Let_def split: if_splits)
  next
    case 3
    with assms show ?thesis
      by (auto simp: conversion_def convert_def pct numeric_conversions Let_def split: if_splits)
  next
    case 4
    with assms show ?thesis
      by (auto simp: conversion_def convert_def pct emit_str_put vprintf_null Let_def
          split: if_splits option.splits simp del: vprintf_depth.simps)
  qed
qed

lemma vprintf_loop_renders:
  "render format ap = Some str \<Longrightarrow>
   vprintf_loop (vprintf_depth 1) format ap cw s = Some (cw + of_nat (length str), put str s)"
proof (induction format ap arbitrary: str cw s rule: render.induct)
  case (1 ap)
  then show ?case by simp
next
  case (2 c cs ap)
  consider (nul) "c = CHR 0x00" | (pct) "c = CHR ''%''" | (chr) "c \<noteq> CHR 0x00" "c \<noteq> CHR ''%''" by blast
  then show ?case
  proof cases
    case pct
    then obtain k cs' s1 ap' s2 where k: "cs = k # cs'" "conversion k ap = Some (s1, ap')"
      "render cs' ap' = Some s2" "str = s1 @ s2"
      using "2.prems" by (auto split: list.splits option.splits)
    with pct "2.IH"(1) [of k cs' "(s1, ap')" s1 ap' s2] convert_spec [OF k(2), of cw s]
    show ?thesis by (simp add: add.assoc del: vprintf_depth.simps)
  next
    case chr
    then obtain s2 where "render cs ap = Some s2" "str = c # s2" using "2.prems" by auto
    with chr "2.IH"(2) [of s2] show ?thesis by (simp add: emit_char add.assoc del: vprintf_depth.simps)
  qed (use "2.prems" in simp)
qed

lemma vprintf_put:
  "render format ap = Some str \<Longrightarrow> vprintf format ap s = Some (of_nat (length str), put str s)"
  using vprintf_loop_renders [of format ap str 0 s] by (simp add: vprintf_def numeral_2_eq_2)

text \<open>
  Property C9: on every format whose conversions match their arguments, \<^verbatim>\<open>vprintf\<close> returns (no digit
  buffer overflows and no argument is missing), appends exactly the specified text to the console with
  a carriage return before each line feed, changes nothing else, and returns the number of characters
  of the text.
\<close>

theorem vprintf_renders:
  assumes "render format ap = Some str"
  shows "vprintf format ap s = Some (of_nat (length str), s\<lparr>console := console s @ crlf str\<rparr>)"
  using vprintf_put [OF assms, of s] by (simp add: put_def)

definition io0 :: io_state where
  "io0 = \<lparr>console = [], io = [], errno = 0\<rparr>"

theorem vprintf_renders_witness:
  "vprintf (''%i %x %s'' @ [CHR 0x0A]) [Arg_int (- 42), Arg_int 255, Arg_str None] io0 =
     Some (14, io0\<lparr>console := ''-42 ff (null)'' @ [CHR 0x0D, CHR 0x0A]\<rparr>)"
proof -
  have "render (''%i %x %s'' @ [CHR 0x0A]) [Arg_int (- 42), Arg_int 255, Arg_str None] =
      Some (''-42 ff (null)'' @ [CHR 0x0A])" by code_simp
  from vprintf_renders [OF this, of io0] show ?thesis by (simp add: crlf_def io0_def)
qed

text \<open>Reading a number back.\<close>

definition digit_of_char :: "char \<Rightarrow> nat" where
  "digit_of_char c = (let n = of_char c in if n < 58 then n - 48 else if n < 91 then n - 55 else n - 87)"

fun parse_int :: "nat \<Rightarrow> string \<Rightarrow> int" where
  "parse_int b [] = 0"
| "parse_int b (c # cs) =
     (if c = CHR 0x2D then - int (number_of_digits b (map digit_of_char cs))
      else int (number_of_digits b (map digit_of_char (c # cs))))"

lemma digit_of_char_digit:
  "d < 10 \<Longrightarrow> digit_of_char (char_of (digit_dec (int d))) = d"
  "d < 16 \<Longrightarrow> digit_of_char (char_of (digit_hex_lower (int d))) = d"
  "d < 16 \<Longrightarrow> digit_of_char (char_of (digit_hex_upper (int d))) = d"
proof -
  have of: "(of_char (char_of (int k)) :: nat) = k" if "k < 256" for k
    using that of_char_of [where ?'a = int, of "int k"] by (metis int_ops(3) mod_less of_char_of of_nat_eq_iff of_nat_of_char zmod_int of_nat_numeral)
  show "d < 10 \<Longrightarrow> digit_of_char (char_of (digit_dec (int d))) = d"
    using of [of "d + 48"] by (simp add: digit_of_char_def digit_dec_def Let_def)
  show "d < 16 \<Longrightarrow> digit_of_char (char_of (digit_hex_lower (int d))) = d"
    using of [of "d + 48"] of [of "87 + d"] by (auto simp: digit_of_char_def digit_hex_lower_def Let_def)
  show "d < 16 \<Longrightarrow> digit_of_char (char_of (digit_hex_upper (int d))) = d"
    using of [of "d + 48"] of [of "55 + d"] by (auto simp: digit_of_char_def digit_hex_upper_def Let_def)
qed

lemma numeral_str_digits:
  assumes "2 \<le> b" "\<And>d. d < b \<Longrightarrow> digit_of_char (char_of (digit (int d))) = d"
  shows "number_of_digits b (map digit_of_char (numeral_str b digit n)) = n"
proof -
  have "map digit_of_char (numeral_str b digit n) = rev (if n = 0 then [0] else digits b n)"
    using assms digits_less [OF assms(1), of _ n] assms(2) [of 0]
    by (auto simp: numeral_str_def comp_def intro!: map_idI)
  then show ?thesis using number_of_digits_digits [OF assms(1), of n] by (simp add: number_of_digits_def)
qed

lemma numeral_str_chars:
  assumes "c \<in> set (numeral_str 10 digit_dec n)"
  shows "48 \<le> (of_char c :: int)"
proof -
  obtain d where "d \<in> set (if n = 0 then [0] else digits 10 n)" "c = char_of (digit_dec (int d))"
    using assms by (auto simp: numeral_str_def simp del: char_of_eq_iff)
  moreover from this(1) have "d < 10" using digits_less [of 10 d n] by (simp split: if_splits)
  ultimately show ?thesis by (simp add: digit_dec_def)
qed

lemma signed_str_parse:
  "parse_int 10 (signed_str 10 digit_dec x) = x" "crlf (signed_str 10 digit_dec x) = signed_str 10 digit_dec x"
proof -
  let ?n = "numeral_str 10 digit_dec (nat \<bar>x\<bar>)"
  have val: "number_of_digits 10 (map digit_of_char ?n) = nat \<bar>x\<bar>"
    by (rule numeral_str_digits) (simp_all add: digit_of_char_digit)
  have chars: "c \<noteq> CHR 0x2D \<and> c \<noteq> CHR 0x0A" if "c \<in> set ?n" for c
    using numeral_str_chars [OF that] by auto
  show "parse_int 10 (signed_str 10 digit_dec x) = x"
    using val chars by (cases ?n) (auto simp: signed_str_def number_of_digits_def)
  have "crlf str = str" if "CHR 0x0A \<notin> set str" for str
    using that by (induction str) (auto simp: crlf_def)
  then show "crlf (signed_str 10 digit_dec x) = signed_str 10 digit_dec x"
    using chars by (auto simp: signed_str_def)
qed

lemma signed_str_length:
  assumes "nat \<bar>x\<bar> < 10 ^ k" "0 < k"
  shows "0 < length (signed_str 10 digit x) \<and> length (signed_str 10 digit x) \<le> Suc k"
  using length_digits [of 10 "nat \<bar>x\<bar>" k] digits_pos [of 10 "nat \<bar>x\<bar>"] assms
  by (auto simp: signed_str_def numeral_str_def)

text \<open>
  Property C27: printing an \<^verbatim>\<open>int\<close> with \<^verbatim>\<open>%i\<close> and reading the digits back gives the number, for every
  value but the least one; the text has at most eleven characters and the return value is its length.
\<close>

theorem vprintf_int_round_trip:
  assumes "x \<noteq> 0x80000000"
  shows "\<exists>str. vprintf ''%i'' [Arg_int x] s = Some (of_nat (length str), s\<lparr>console := console s @ str\<rparr>) \<and>
    parse_int 10 str = sint x \<and> 0 < length str \<and> length str \<le> 11"
proof -
  have "sint x \<noteq> - (2 ^ 31)"
  proof
    assume "sint x = - (2 ^ 31)"
    then have "sint x = sint (0x80000000 :: u32)" by simp
    with assms show False by (metis signed_word_eqI)
  qed
  then have "render ''%i'' [Arg_int x] = Some (signed_str 10 digit_dec (sint x))"
    by (simp add: conversion_def)
  note printed = vprintf_put [OF this, of s]
  have "\<bar>sint x\<bar> \<le> 2 ^ 31" using sint_greater_eq [of x] sint_less [of x] by simp
  then have "nat \<bar>sint x\<bar> < 10 ^ 10" by simp
  with printed signed_str_length [of "sint x" 10 digit_dec] show ?thesis
    by (intro exI [of _ "signed_str 10 digit_dec (sint x)"])
      (simp add: put_def signed_str_parse)
qed

theorem vprintf_int_round_trip_witness:
  "\<exists>str. vprintf ''%i'' [Arg_int (- 7)] io0 = Some (of_nat (length str), io0\<lparr>console := str\<rparr>) \<and>
     parse_int 10 str = - 7"
  using vprintf_int_round_trip [of "- 7" io0] by (simp add: io0_def) blast

text \<open>
  Property: the least \<^verbatim>\<open>int\<close> is printed wrongly: negating it overflows, every remainder is negative,
  and \<^verbatim>\<open>%i\<close> of -2147483648 writes punctuation instead of digits.
\<close>

theorem vprintf_int_min:
  "vprintf ''%i'' [Arg_int 0x80000000] io0 = Some (11, io0\<lparr>console := ''-./,),(-*,(''\<rparr>)"
  by code_simp

end
