(* ===== verification/Logger.thy ===== *)
theory Logger
  imports Scheduler Stdio
begin

text \<open>
  The logger, \<^verbatim>\<open>kernel/logger/logger.c\<close>: a line of the severity, the time, the file and the formatted message.
\<close>

section \<open>kernel/logger/logger.c\<close>

definition log_severities :: "string list" where
  "log_severities = [''DEBUG'', ''INFO'', ''WARN'', ''ERROR'', ''FATAL'']"

definition log_colors :: "string list" where
  "log_colors = map ((#) (CHR 0x1B)) [''[37m'', ''[34m'', ''[33m'', ''[91m'', ''[31m'']"

definition log_format :: "nat \<Rightarrow> string" where
  "log_format severity =
     (if severity = 1 \<or> severity = 2 then ''%s[%s]  [%s]'' else ''%s[%s] [%s]'') @
     [CHR 0x1B] @ ''[0m [%s]: ''"

text \<open>A severity outside the two tables is an access out of their bounds: \<open>None\<close>.\<close>

definition general_log ::
  "nat \<Rightarrow> string \<Rightarrow> string \<Rightarrow> va_arg list \<Rightarrow> 's time_state_scheme \<Rightarrow> 's time_state_scheme option" where
  "general_log severity file format args s =
     (let time = clock_formatted_msms s in
      if severity \<ge> length log_colors then None
      else case printf (log_format severity)
             [Arg_str (Some (log_colors ! severity)), Arg_str (Some (log_severities ! severity)),
              Arg_str (Some time), Arg_str (Some file)] s of
        None \<Rightarrow> None
      | Some (_, s) \<Rightarrow>
          (case vprintf format args s of
             None \<Rightarrow> None
           | Some (_, s) \<Rightarrow> Some (snd (putchar 10 s))))"

definition LOG_WARN where "LOG_WARN = general_log 2"
definition LOG_ERROR where "LOG_ERROR = general_log 3"

text \<open>The line of a log entry.\<close>

definition log_line :: "nat \<Rightarrow> string \<Rightarrow> string \<Rightarrow> string \<Rightarrow> string" where
  "log_line severity time file msg =
     log_colors ! severity @ ''['' @ log_severities ! severity @
     (if severity = 1 \<or> severity = 2 then '']  ['' else ''] ['') @ time @ '']'' @
     [CHR 0x1B] @ ''[0m ['' @ file @ '']: '' @ msg @ [CHR 0x0A]"

lemma takeWhile_all: "CHR 0x00 \<notin> set xs \<Longrightarrow> takeWhile (\<lambda>c. c \<noteq> CHR 0x00) xs = xs"
  by (simp add: takeWhile_eq_all_conv) metis

lemma INTTOCHAR_nonzero: "unat v < 10 \<Longrightarrow> INTTOCHAR v \<noteq> CHR 0x00"
proof
  assume "unat v < 10" "INTTOCHAR v = CHR 0x00"
  then have "(of_char (INTTOCHAR v) :: nat) = of_char CHR 0x00" by simp
  then show False using \<open>unat v < 10\<close> by (simp add: INTTOCHAR_def)
qed

lemma clock_time_to_str_nonzero: "CHR 0x00 \<notin> set (clock_time_to_str t)"
  using INTTOCHAR_nonzero
  by (auto simp: clock_time_to_str_def Let_def unat_mod dest!: INTTOCHAR_nonzero [rotated] sym [of "CHR 0x00"])

lemma log_tables_nonzero:
  "severity < 5 \<Longrightarrow> CHR 0x00 \<notin> set (log_colors ! severity) \<and> CHR 0x00 \<notin> set (log_severities ! severity)"
  by (auto simp: less_Suc_eq numeral_eq_Suc log_colors_def log_severities_def)

lemma general_log_put:
  assumes "severity < 5" "CHR 0x00 \<notin> set file" "render format args = Some msg"
  shows "general_log severity file format args s =
    Some (put (log_line severity (clock_time_to_str (clock s)) file msg) s)"
proof -
  let ?time = "clock_time_to_str (clock s)"
  let ?ap = "[Arg_str (Some (log_colors ! severity)), Arg_str (Some (log_severities ! severity)),
              Arg_str (Some ?time), Arg_str (Some file)]"
  let ?head = "log_colors ! severity @ ''['' @ log_severities ! severity @
     (if severity = 1 \<or> severity = 2 then '']  ['' else ''] ['') @ ?time @ '']'' @ [CHR 0x1B] @ ''[0m ['' @ file @ '']: ''"
  have "render (log_format severity) ?ap = Some ?head"
    using log_tables_nonzero [OF assms(1)] assms(2) clock_time_to_str_nonzero [of "clock s"]
    by (simp add: log_format_def conversion_def takeWhile_all)
  then have "printf (log_format severity) ?ap s = Some (of_nat (length ?head), put ?head s)"
    by (simp only: printf_def vprintf_put)
  moreover have "vprintf format args t = Some (of_nat (length msg), put msg t)" for t :: "'a time_state_scheme"
    using assms(3) by (rule vprintf_put)
  moreover have "putchar 10 t = (10, put [CHR 0x0A] t)" for t :: "'a time_state_scheme"
    using putchar_char [of "CHR 0x0A" t] by simp
  ultimately have "general_log severity file format args s = Some (put (?head @ msg @ [CHR 0x0A]) s)"
    using assms(1) by (simp add: general_log_def clock_formatted_msms_def clock_millis_def log_colors_def)
  then show ?thesis by (simp add: log_line_def)
qed

text \<open>
  Property: a log call with a well-formed message writes exactly one line: colour, severity padded to
  equal width, the time since the start of the system, the source file and the message; only the console
  changes.
\<close>

theorem general_log_line:
  assumes "severity < 5" "CHR 0x00 \<notin> set file" "render format args = Some msg"
  shows "general_log severity file format args s =
    Some (s\<lparr>console := console s @ crlf (log_line severity (clock_time_to_str (clock s)) file msg)\<rparr>)"
  using general_log_put [OF assms, of s] by (simp add: put_def)

theorem general_log_line_witness:
  "general_log 2 ''a.c'' ''%i left'' [Arg_int 3] sched0 =
     Some (sched0\<lparr>console := crlf (log_line 2 (clock_time_to_str 0) ''a.c'' ''3 left'')\<rparr>)"
proof -
  have "render ''%i left'' [Arg_int 3] = Some ''3 left''" by code_simp
  from general_log_line [OF _ _ this, of 2 "''a.c''" sched0] show ?thesis by (simp add: sched0_def)
qed


end
