(* ===== verification/Syscall.thy ===== *)
theory Syscall
  imports Logger
begin

text \<open>
  System calls: the user-side stubs of \<^verbatim>\<open>kernel/syscall.c\<close> and the dispatcher of
  \<^verbatim>\<open>kernel/syscall_handler.c\<close>. The supervisor call switches to SVC mode with interrupts masked, the
  return restores the caller's status register. A result of \<open>None\<close> inside the pair is a function that ends
  without returning a value; \<open>None\<close> outside is undefined behaviour of the formatted output.
\<close>

section \<open>The dispatcher\<close>

datatype SYSCALL_NUMBER = ZERO_SYSCALL | CREATE_PROCESS | EXIT | GET_PID | SHUTDOWN

fun syscall_no :: "SYSCALL_NUMBER \<Rightarrow> u32" where
  "syscall_no ZERO_SYSCALL = 0"
| "syscall_no CREATE_PROCESS = 1"
| "syscall_no EXIT = 2"
| "syscall_no GET_PID = 3"
| "syscall_no SHUTDOWN = 99"

definition EINVALIDSYSCALLNO :: u32 where "EINVALIDSYSCALLNO = 4"

definition syscall_zero_dispatch ::
  "addr \<Rightarrow> 's sched_state_scheme \<Rightarrow> u32 option \<times> 's sched_state_scheme" where
  "syscall_zero_dispatch data s =
     (Some 0, snd (puts (''This is not a real syscall!'' @ [CHR 0x0A]) s))"

text \<open>\<^verbatim>\<open>create_process_spec\<close> is one pointer; the result of \<^verbatim>\<open>add_task\<close> is not looked at.\<close>

definition create_process_dispatch ::
  "addr \<Rightarrow> 's sched_state_scheme \<Rightarrow> u32 option \<times> 's sched_state_scheme" where
  "create_process_dispatch data s =
     (let function = load32 (ram s) data; (_, s) = add_task function s in (Some 0, s))"

definition shutdown_dispatch ::
  "addr \<Rightarrow> 's sched_state_scheme \<Rightarrow> u32 option \<times> 's sched_state_scheme" where
  "shutdown_dispatch data s = (None, halt_execution s)"

definition dispatch_message :: string where
  "dispatch_message = ''Handling syscall %i with data at address %x.'' @ [CHR 0x0A]"

definition syscall_dispatcher ::
  "u32 \<Rightarrow> addr \<Rightarrow> 's sched_state_scheme \<Rightarrow> (u32 option \<times> 's sched_state_scheme) option" where
  "syscall_dispatcher syscallno data s =
     (case printf dispatch_message [Arg_int syscallno, Arg_int data] s of
        None \<Rightarrow> None
      | Some (_, s) \<Rightarrow> Some (
          if syscallno = syscall_no ZERO_SYSCALL then syscall_zero_dispatch data s
          else if syscallno = syscall_no CREATE_PROCESS then create_process_dispatch data s
          else if syscallno = syscall_no SHUTDOWN then shutdown_dispatch data s
          else (Some (- 1), s\<lparr>errno := EINVALIDSYSCALLNO\<rparr>)))"

definition set_cpsr :: "u32 \<Rightarrow> 's sched_state_scheme \<Rightarrow> 's sched_state_scheme" where
  "set_cpsr v s = s\<lparr>cpu := (cpu s)\<lparr>cpsr := v\<rparr>\<rparr>"

text \<open>The status register on entry to the handler: SVC mode, interrupts masked.\<close>

definition svc_mode :: "u32 \<Rightarrow> u32" where
  "svc_mode v = (v AND NOT 0x1f) OR 0x93"

definition syscall_handler ::
  "u32 \<Rightarrow> addr \<Rightarrow> 's sched_state_scheme \<Rightarrow> (u32 option \<times> 's sched_state_scheme) option" where
  "syscall_handler r0 r1 s = syscall_dispatcher r0 r1 s"

section \<open>kernel/syscall.c\<close>

definition syscall ::
  "u32 \<Rightarrow> addr \<Rightarrow> 's sched_state_scheme \<Rightarrow> (u32 option \<times> 's sched_state_scheme) option" where
  "syscall number data s =
     (let spsr = cpsr (cpu s);
          s = set_cpsr (svc_mode spsr) s
      in map_option (\<lambda>(ret, s). (ret, set_cpsr spsr s)) (syscall_handler number data s))"

text \<open>\<^verbatim>\<open>new_process\<close> is a local variable: its address in the caller's stack is a parameter.\<close>

definition create_process ::
  "addr \<Rightarrow> u32 \<Rightarrow> 's sched_state_scheme \<Rightarrow> (u32 option \<times> 's sched_state_scheme) option" where
  "create_process new_process function s =
     syscall 1 new_process (s\<lparr>ram := store32 (ram s) new_process function\<rparr>)"

definition shutdown :: "'s sched_state_scheme \<Rightarrow> (u32 option \<times> 's sched_state_scheme) option" where
  "shutdown s = syscall 99 0 s"

section \<open>Frames\<close>

lemma put_frame [frame_simps]:
  "ram (put str s) = ram s" "tasks (put str s) = tasks s" "task_count (put str s) = task_count s"
  "cpu (put str s) = cpu s" "current_task (put str s) = current_task s" "errno (put str s) = errno s"
  "run_queue (put str s) = run_queue s" "active (put str s) = active s" "sched_inv (put str s) = sched_inv s"
  by (simp_all add: put_def run_queue_def active_def sched_inv_def sched_ok_def)

lemma set_cpsr_frame [frame_simps]:
  "ram (set_cpsr v s) = ram s" "tasks (set_cpsr v s) = tasks s" "task_count (set_cpsr v s) = task_count s"
  "current_task (set_cpsr v s) = current_task s" "errno (set_cpsr v s) = errno s" "cpsr (cpu (set_cpsr v s)) = v"
  "run_queue (set_cpsr v s) = run_queue s" "active (set_cpsr v s) = active s"
  "sched_inv (set_cpsr v s) = sched_inv s" "console (set_cpsr v s) = console s"
  by (simp_all add: set_cpsr_def run_queue_def active_def sched_inv_def sched_ok_def)

lemma sched_inv_ram [frame_simps]:
  "sched_inv (s\<lparr>ram := m\<rparr>) = sched_inv s" "run_queue (s\<lparr>ram := m\<rparr>) = run_queue s"
  "sched_inv (s\<lparr>errno := e\<rparr>) = sched_inv s" "active (s\<lparr>errno := e\<rparr>) = active s"
  by (simp_all add: run_queue_def active_def sched_inv_def sched_ok_def)

lemma privileged_svc: "is_privileged (put str (set_cpsr (svc_mode v) s))"
proof -
  have "bit (svc_mode v AND 0x1f) 0" by (simp add: svc_mode_def bit_simps)
  then have "svc_mode v AND 0x1f \<noteq> 0x10" by (metis bit_numeral_simps(2) bit_0 even_numeral)
  then show ?thesis by (simp add: is_privileged_def get_operating_mode_def frame_simps)
qed

lemma dispatch_message_printed:
  assumes "number \<noteq> 0x80000000"
  shows "\<exists>str. printf dispatch_message [Arg_int number, Arg_int data] s = Some (of_nat (length str), put str s)"
proof -
  have "sint number \<noteq> - (2 ^ 31)"
  proof
    assume "sint number = - (2 ^ 31)"
    then have "sint number = sint (0x80000000 :: u32)" by simp
    with assms show False by (metis signed_word_eqI)
  qed
  then have "\<exists>str. render dispatch_message [Arg_int number, Arg_int data] = Some str"
    by (simp add: dispatch_message_def conversion_def)
  then show ?thesis by (metis printf_def vprintf_put)
qed


text \<open>What the supervisor call finds: the message printed, the mode switched.\<close>

lemma syscall_entry:
  assumes "number \<noteq> 0x80000000"
  shows "\<exists>str. syscall number data s = map_option (\<lambda>(ret, s'). (ret, set_cpsr (cpsr (cpu s)) s')) (Some (
      let s = put str (set_cpsr (svc_mode (cpsr (cpu s))) s) in
      if number = 0 then syscall_zero_dispatch data s
      else if number = 1 then create_process_dispatch data s
      else if number = 99 then shutdown_dispatch data s
      else (Some (- 1), s\<lparr>errno := EINVALIDSYSCALLNO\<rparr>)))"
proof -
  obtain str where "printf dispatch_message [Arg_int number, Arg_int data] (set_cpsr (svc_mode (cpsr (cpu s))) s) =
      Some (of_nat (length str), put str (set_cpsr (svc_mode (cpsr (cpu s))) s))"
    using dispatch_message_printed [OF assms, of data "set_cpsr (svc_mode (cpsr (cpu s))) s"] by blast
  then show ?thesis
    by (intro exI [of _ str]) (simp add: syscall_def syscall_handler_def syscall_dispatcher_def Let_def)
qed

lemma create_process_entry:
  obtains str where "create_process new_process function s = (let
      t = put str (set_cpsr (svc_mode (cpsr (cpu s))) (s\<lparr>ram := store32 (ram s) new_process function\<rparr>))
      in Some (Some 0, set_cpsr (cpsr (cpu s)) (snd (add_task function t))))"
proof -
  obtain str where "syscall 1 new_process (s\<lparr>ram := store32 (ram s) new_process function\<rparr>) =
      map_option (\<lambda>(ret, s'). (ret, set_cpsr (cpsr (cpu s)) s')) (Some (create_process_dispatch new_process
        (put str (set_cpsr (svc_mode (cpsr (cpu s))) (s\<lparr>ram := store32 (ram s) new_process function\<rparr>)))))"
    using syscall_entry [of 1 new_process "s\<lparr>ram := store32 (ram s) new_process function\<rparr>"] by (auto simp: Let_def)
  then show ?thesis
    by (intro that [of str])
      (simp add: create_process_def create_process_dispatch_def split_beta Let_def frame_simps load32_store32_same)
qed

text \<open>
  Property C28: \<^verbatim>\<open>create_process\<close> works from user mode: the supervisor call raises the privilege for
  \<^verbatim>\<open>add_task\<close>, the new task starts at the given function with its own stack at the end of the queue, the
  call returns 0 and the caller is back in its own mode with the invariant intact.
\<close>

theorem create_process_adds_task:
  assumes "sched_inv s" "task_count s < MAX_TASK_NUMBER" "length (run_queue s) < 15"
  shows "\<exists>s'. create_process new_process function s = Some (Some 0, s') \<and> sched_inv s' \<and>
    active s' = active s @ [Some (task_count s)] \<and> pc (tasks s' ! task_count s) = function \<and>
    sp (tasks s' ! task_count s) = 0x3FE0000 - 0x10000 * of_nat (task_count s) \<and> cpsr (cpu s') = cpsr (cpu s)"
proof -
  obtain str where cp: "create_process new_process function s = (let
      t = put str (set_cpsr (svc_mode (cpsr (cpu s))) (s\<lparr>ram := store32 (ram s) new_process function\<rparr>))
      in Some (Some 0, set_cpsr (cpsr (cpu s)) (snd (add_task function t))))"
    by (rule create_process_entry)
  let ?t = "put str (set_cpsr (svc_mode (cpsr (cpu s))) (s\<lparr>ram := store32 (ram s) new_process function\<rparr>))"
  have t: "sched_inv ?t" "is_privileged ?t" "task_count ?t < 16" "length (tasks ?t) = 16"
    using assms sched_inv_idx [OF assms(1)] by (simp_all add: frame_simps privileged_svc)
  from add_task_result [OF t(1-3), of "function"] t(4) assms
  show ?thesis unfolding cp Let_def
    by (simp add: frame_simps init_task_def const_defs)
qed

text \<open>
  Property: the error of \<^verbatim>\<open>add_task\<close> is lost: with sixteen tasks \<^verbatim>\<open>create_process\<close> still returns 0, no
  task is added, and only \<^verbatim>\<open>errno\<close> tells.
\<close>

theorem create_process_swallows_error:
  assumes "sched_inv s" "task_count s = MAX_TASK_NUMBER"
  shows "\<exists>s'. create_process new_process function s = Some (Some 0, s') \<and> errno s' = ETOOMANYTASKS \<and>
    active s' = active s \<and> tasks s' = tasks s"
proof -
  obtain str where cp: "create_process new_process function s = (let
      t = put str (set_cpsr (svc_mode (cpsr (cpu s))) (s\<lparr>ram := store32 (ram s) new_process function\<rparr>))
      in Some (Some 0, set_cpsr (cpsr (cpu s)) (snd (add_task function t))))"
    by (rule create_process_entry)
  let ?t = "put str (set_cpsr (svc_mode (cpsr (cpu s))) (s\<lparr>ram := store32 (ram s) new_process function\<rparr>))"
  have "add_task function ?t = (- 1, ?t\<lparr>errno := ETOOMANYTASKS\<rparr>)"
    using assms(2) by (simp add: add_task_def frame_simps privileged_svc)
  then show ?thesis unfolding cp Let_def by (simp add: frame_simps)
qed

text \<open>
  Property: a number that is no system call returns -1 with \<^verbatim>\<open>errno\<close> set and changes nothing else but
  the console; \<^verbatim>\<open>EXIT\<close> and \<^verbatim>\<open>GET_PID\<close> are such numbers.
\<close>

theorem syscall_unknown:
  assumes "number \<notin> {0, 1, 99, 0x80000000}"
  shows "\<exists>str. syscall number data s =
    Some (Some (- 1), s\<lparr>errno := EINVALIDSYSCALLNO, console := console s @ str\<rparr>)"
proof -
  obtain str where "syscall number data s = map_option (\<lambda>(ret, s'). (ret, set_cpsr (cpsr (cpu s)) s')) (Some (
      let s = put str (set_cpsr (svc_mode (cpsr (cpu s))) s) in
      if number = 0 then syscall_zero_dispatch data s
      else if number = 1 then create_process_dispatch data s
      else if number = 99 then shutdown_dispatch data s
      else (Some (- 1), s\<lparr>errno := EINVALIDSYSCALLNO\<rparr>)))"
    using syscall_entry [of number data s] assms by blast
  then show ?thesis using assms
    by (intro exI [of _ "crlf str"]) (cases "cpu s", simp add: Let_def put_def set_cpsr_def)
qed

theorem create_process_adds_task_witness:
  "sched_inv sched3 \<and> (\<exists>s'. create_process 0x3FDFFF0 0x400 sched3 = Some (Some 0, s') \<and>
     active s' = [Some 0, Some 1, Some 2, Some 3])"
proof -
  have "task_count sched3 = 3"
    by (simp add: sched3_def sched0_def add_tasks_def add_task_def is_privileged_def get_operating_mode_def
      CPSR_MODE_SVC_def ring_buffer_insert_def ring_buffer_remove_def init_task_def Let_def)
  moreover have "length (run_queue sched3) < 15"
    using arg_cong [OF active_sched3, of length] by (simp add: active_def)
  moreover have "sched_inv sched3" using running_sched3 by (simp add: running_def)
  ultimately show ?thesis
    using create_process_adds_task [of sched3 "0x3FDFFF0" "0x400"] by (auto simp: active_sched3)
qed

theorem create_process_swallows_error_witness:
  "\<exists>s'. create_process 0x3FDFFF0 0x400 (sched0\<lparr>task_count := 16\<rparr>) = Some (Some 0, s') \<and> errno s' = ETOOMANYTASKS"
proof -
  have "sched_inv (sched0\<lparr>task_count := 16\<rparr>)"
    by (simp add: sched0_def sched_inv_def sched_ok_def active_def run_queue_def ring_list_def ring_length_def)
  with create_process_swallows_error [of "sched0\<lparr>task_count := 16\<rparr>" "0x3FDFFF0" "0x400"] show ?thesis by auto
qed

theorem syscall_unknown_witness:
  "\<exists>str. syscall (syscall_no EXIT) 0 sched0 = Some (Some (- 1), sched0\<lparr>errno := 4, console := str\<rparr>)"
  using syscall_unknown [of "syscall_no EXIT" 0 sched0] by (simp add: EINVALIDSYSCALLNO_def sched0_def)

end
