(* ===== verification/Network_Io.thy ===== *)
theory Network_Io
  imports Syscall
begin

text \<open>
  Byte order: \<^verbatim>\<open>kernel/network/network_io.c\<close>, and the hardware addresses of \<^verbatim>\<open>kernel/network/ethernet.h\<close>.
  Each conversion asks the board's configuration register for the endianness, so it takes and returns
  the state. The interface \<open>byte_order\<close> has what the protocol code relies on.
\<close>

section \<open>Hardware addresses\<close>

text \<open>\<^verbatim>\<open>mac_address_t\<close>: six bytes.\<close>

type_synonym mac_address_t = "u8 list"

definition ETH_MAC_ADDRESS_LENGTH :: nat where [simp]: "ETH_MAC_ADDRESS_LENGTH = 6"
definition NULL_MAC :: mac_address_t where "NULL_MAC = replicate 6 0"
definition BROADCAST_MAC :: mac_address_t where "BROADCAST_MAC = replicate 6 0xff"

fun mac_equal_loop :: "mac_address_t \<Rightarrow> mac_address_t \<Rightarrow> nat \<Rightarrow> nat \<Rightarrow> bool" where
  "mac_equal_loop mac1 mac2 i 0 = True"
| "mac_equal_loop mac1 mac2 i (Suc n) =
     (if mac1 ! i \<noteq> mac2 ! i then False else mac_equal_loop mac1 mac2 (Suc i) n)"

definition mac_address_equal :: "mac_address_t \<Rightarrow> mac_address_t \<Rightarrow> bool" where
  "mac_address_equal mac1 mac2 = mac_equal_loop mac1 mac2 0 ETH_MAC_ADDRESS_LENGTH"

section \<open>kernel/network/network_io.c\<close>

definition SYS_CFGDATA2 :: addr where [const_defs]: "SYS_CFGDATA2 = 0x1000002C"

definition is_big_endian :: "device \<Rightarrow> 's io_state_scheme \<Rightarrow> bool \<times> 's io_state_scheme" where
  "is_big_endian dev s = (let (v, s) = read32 dev SYS_CFGDATA2 s in (v AND push_bit 1 1 \<noteq> 0, s))"

text \<open>The compiler's byte swaps.\<close>

definition bswap32 :: "u32 \<Rightarrow> u32" where
  "bswap32 v = push_bit 24 (v AND 0xff) OR push_bit 8 (v AND 0xff00) OR
     drop_bit 8 (v AND 0xff0000) OR drop_bit 24 v"

definition bswap16 :: "u16 \<Rightarrow> u16" where
  "bswap16 v = push_bit 8 v OR drop_bit 8 v"

definition htonl :: "device \<Rightarrow> u32 \<Rightarrow> 's io_state_scheme \<Rightarrow> u32 \<times> 's io_state_scheme" where
  "htonl dev hostlong s =
     (let (big, s) = is_big_endian dev s in if big then (hostlong, s) else (bswap32 hostlong, s))"

definition htons :: "device \<Rightarrow> u16 \<Rightarrow> 's io_state_scheme \<Rightarrow> u16 \<times> 's io_state_scheme" where
  "htons dev hostshort s =
     (let (big, s) = is_big_endian dev s in if big then (hostshort, s) else (bswap16 hostshort, s))"

definition ntohl :: "device \<Rightarrow> u32 \<Rightarrow> 's io_state_scheme \<Rightarrow> u32 \<times> 's io_state_scheme" where
  "ntohl dev netlong s =
     (let (big, s) = is_big_endian dev s in if big then (netlong, s) else (bswap32 netlong, s))"

definition ntohs :: "device \<Rightarrow> u16 \<Rightarrow> 's io_state_scheme \<Rightarrow> u16 \<times> 's io_state_scheme" where
  "ntohs dev netshort s =
     (let (big, s) = is_big_endian dev s in if big then (netshort, s) else (bswap16 netshort, s))"

text \<open>The loop \<^verbatim>\<open>new.address[5 - i] = mac.address[i]\<close>; every byte of \<^verbatim>\<open>new\<close> is written.\<close>

definition reverse_mac :: "mac_address_t \<Rightarrow> mac_address_t" where
  "reverse_mac mac = fold (\<lambda>i new. new[5 - i := mac ! i]) [0..<6] NULL_MAC"

definition hton_mac :: "device \<Rightarrow> mac_address_t \<Rightarrow> 's io_state_scheme \<Rightarrow> mac_address_t \<times> 's io_state_scheme" where
  "hton_mac dev mac s =
     (let (big, s) = is_big_endian dev s in if big then (mac, s) else (reverse_mac mac, s))"

definition ntoh_mac :: "device \<Rightarrow> mac_address_t \<Rightarrow> 's io_state_scheme \<Rightarrow> mac_address_t \<times> 's io_state_scheme" where
  "ntoh_mac dev mac s =
     (let (big, s) = is_big_endian dev s in if big then (mac, s) else (reverse_mac mac, s))"

section \<open>What the conversions do\<close>

lemma mac_equal_loop_iff:
  "mac_equal_loop a b i n \<longleftrightarrow> (\<forall>k < n. a ! (i + k) = b ! (i + k))"
proof (induction n arbitrary: i)
  case (Suc n)
  then show ?case by (auto simp: less_Suc_eq_0_disj)
qed simp

lemma mac_address_equal_iff:
  "length a = 6 \<Longrightarrow> length b = 6 \<Longrightarrow> mac_address_equal a b \<longleftrightarrow> a = b"
  by (auto simp: mac_address_equal_def mac_equal_loop_iff intro: nth_equalityI)

lemma length_macs [simp]: "length NULL_MAC = 6" "length BROADCAST_MAC = 6"
  by (simp_all add: NULL_MAC_def BROADCAST_MAC_def)

lemma list6_cases:
  assumes "length xs = 6"
  obtains a b c d e f where "xs = [a, b, c, d, e, f]"
  using assms by (auto simp: numeral_eq_Suc length_Suc_conv)

lemma reverse_mac_rev: "length mac = 6 \<Longrightarrow> reverse_mac mac = rev mac"
  by (erule list6_cases) (simp add: reverse_mac_def NULL_MAC_def upt_rec numeral_eq_Suc)

lemma bswap32_bytes:
  "byte_of (bswap32 v) 0 = byte_of v 3" "byte_of (bswap32 v) 1 = byte_of v 2"
  "byte_of (bswap32 v) 2 = byte_of v 1" "byte_of (bswap32 v) 3 = byte_of v 0"
proof -
  have top: "\<not> bit v n" if "32 \<le> n" for n using that by (auto dest: bit_imp_le_length)
  show "byte_of (bswap32 v) 0 = byte_of v 3"
    by (rule word8_eqI) (auto simp: bit_byte_of bswap32_def bit_simps dest!: nat_less_8_cases)
  show "byte_of (bswap32 v) 1 = byte_of v 2"
    by (rule word8_eqI) (auto simp: bit_byte_of bswap32_def bit_simps top dest!: nat_less_8_cases)
  show "byte_of (bswap32 v) 2 = byte_of v 1"
    by (rule word8_eqI) (auto simp: bit_byte_of bswap32_def bit_simps top dest!: nat_less_8_cases)
  show "byte_of (bswap32 v) 3 = byte_of v 0"
    by (rule word8_eqI) (auto simp: bit_byte_of bswap32_def bit_simps top dest!: nat_less_8_cases)
qed

lemma bswap16_bytes: "byte_of (bswap16 v) 0 = byte_of v 1" "byte_of (bswap16 v) 1 = byte_of v 0"
proof -
  have top: "\<not> bit v n" if "16 \<le> n" for n using that by (auto dest: bit_imp_le_length)
  show "byte_of (bswap16 v) 0 = byte_of v 1"
    by (rule word8_eqI) (auto simp: bit_byte_of bswap16_def bit_simps dest!: nat_less_8_cases)
  show "byte_of (bswap16 v) 1 = byte_of v 0"
    by (rule word8_eqI) (auto simp: bit_byte_of bswap16_def bit_simps top dest!: nat_less_8_cases)
qed

text \<open>A word is its bytes.\<close>

lemma word_bytes_eqI:
  assumes "\<And>i. 8 * i < LENGTH('a) \<Longrightarrow> byte_of (v :: 'a::len word) i = byte_of w i"
  shows "v = w"
proof (rule bit_word_eqI)
  fix n assume "n < LENGTH('a)"
  then have "8 * (n div 8) < LENGTH('a)" by simp
  then have "bit (byte_of v (n div 8)) (n mod 8) = bit (byte_of w (n div 8)) (n mod 8)" using assms by simp
  then show "bit v n = bit w n" by (simp add: bit_byte_of)
qed

lemma bswap32_bswap32 [simp]: "bswap32 (bswap32 v) = v"
proof (rule word_bytes_eqI)
  fix i :: nat assume "8 * i < LENGTH(32)"
  then consider "i = 0" | "i = 1" | "i = 2" | "i = 3" by (simp, linarith)
  then show "byte_of (bswap32 (bswap32 v)) i = byte_of v i" by cases (simp_all only: bswap32_bytes)
qed

lemma bswap16_bswap16 [simp]: "bswap16 (bswap16 v) = v"
proof (rule word_bytes_eqI)
  fix i :: nat assume "8 * i < LENGTH(16)"
  then consider "i = 0" | "i = 1" by (simp, linarith)
  then show "byte_of (bswap16 (bswap16 v)) i = byte_of v i" by cases (simp_all only: bswap16_bytes)
qed

section \<open>The interface of the byte order\<close>

text \<open>
  A board has one byte order: bit 1 of the configuration register, whatever has happened on the bus. It
  is the documented behaviour of the register; the conversions are then values of pure functions.
\<close>

definition has_byte_order :: "device \<Rightarrow> bool \<Rightarrow> bool" where
  "has_byte_order dev big \<longleftrightarrow> (\<forall>h. bit (dev h 4 SYS_CFGDATA2) 1 = big)"

locale byte_order =
  fixes swap :: "bool \<Rightarrow> 'a \<Rightarrow> 'a"
    and valid :: "'a \<Rightarrow> bool"
    and octets :: "'a \<Rightarrow> u8 list"
  assumes swap_swap: "valid x \<Longrightarrow> swap big (swap big x) = x"
    and valid_swap: "valid x \<Longrightarrow> valid (swap big x)"
    and octets_swap: "valid x \<Longrightarrow> octets (swap False x) = rev (octets x)"
    and octets_inj: "valid x \<Longrightarrow> valid y \<Longrightarrow> octets x = octets y \<Longrightarrow> x = y"
begin

lemma swap_inj: "valid x \<Longrightarrow> valid y \<Longrightarrow> swap big x = swap big y \<Longrightarrow> x = y"
  using swap_swap by metis

text \<open>The value whose image in memory is given, most significant octet first.\<close>

lemma swap_octets: "valid x \<Longrightarrow> valid y \<Longrightarrow> octets y = rev (octets x) \<longleftrightarrow> swap False x = y"
  using octets_swap octets_inj valid_swap by metis

end

definition swap32 :: "bool \<Rightarrow> u32 \<Rightarrow> u32" where
  "swap32 big v = (if big then v else bswap32 v)"

definition swap16 :: "bool \<Rightarrow> u16 \<Rightarrow> u16" where
  "swap16 big v = (if big then v else bswap16 v)"

definition swap_mac :: "bool \<Rightarrow> mac_address_t \<Rightarrow> mac_address_t" where
  "swap_mac big mac = (if big then mac else reverse_mac mac)"

definition octets32 :: "u32 \<Rightarrow> u8 list" where
  "octets32 v = [byte_of v 0, byte_of v 1, byte_of v 2, byte_of v 3]"

definition octets16 :: "u16 \<Rightarrow> u8 list" where
  "octets16 v = [byte_of v 0, byte_of v 1]"

interpretation net32: byte_order swap32 "\<lambda>_. True" octets32
proof
  fix x y :: u32 and big
  show "swap32 big (swap32 big x) = x" by (simp add: swap32_def)
  show "octets32 (swap32 False x) = rev (octets32 x)"
    by (simp add: octets32_def swap32_def bswap32_bytes bswap32_bytes(2) [simplified])
  assume "octets32 x = octets32 y"
  then have "byte_of x i = byte_of y i" if "i < 4" for i
    using nat_less_4_cases [OF that] by (elim disjE) (simp_all add: octets32_def)
  then show "x = y" by (rule word_bytes_eqI) simp
qed simp

interpretation net16: byte_order swap16 "\<lambda>_. True" octets16
proof
  fix x y :: u16 and big
  show "swap16 big (swap16 big x) = x" by (simp add: swap16_def)
  show "octets16 (swap16 False x) = rev (octets16 x)"
    by (simp add: octets16_def swap16_def bswap16_bytes bswap16_bytes(2) [simplified])
  assume "octets16 x = octets16 y"
  then have "byte_of x i = byte_of y i" if "i < 2" for i
    using that less_2_cases [OF that] by (elim disjE) (simp_all add: octets16_def)
  then show "x = y" by (rule word_bytes_eqI) simp
qed simp

interpretation net_mac: byte_order swap_mac "\<lambda>mac. length mac = 6" "\<lambda>mac. mac"
  by unfold_locales (auto simp: swap_mac_def reverse_mac_rev)

lemma is_big_endian_value:
  assumes "has_byte_order dev big"
  shows "\<exists>h. is_big_endian dev s = (big, s\<lparr>io := h # io s\<rparr>)"
proof -
  have "(ucast (take_bit 32 (dev (io s) 4 SYS_CFGDATA2)) :: u32) AND push_bit 1 1 \<noteq> 0 \<longleftrightarrow> big"
  proof -
    have "bit (dev (io s) 4 SYS_CFGDATA2) 1 = big" using assms by (simp add: has_byte_order_def)
    then have "bit (ucast (take_bit 32 (dev (io s) 4 SYS_CFGDATA2)) :: u32) 1 = big" by (simp add: bit_simps)
    moreover have "v AND push_bit 1 1 \<noteq> 0 \<longleftrightarrow> bit v 1" for v :: u32
      using and_exp_eq_0_iff_not_bit [of v 1] by (simp add: push_bit_eq_mult)
    ultimately show ?thesis by blast
  qed
  then show ?thesis by (auto simp: is_big_endian_def read32_def bus_read_def Let_def)
qed


lemma conversions:
  assumes "has_byte_order dev big"
  shows "\<exists>e. htonl dev v s = (swap32 big v, s\<lparr>io := e # io s\<rparr>)" "\<exists>e. ntohl dev v s = (swap32 big v, s\<lparr>io := e # io s\<rparr>)"
    "\<exists>e. htons dev w s = (swap16 big w, s\<lparr>io := e # io s\<rparr>)" "\<exists>e. ntohs dev w s = (swap16 big w, s\<lparr>io := e # io s\<rparr>)"
    "\<exists>e. hton_mac dev mac s = (swap_mac big mac, s\<lparr>io := e # io s\<rparr>)"
    "\<exists>e. ntoh_mac dev mac s = (swap_mac big mac, s\<lparr>io := e # io s\<rparr>)"
  using is_big_endian_value [OF assms, of s]
  by (auto simp: htonl_def ntohl_def htons_def ntohs_def hton_mac_def ntoh_mac_def swap32_def swap16_def swap_mac_def)

lemma fst_conversions:
  assumes "has_byte_order dev big"
  shows "fst (htonl dev v s) = swap32 big v" "fst (ntohl dev v s) = swap32 big v"
    "fst (htons dev w s) = swap16 big w" "fst (ntohs dev w s) = swap16 big w"
    "fst (hton_mac dev mac s) = swap_mac big mac" "fst (ntoh_mac dev mac s) = swap_mac big mac"
  using conversions(1,2) [OF assms, of v s] conversions(3,4) [OF assms, of w s] conversions(5,6) [OF assms, of mac s] by auto

text \<open>Octets of a word in memory, for any width.\<close>

lemma load_bytes_store32: "load_bytes (store32 m a v) a 4 = octets32 v"
proof (rule nth_equalityI)
  fix i assume "i < length (load_bytes (store32 m a v) a 4)"
  then have "i < 4" by simp
  then have "load_bytes (store32 m a v) a 4 ! i = byte_of v i"
    by (simp add: store32_def store_le_def unat_of_nat_small)
  then show "load_bytes (store32 m a v) a 4 ! i = octets32 v ! i"
    using nat_less_4_cases [OF \<open>i < 4\<close>] by (elim disjE) (simp_all add: octets32_def)
qed (simp add: octets32_def)

text \<open>
  Property: host and network byte order convert back and forth without loss, for 16-bit and 32-bit
  values and hardware addresses, on a board of either byte order.
\<close>

theorem network_order_round_trip:
  assumes "has_byte_order dev big" "length mac = 6"
  shows "fst (ntohl dev (fst (htonl dev v s)) s') = v \<and> fst (ntohs dev (fst (htons dev w s)) s') = w \<and>
    fst (ntoh_mac dev (fst (hton_mac dev mac s)) s') = mac"
  using assms(2) by (simp add: fst_conversions [OF assms(1)] net32.swap_swap net16.swap_swap net_mac.swap_swap)

text \<open>A little-endian board: the configuration register reads as zero.\<close>

lemma zero_device_order: "has_byte_order (\<lambda>_ _ _. 0) False"
  by (simp add: has_byte_order_def)

theorem network_order_round_trip_witness:
  "fst (ntohl (\<lambda>_ _ _. 0) (fst (htonl (\<lambda>_ _ _. 0) 0x0A00020A io0)) io0) = 0x0A00020A \<and>
   fst (htonl (\<lambda>_ _ _. 0) 0x0A00020A io0) = 0x0A02000A"
proof -
  have "fst (htonl (\<lambda>_ _ _. 0) 0x0A00020A io0) = 0x0A02000A" by code_simp
  with network_order_round_trip [OF zero_device_order, of NULL_MAC "0x0A00020A" io0 io0 0] show ?thesis by simp
qed

text \<open>
  Property: on a little-endian board \<^verbatim>\<open>htonl\<close> puts a number into memory in network byte order: the
  most significant byte first.
\<close>

theorem htonl_memory_image:
  assumes "has_byte_order dev False"
  shows "load_bytes (store32 m a (fst (htonl dev v s))) a 4 = [byte_of v 3, byte_of v 2, byte_of v 1, byte_of v 0]"
  by (simp add: fst_conversions [OF assms] load_bytes_store32 net32.octets_swap) (simp add: octets32_def)

theorem htonl_memory_image_witness:
  "load_bytes (store32 (\<lambda>_. 0) 0x100 (fst (htonl (\<lambda>_ _ _. 0) 0x0A00020A io0))) 0x100 4 = [10, 0, 2, 10]"
proof -
  have "[byte_of (0x0A00020A :: u32) 3, byte_of (0x0A00020A :: u32) 2, byte_of (0x0A00020A :: u32) 1,
      byte_of (0x0A00020A :: u32) 0] = [10, 0, 2, 10]" by code_simp
  with htonl_memory_image [OF zero_device_order, of "\<lambda>_. 0" "0x100" "0x0A00020A" io0] show ?thesis by simp
qed

end
