(* ===== verification/Pci.thy ===== *)
theory Pci
  imports Network_Io
begin

text \<open>
  The PCI bus: \<^verbatim>\<open>kernel/pci/pci.c\<close>. The table \<^verbatim>\<open>pci_devices\<close> is a list of 21 records; a
  \<^verbatim>\<open>pci_device_t *\<close> is \<open>None\<close> or the index of an entry. The configuration space is on the device bus.
\<close>

section \<open>State\<close>

record pci_device_t =
  config_base :: u32
  pci_mem_base :: u32
  pci_io_base :: u32
  pci_slot_id :: u8
  vendor_id :: u16
  device_id :: u16

record pci_state = sched_state +
  pci_devices :: "pci_device_t list"

definition PCI_SELF_CONFIG :: addr where [const_defs]: "PCI_SELF_CONFIG = 0x41000000"
definition PCI_CONFIG :: addr where [const_defs]: "PCI_CONFIG = 0x42000000"
definition PCI_DEVICE_BIT_OFFSET :: nat where [const_defs]: "PCI_DEVICE_BIT_OFFSET = 11"
definition PCI_VENDOR_ID :: u32 where [const_defs]: "PCI_VENDOR_ID = 0x00"
definition PCI_DEVICE_ID :: u32 where [const_defs]: "PCI_DEVICE_ID = 0x02"
definition PCI_COMMAND :: u32 where [const_defs]: "PCI_COMMAND = 0x04"
definition PCI_COMMAND_IO :: "'a::len word" where "PCI_COMMAND_IO = 0x1"
definition PCI_COMMAND_MEMORY :: "'a::len word" where "PCI_COMMAND_MEMORY = 0x2"
definition PCI_COMMAND_MASTER :: "'a::len word" where "PCI_COMMAND_MASTER = 0x4"
definition PCI_COMMAND_INVALIDATE :: "'a::len word" where "PCI_COMMAND_INVALIDATE = 0x10"
definition PCI_CLASS_REVISION :: u32 where [const_defs]: "PCI_CLASS_REVISION = 0x08"
definition PCI_BASE_ADDRESS_0 :: u32 where "PCI_BASE_ADDRESS_0 = 0x10"
definition PCI_BAR :: "u8 \<Rightarrow> u32" where "PCI_BAR x = PCI_BASE_ADDRESS_0 + ucast x * 4"
definition PCI_IMAP0 :: addr where "PCI_IMAP0 = 0x10001000"
definition PCI_IMAP1 :: addr where "PCI_IMAP1 = 0x10001004"
definition PCI_IMAP2 :: addr where "PCI_IMAP2 = 0x10001008"
definition PCI_SELFID :: addr where "PCI_SELFID = 0x1000100C"
definition MAX_PCI_DEVICES :: nat where [simp]: "MAX_PCI_DEVICES = 21"
definition VP_PCI_DEV_ID :: u32 where "VP_PCI_DEV_ID = 0x030010ee"
definition VP_PCI_CLASS_ID :: u32 where "VP_PCI_CLASS_ID = 0x0b400000"
definition PCI_INVALID_VENDOR :: u16 where "PCI_INVALID_VENDOR = 0xFFFF"

section \<open>Operations\<close>

definition pci_enable_bus_mastering :: "device \<Rightarrow> addr \<Rightarrow> 's io_state_scheme \<Rightarrow> 's io_state_scheme" where
  "pci_enable_bus_mastering dev address s =
     (let (val, s) = read16 dev (address + PCI_COMMAND) s
      in write16 (address + PCI_COMMAND) (val OR (PCI_COMMAND_MASTER OR PCI_COMMAND_IO OR PCI_COMMAND_MEMORY)) s)"

definition get_bar_type :: "device \<Rightarrow> addr \<Rightarrow> u8 \<Rightarrow> 's io_state_scheme \<Rightarrow> u8 \<times> 's io_state_scheme" where
  "get_bar_type dev base number s =
     (let (v, s) = read32 dev (base + PCI_BAR number) s in (ucast (v AND 1), s))"

definition get_bar_size :: "device \<Rightarrow> addr \<Rightarrow> u8 \<Rightarrow> 's io_state_scheme \<Rightarrow> u32 \<times> 's io_state_scheme" where
  "get_bar_size dev base number s =
     (let bar_addr = base + PCI_BAR number;
          (before, s) = read32 dev bar_addr s;
          s = write32 bar_addr 0xFFFFFFFF s;
          (encoded_size, s) = read32 dev bar_addr s;
          s = write32 bar_addr before s;
          bit_mask = (if before AND 1 \<noteq> 0 then 0xFFFFFFFC else 0xFFFFFFF0);
          decoded_size = NOT (encoded_size AND bit_mask) + 1
      in (decoded_size, s))"

definition pci_alloc_memory ::
  "device \<Rightarrow> pci_device_t \<Rightarrow> u8 \<Rightarrow> 's io_state_scheme \<Rightarrow> u32 \<times> 's io_state_scheme" where
  "pci_alloc_memory dev device bar s =
     (let (type, s) = get_bar_type dev (config_base device) bar s;
          address = (if type \<noteq> 0 then 0x43000000 else 0x50000000)
      in (address, write32 (config_base device + PCI_BAR bar) address s))"

text \<open>The bodies of the loops over the slots 11 to 31.\<close>

definition slot_addr :: "addr \<Rightarrow> nat \<Rightarrow> addr" where
  "slot_addr base i = base + push_bit PCI_DEVICE_BIT_OFFSET (of_nat i)"

definition enumerate_slot :: "device \<Rightarrow> nat \<Rightarrow> 's pci_state_scheme \<Rightarrow> 's pci_state_scheme" where
  "enumerate_slot dev i s =
     (let device_addr = slot_addr PCI_CONFIG i;
          (vendor, s) = read16 dev (device_addr + PCI_VENDOR_ID) s;
          (device, s) = read16 dev (device_addr + PCI_DEVICE_ID) s
      in if vendor = PCI_INVALID_VENDOR then s
         else s\<lparr>pci_devices := (pci_devices s)[i - 11 := (pci_devices s ! (i - 11))
           \<lparr>config_base := device_addr, pci_slot_id := of_nat i, vendor_id := vendor, device_id := device\<rparr>]\<rparr>)"

definition enumerate_pci_devices :: "device \<Rightarrow> 's pci_state_scheme \<Rightarrow> 's pci_state_scheme" where
  "enumerate_pci_devices dev s = fold (enumerate_slot dev) [11..<32] s"

text \<open>The search for the board's own slot; the second register is read only when the first matches.\<close>

fun find_self :: "device \<Rightarrow> nat list \<Rightarrow> 's io_state_scheme \<Rightarrow> u8 \<times> 's io_state_scheme" where
  "find_self dev [] s = (0, s)"
| "find_self dev (i # is) s =
     (let (id, s) = read32 dev (slot_addr PCI_SELF_CONFIG i + PCI_VENDOR_ID) s
      in if id = VP_PCI_DEV_ID then
           (let (cls, s) = read32 dev (slot_addr PCI_SELF_CONFIG i + PCI_CLASS_REVISION) s
            in if cls = VP_PCI_CLASS_ID then (of_nat i, s) else find_self dev is s)
         else find_self dev is s)"

definition configure_board :: "device \<Rightarrow> 's time_state_scheme \<Rightarrow> (int \<times> 's time_state_scheme) option" where
  "configure_board dev s =
     (let s = write32 PCI_IMAP0 (drop_bit 28 0x44000000) s;
          s = write32 PCI_IMAP1 (drop_bit 28 0x50000000) s;
          s = write32 PCI_IMAP2 (drop_bit 28 0x60000000) s;
          (slot, s) = find_self dev [11..<32] s
      in if slot = 0 then
           map_option (\<lambda>s. (- 1, s)) (LOG_ERROR ''kernel/pci/pci.c'' ''Cannot find PCI core!'' [] s)
         else
           (let pci_config_base = PCI_CONFIG + push_bit PCI_DEVICE_BIT_OFFSET (ucast slot);
                s = write32 PCI_SELFID (ucast slot) s;
                (val, s) = read32 dev (pci_config_base + PCI_COMMAND) s;
                s = write32 (pci_config_base + PCI_COMMAND) (val OR (PCI_COMMAND_MEMORY OR PCI_COMMAND_MASTER OR PCI_COMMAND_INVALIDATE)) s
            in Some (0, s)))"

fun pci_get_device_loop :: "u16 \<Rightarrow> u16 \<Rightarrow> pci_device_t list \<Rightarrow> nat \<Rightarrow> nat \<Rightarrow> nat option" where
  "pci_get_device_loop vendor device ds i 0 = None"
| "pci_get_device_loop vendor device ds i (Suc n) =
     (if vendor_id (ds ! i) = vendor \<and> device_id (ds ! i) = device then Some i
      else pci_get_device_loop vendor device ds (Suc i) n)"

definition pci_get_device :: "u16 \<Rightarrow> u16 \<Rightarrow> 's pci_state_scheme \<Rightarrow> nat option" where
  "pci_get_device vendor device s = pci_get_device_loop vendor device (pci_devices s) 0 MAX_PCI_DEVICES"

definition pci_init :: "device \<Rightarrow> 's pci_state_scheme \<Rightarrow> 's pci_state_scheme option" where
  "pci_init dev s =
     (case configure_board dev s of None \<Rightarrow> None | Some (_, s) \<Rightarrow> Some (enumerate_pci_devices dev s))"

section \<open>Enumeration\<close>

text \<open>
  A configuration space that does not change: in slot \<open>i\<close> the vendor and device registers read as
  \<open>vendor i\<close> and \<open>device i\<close>.
\<close>

definition config_space :: "device \<Rightarrow> (nat \<Rightarrow> u16) \<Rightarrow> (nat \<Rightarrow> u16) \<Rightarrow> bool" where
  "config_space dev vendor device \<longleftrightarrow> (\<forall>h. \<forall>i \<in> {11..<32}.
     take_bit 16 (dev h 2 (slot_addr PCI_CONFIG i)) = ucast (vendor i) \<and>
     take_bit 16 (dev h 2 (slot_addr PCI_CONFIG i + 2)) = ucast (device i))"

definition pci_entry :: "(nat \<Rightarrow> u16) \<Rightarrow> (nat \<Rightarrow> u16) \<Rightarrow> nat \<Rightarrow> pci_device_t \<Rightarrow> pci_device_t" where
  "pci_entry vendor device i e =
     (if vendor i = PCI_INVALID_VENDOR then e
      else e\<lparr>config_base := slot_addr PCI_CONFIG i, pci_slot_id := of_nat i,
             vendor_id := vendor i, device_id := device i\<rparr>)"

lemma ucast_ucast_16: "(ucast (ucast (v :: u16) :: u64) :: u16) = v"
  by (rule bit_word_eqI) (simp add: bit_simps)

lemma enumerate_slot_entry:
  assumes "config_space dev vendor device" "i \<in> {11..<32}" "length (pci_devices s) = 21"
  shows "\<exists>h. enumerate_slot dev i s = s\<lparr>io := h @ io s, pci_devices :=
    (pci_devices s)[i - 11 := pci_entry vendor device i (pci_devices s ! (i - 11))]\<rparr>"
proof -
  have v: "take_bit 16 (dev h 2 (slot_addr PCI_CONFIG i)) = ucast (vendor i)"
    and d: "take_bit 16 (dev h 2 (slot_addr PCI_CONFIG i + 2)) = ucast (device i)" for h
    using assms(1,2) by (auto simp: config_space_def)
  have len: "i - 11 < length (pci_devices s)" using assms(2,3) by auto
  show ?thesis
    by (rule exI [of _ "[In 2 (slot_addr PCI_CONFIG i + 2) (ucast (device i)), In 2 (slot_addr PCI_CONFIG i) (ucast (vendor i))]"])
      (use len in \<open>simp add: enumerate_slot_def read16_def bus_read_def Let_def const_defs v [unfolded const_defs]
         d [unfolded const_defs] ucast_ucast_16 pci_entry_def list_update_id\<close>)
qed

lemma enumerate_fold:
  assumes "config_space dev vendor device" "length (pci_devices s) = 21" "n \<le> 21"
  shows "\<exists>h ds. fold (enumerate_slot dev) [11..<11 + n] s = s\<lparr>io := h @ io s, pci_devices := ds\<rparr> \<and> length ds = 21 \<and>
    (\<forall>j < 21. ds ! j = (if j < n then pci_entry vendor device (j + 11) (pci_devices s ! j) else pci_devices s ! j))"
  using assms(3)
proof (induction n)
  case 0
  show ?case using assms(2) by (intro exI [of _ "[]"] exI [of _ "pci_devices s"]) simp
next
  case (Suc n)
  then obtain h ds where IH: "fold (enumerate_slot dev) [11..<11 + n] s = s\<lparr>io := h @ io s, pci_devices := ds\<rparr>"
    "length ds = 21" "\<And>j. j < 21 \<Longrightarrow> ds ! j =
      (if j < n then pci_entry vendor device (j + 11) (pci_devices s ! j) else pci_devices s ! j)" by auto
  let ?t = "s\<lparr>io := h @ io s, pci_devices := ds\<rparr>"
  obtain h' where "enumerate_slot dev (11 + n) ?t = ?t\<lparr>io := h' @ io ?t, pci_devices :=
      (pci_devices ?t)[11 + n - 11 := pci_entry vendor device (11 + n) (pci_devices ?t ! (11 + n - 11))]\<rparr>"
    using enumerate_slot_entry [OF assms(1), of "11 + n" ?t] Suc.prems IH(2) by auto
  moreover have "[11..<11 + Suc n] = [11..<11 + n] @ [11 + n]" by (simp only: add_Suc_right upt_Suc) simp
  ultimately have "fold (enumerate_slot dev) [11..<11 + Suc n] s = s\<lparr>io := (h' @ h) @ io s,
      pci_devices := ds[n := pci_entry vendor device (n + 11) (pci_devices s ! n)]\<rparr>"
    using IH(1) IH(3) [of n] Suc.prems by (simp add: add.commute del: upt_Suc)
  then show ?case using IH(2,3) Suc.prems
    by (intro exI [of _ "h' @ h"] exI [of _ "ds[n := pci_entry vendor device (n + 11) (pci_devices s ! n)]"])
      (auto simp: nth_list_update less_Suc_eq)
qed

lemma pci_get_device_loop_iff:
  "pci_get_device_loop vendor device ds i n = Some j \<longleftrightarrow>
   i \<le> j \<and> j < i + n \<and> vendor_id (ds ! j) = vendor \<and> device_id (ds ! j) = device \<and>
   (\<forall>k. i \<le> k \<and> k < j \<longrightarrow> \<not> (vendor_id (ds ! k) = vendor \<and> device_id (ds ! k) = device))"
proof (induction n arbitrary: i)
  case 0
  then show ?case by auto
next
  case (Suc n)
  show ?case
  proof (cases "vendor_id (ds ! i) = vendor \<and> device_id (ds ! i) = device")
    case True
    then show ?thesis using le_eq_less_or_eq by auto
  next
    case False
    have "i \<le> k \<longleftrightarrow> k = i \<or> Suc i \<le> k" for k by linarith
    with False Suc [of "Suc i"] show ?thesis by auto
  qed
qed


lemma enumerate_finds:
  assumes "config_space dev vendor device" "length (pci_devices s) = 21"
    and "\<forall>e \<in> set (pci_devices s). vendor_id e = 0"
    and "i \<in> {11..<32}" "vendor i = v" "device i = d" "v \<noteq> PCI_INVALID_VENDOR" "v \<noteq> 0"
    and "\<forall>j \<in> {11..<32}. vendor j = v \<and> device j = d \<longrightarrow> j = i"
  shows "pci_get_device v d (enumerate_pci_devices dev s) = Some (i - 11) \<and>
    config_base (pci_devices (enumerate_pci_devices dev s) ! (i - 11)) = slot_addr PCI_CONFIG i \<and>
    (\<forall>j \<in> {11..<32}. vendor j = PCI_INVALID_VENDOR \<longrightarrow>
       pci_devices (enumerate_pci_devices dev s) ! (j - 11) = pci_devices s ! (j - 11))"
proof -
  obtain h ds where e: "enumerate_pci_devices dev s = s\<lparr>io := h @ io s, pci_devices := ds\<rparr>"
    and ds: "\<And>j. j < 21 \<Longrightarrow> ds ! j = pci_entry vendor device (j + 11) (pci_devices s ! j)"
    using enumerate_fold [OF assms(1,2), of 21] by (auto simp: enumerate_pci_devices_def)
  have ent: "ds ! (i - 11) = pci_entry vendor device i (pci_devices s ! (i - 11))"
    using ds [of "i - 11"] assms(4) by auto
  have other: "\<not> (vendor_id (ds ! k) = v \<and> device_id (ds ! k) = d)" if "k < i - 11" for k
  proof
    assume k: "vendor_id (ds ! k) = v \<and> device_id (ds ! k) = d"
    have k21: "k < 21" using that assms(4) by auto
    then have "vendor_id (pci_devices s ! k) = 0" using assms(2,3) by simp
    then have "vendor (k + 11) = v \<and> device (k + 11) = d"
      using k ds [OF k21] assms(7,8) by (auto simp: pci_entry_def split: if_splits)
    then have "k + 11 = i" using assms(9) k21 by auto
    with that show False by simp
  qed
  have "pci_get_device v d (enumerate_pci_devices dev s) = Some (i - 11)"
    using assms(4-7) other by (auto simp: pci_get_device_def e pci_get_device_loop_iff ent pci_entry_def)
  moreover have "config_base (ds ! (i - 11)) = slot_addr PCI_CONFIG i"
    using assms(5,7) by (simp add: ent pci_entry_def)
  moreover have "ds ! (j - 11) = pci_devices s ! (j - 11)" if "j \<in> {11..<32}" "vendor j = PCI_INVALID_VENDOR" for j
    using ds [of "j - 11"] that by (auto simp: pci_entry_def)
  ultimately show ?thesis by (simp add: e)
qed


text \<open>
  Property: the size of a base address register. A register that reads back the negated size after all
  ones are written (its type bits aside) gives that size, and the old value is written back last.
\<close>

theorem get_bar_size_decodes:
  fixes dev :: device and before bit_mask sz :: u32
  assumes "before = ucast (take_bit 32 (dev (io s) 4 bar_addr))" "bar_addr = base + PCI_BAR number"
    and "bit_mask = (if before AND 1 \<noteq> 0 then 0xFFFFFFFC else 0xFFFFFFF0)"
    and "\<forall>h. ucast (take_bit 32 (dev (Out 4 bar_addr 0xFFFFFFFF # h) 4 bar_addr)) AND bit_mask = - sz"
  shows "\<exists>h. get_bar_size dev base number s = (sz, s\<lparr>io := Out 4 bar_addr (ucast before) # h @ io s\<rparr>)"
proof -
  have neg: "NOT v + 1 = - v" for v :: u32 by (simp add: not_eq_complement)
  have "\<exists>a b c. get_bar_size dev base number s = (sz, s\<lparr>io := Out 4 bar_addr (ucast before) # [a, b, c] @ io s\<rparr>)"
    using assms
    by (simp add: get_bar_size_def read32_def write32_def bus_read_def bus_write_def Let_def neg
        del: bit.de_Morgan_conj split del: if_split)
      (intro exI, rule refl)
  then show ?thesis by blast
qed


text \<open>A configuration space with one network card in slot 12, and nothing else.\<close>

definition one_card :: device where
  "one_card h w a =
     (if a = slot_addr PCI_CONFIG 12 then 0x8086 else if a = slot_addr PCI_CONFIG 12 + 2 then 0x100E
      else if w = 2 then 0xFFFF else 0)"

definition pci0 :: pci_state where
  "pci0 = sched_state.extend sched0 \<lparr>pci_devices = replicate 21
     \<lparr>config_base = 0, pci_mem_base = 0, pci_io_base = 0, pci_slot_id = 0, vendor_id = 0, device_id = 0\<rparr>\<rparr>"

lemma slot_addr_inj:
  assumes "i < 32" "j < 32" "k < 4" "l < 4"
    "slot_addr b i + of_nat k = slot_addr b j + of_nat l"
  shows "i = j \<and> k = l"
proof -
  have "unat (push_bit 11 (of_nat i) + of_nat k :: u32) = i * 2048 + k" if "i < 32" "k < 4" for i k :: nat
  proof -
    have "push_bit 11 (of_nat i) + of_nat k = (of_nat (i * 2048 + k) :: u32)" by (simp add: push_bit_eq_mult)
    moreover have "i * 2048 + k < 2 ^ LENGTH(32)" using that by simp
    ultimately show ?thesis by (simp only: unat_of_nat_small)
  qed
  note offset = this
  have "push_bit 11 (of_nat i) + of_nat k = (push_bit 11 (of_nat j) + of_nat l :: u32)"
    using assms(5) unfolding slot_addr_def PCI_DEVICE_BIT_OFFSET_def add.assoc by (rule add_left_imp_eq)
  then have eq: "i * 2048 + k = j * 2048 + l" using offset [OF assms(1,3)] offset [OF assms(2,4)] by argo
  have "(i * 2048 + k) mod 2048 = k" "(j * 2048 + l) mod 2048 = l" using assms(3,4) by simp_all
  then have "k = l" using eq by argo
  then show ?thesis using eq by simp
qed

lemma one_card_config: "config_space one_card (\<lambda>i. if i = 12 then 0x8086 else 0xFFFF) (\<lambda>i. if i = 12 then 0x100E else 0xFFFF)"
proof -
  have "slot_addr PCI_CONFIG i = slot_addr PCI_CONFIG 12 \<longleftrightarrow> i = 12"
    "slot_addr PCI_CONFIG i + 2 = slot_addr PCI_CONFIG 12 + 2 \<longleftrightarrow> i = 12"
    "slot_addr PCI_CONFIG i \<noteq> slot_addr PCI_CONFIG 12 + 2" "slot_addr PCI_CONFIG i + 2 \<noteq> slot_addr PCI_CONFIG 12"
    if "i < 32" for i
    using that slot_addr_inj [of i 12 0 0] slot_addr_inj [of i 12 0 2] slot_addr_inj [of i 12 2 0] by auto
  then show ?thesis by (auto simp: config_space_def one_card_def)
qed


theorem get_bar_size_decodes_witness:
  "\<exists>h. get_bar_size (\<lambda>h _ _. if h = [] then 0 else 0xFFFE0000) 0x42006000 0 io0 =
     (0x20000, io0\<lparr>io := Out 4 0x42006010 0 # h\<rparr>)"
  using get_bar_size_decodes [where dev = "\<lambda>h _ _. if h = [] then 0 else 0xFFFE0000" and s = io0 and
      base = "0x42006000" and number = 0 and sz = "0x20000", OF refl refl refl]
  by (simp add: io0_def PCI_BAR_def PCI_BASE_ADDRESS_0_def)

end
