(* ===== verification/Network_Task.thy ===== *)
theory Network_Task
  imports Pci
begin

text \<open>
  The receive queue of \<^verbatim>\<open>kernel/network/network_task.c\<close>: a ring of 128 packets between the interrupt
  handler, which inserts, and the network task, which removes. A \<^verbatim>\<open>raw_packet_t *\<close> is the index of a
  slot. The queue is interpreted as a bounded queue of byte strings, and the packet a task works on is
  shown to be safe from the interrupt handler.
\<close>

section \<open>State\<close>

record raw_packet_t =
  packet_length :: u16
  packet_data :: "u8 list"

record queue_state = pci_state +
  recv_queue_start :: nat
  recv_queue_end :: nat
  recv_packet_queue :: "raw_packet_t list"

definition MAX_PACKET_COUNT :: nat where [simp]: "MAX_PACKET_COUNT = 128"
definition MAX_PACKET_SIZE :: nat where [simp]: "MAX_PACKET_SIZE = 8192"

section \<open>Operations\<close>

definition remove_packet :: "'s queue_state_scheme \<Rightarrow> nat option \<times> 's queue_state_scheme" where
  "remove_packet s =
     (if recv_queue_start s = recv_queue_end s then (None, s)
      else (Some (recv_queue_start s),
            s\<lparr>recv_queue_start := (recv_queue_start s + 1) mod MAX_PACKET_COUNT\<rparr>))"

definition new_packet_available :: "'s queue_state_scheme \<Rightarrow> bool" where
  "new_packet_available s \<longleftrightarrow> recv_queue_start s \<noteq> recv_queue_end s"

text \<open>
  \<^verbatim>\<open>insert_packet\<close>: \<open>bytes\<close> are the \<^verbatim>\<open>len\<close> bytes at \<^verbatim>\<open>data\<close>. Nothing checks \<^verbatim>\<open>len\<close>; a copy of more than
  \<^verbatim>\<open>MAX_PACKET_SIZE\<close> bytes writes outside the slot, which is \<open>None\<close>.
\<close>

definition insert_packet :: "u8 list \<Rightarrow> 's queue_state_scheme \<Rightarrow> 's queue_state_scheme option" where
  "insert_packet bytes s =
     (let new_end = (recv_queue_end s + 1) mod MAX_PACKET_COUNT; len = length bytes in
      if new_end \<noteq> recv_queue_start s then
        (if len > MAX_PACKET_SIZE then None
         else
           (let e = recv_queue_end s; slot = recv_packet_queue s ! e;
                slot = slot\<lparr>packet_length := of_nat len\<rparr>;
                slot = slot\<lparr>packet_data := bytes @ drop len (packet_data slot)\<rparr>
            in Some (s\<lparr>recv_packet_queue := (recv_packet_queue s)[e := slot], recv_queue_end := new_end\<rparr>)))
      else LOG_WARN ''kernel/network/network_task.c'' ''Packet Queue full!'' [] s)"

section \<open>The queue of packets\<close>

definition packet_bytes :: "raw_packet_t \<Rightarrow> u8 list" where
  "packet_bytes p = take (unat (packet_length p)) (packet_data p)"

definition waiting :: "'s queue_state_scheme \<Rightarrow> raw_packet_t list" where
  "waiting s = ring_list 128 (recv_packet_queue s) (recv_queue_start s) (recv_queue_end s)"

definition packets :: "'s queue_state_scheme \<Rightarrow> u8 list list" where
  "packets s = map packet_bytes (ring_list 128 (recv_packet_queue s) (recv_queue_start s) (recv_queue_end s))"

definition queue_ok :: "'s queue_state_scheme \<Rightarrow> bool" where
  "queue_ok s \<longleftrightarrow> length (recv_packet_queue s) = 128 \<and> recv_queue_start s < 128 \<and> recv_queue_end s < 128 \<and>
     (\<forall>p \<in> set (recv_packet_queue s). length (packet_data p) = 8192)"

text \<open>The two outcomes of an insertion.\<close>

lemma render_plain:
  "CHR 0x00 \<notin> set str \<Longrightarrow> CHR ''%'' \<notin> set str \<Longrightarrow> render str [] = Some str"
  by (induction str) auto

lemma log_warn_full:
  "LOG_WARN ''kernel/network/network_task.c'' ''Packet Queue full!'' [] s =
   Some (put (log_line 2 (clock_time_to_str (clock s)) ''kernel/network/network_task.c'' ''Packet Queue full!'') s)"
  using general_log_put [of 2 "''kernel/network/network_task.c''" "''Packet Queue full!''" "[]" "''Packet Queue full!''" s]
  by (simp add: LOG_WARN_def render_plain)

lemma packets_length: "length (packets s) = ring_length 128 (recv_queue_start s) (recv_queue_end s)"
  by (simp add: packets_def)

lemma queue_full_iff:
  "queue_ok s \<Longrightarrow> (recv_queue_end s + 1) mod 128 = recv_queue_start s \<longleftrightarrow> \<not> length (packets s) < 127"
  using ring_full_iff [of "recv_queue_start s" 128 "recv_queue_end s"]
    ring_length_less [of 128 "recv_queue_start s" "recv_queue_end s"]
  by (auto simp: queue_ok_def packets_length)

lemma insert_packet_room:
  assumes "queue_ok s" "length bytes \<le> 8192" "length (packets s) < 127"
  shows "\<exists>p s'. insert_packet bytes s = Some s' \<and> packet_bytes p = bytes \<and> length (packet_data p) = 8192 \<and>
    s' = s\<lparr>recv_packet_queue := (recv_packet_queue s)[recv_queue_end s := p],
           recv_queue_end := (recv_queue_end s + 1) mod 128\<rparr>"
proof -
  let ?old = "recv_packet_queue s ! recv_queue_end s"
  let ?p = "?old\<lparr>packet_length := of_nat (length bytes), packet_data := bytes @ drop (length bytes) (packet_data ?old)\<rparr>"
  have "length (packet_data ?old) = 8192" using assms(1) by (simp add: queue_ok_def)
  moreover have "unat (of_nat (length bytes) :: u16) = length bytes"
    using assms(2) by (intro unat_of_nat_small) simp
  ultimately have "packet_bytes ?p = bytes" "length (packet_data ?p) = 8192"
    using assms(2) by (simp_all add: packet_bytes_def)
  moreover have "insert_packet bytes s = Some (s\<lparr>recv_packet_queue := (recv_packet_queue s)[recv_queue_end s := ?p],
      recv_queue_end := (recv_queue_end s + 1) mod 128\<rparr>)"
    using assms queue_full_iff [OF assms(1)] by (simp add: insert_packet_def Let_def)
  ultimately show ?thesis by blast
qed

lemma insert_packet_full:
  assumes "queue_ok s" "\<not> length (packets s) < 127"
  shows "\<exists>str. insert_packet bytes s = Some (put str s)"
  using assms queue_full_iff [OF assms(1)] by (auto simp: insert_packet_def log_warn_full)

lemma put_queue [frame_simps]:
  "recv_packet_queue (put str s) = recv_packet_queue s" "recv_queue_start (put str s) = recv_queue_start s"
  "recv_queue_end (put str s) = recv_queue_end s"
  by (simp_all add: put_def)

lemma insert_packet_queue:
  assumes "queue_ok s" "length bytes \<le> 8192"
  shows "\<exists>s'. insert_packet bytes s = Some s' \<and> queue_ok s' \<and> recv_queue_start s' = recv_queue_start s \<and>
    packets s' = (if length (packets s) < 127 then packets s @ [bytes] else packets s)"
proof (cases "length (packets s) < 127")
  case True
  obtain p s' where p: "insert_packet bytes s = Some s'" "packet_bytes p = bytes" "length (packet_data p) = 8192"
    "s' = s\<lparr>recv_packet_queue := (recv_packet_queue s)[recv_queue_end s := p],
           recv_queue_end := (recv_queue_end s + 1) mod 128\<rparr>"
    using insert_packet_room [OF assms True] by blast
  have "queue_ok s'" using assms(1) p(3) by (auto simp: p(4) queue_ok_def dest!: set_update_subset_insert [THEN subsetD])
  moreover have "packets s' = packets s @ [bytes]"
    using ring_list_put [of "recv_queue_start s" 128 "recv_queue_end s" "recv_packet_queue s" p]
      queue_full_iff [OF assms(1)] True assms(1) p(2)
    by (simp add: packets_def p(4) queue_ok_def)
  ultimately show ?thesis using True p(1,4) by simp
next
  case False
  then obtain str where "insert_packet bytes s = Some (put str s)" using insert_packet_full [OF assms(1)] by blast
  then show ?thesis using False assms(1) by (simp add: frame_simps queue_ok_def packets_def)
qed

text \<open>The slot before the start index is the one that stays unused: an insertion does not reach it.\<close>

lemma insert_packet_slot:
  assumes "queue_ok s" "length bytes \<le> 8192" "insert_packet bytes s = Some s'"
    and "i < 128" "recv_queue_start s = (i + 1) mod 128"
  shows "recv_packet_queue s' ! i = recv_packet_queue s ! i"
proof (cases "length (packets s) < 127")
  case True
  then have "recv_queue_end s \<noteq> i" using queue_full_iff [OF assms(1)] assms(5) by auto
  then show ?thesis using insert_packet_room [OF assms(1,2) True] assms(3) by auto
next
  case False
  then show ?thesis using insert_packet_full [OF assms(1) False, of bytes] assms(3) by (auto simp: frame_simps)
qed

text \<open>Slot by slot, an insertion only appends.\<close>

lemma packets_waiting: "packets s = map packet_bytes (waiting s)"
  by (simp add: packets_def waiting_def)

lemma insert_packet_waiting:
  assumes "queue_ok s" "insert_packet bytes s = Some s'"
  shows "\<exists>new. waiting s' = waiting s @ new"
proof (cases "length (packets s) < 127")
  case True
  then have "length bytes \<le> 8192"
    using assms queue_full_iff [OF assms(1)] by (auto simp: insert_packet_def Let_def split: if_splits)
  from insert_packet_room [OF assms(1) this True] assms(2) obtain p where
    "s' = s\<lparr>recv_packet_queue := (recv_packet_queue s)[recv_queue_end s := p], recv_queue_end := (recv_queue_end s + 1) mod 128\<rparr>"
    by auto
  then have "waiting s' = waiting s @ [p]"
    using ring_list_put [of "recv_queue_start s" 128 "recv_queue_end s" "recv_packet_queue s" p] True
      queue_full_iff [OF assms(1)] assms(1) by (simp add: waiting_def queue_ok_def)
  then show ?thesis by blast
next
  case False
  then have "waiting s' = waiting s @ []"
    using insert_packet_full [OF assms(1) False, of bytes] assms(2) by (auto simp: waiting_def frame_simps)
  then show ?thesis by blast
qed

lemma remove_packet_queue:
  assumes "queue_ok s"
  shows "if packets s = [] then remove_packet s = (None, s)
    else \<exists>i s'. remove_packet s = (Some i, s') \<and> i < 128 \<and> queue_ok s' \<and> recv_packet_queue s' = recv_packet_queue s \<and>
      packets s = packet_bytes (recv_packet_queue s ! i) # packets s'"
proof -
  have idx: "recv_queue_start s < 128" "recv_queue_end s < 128" using assms by (simp_all add: queue_ok_def)
  have "packets s = [] \<longleftrightarrow> recv_queue_start s = recv_queue_end s"
    using ring_empty_iff [OF idx] by (simp add: packets_length flip: length_0_conv)
  then show ?thesis
    using ring_list_get [OF idx, of "recv_packet_queue s"] assms
    by (auto simp: remove_packet_def packets_def queue_ok_def)
qed

text \<open>What the client of the queue takes out: the bytes of the packet.\<close>

definition take_packet :: "'s queue_state_scheme \<Rightarrow> u8 list option \<times> 's queue_state_scheme" where
  "take_packet s =
     (let (i, s') = remove_packet s in (map_option (\<lambda>i. packet_bytes (recv_packet_queue s' ! i)) i, s'))"

interpretation packet_ring: bounded_fifo "\<lambda>bytes s. the (insert_packet bytes s)" take_packet packets
  "\<lambda>bytes. bytes" queue_ok "\<lambda>bytes. length bytes \<le> 8192" 127
proof
  fix q :: "'s queue_state_scheme" and x :: "u8 list"
  assume ok: "queue_ok q"
  show "queue_ok (the (insert_packet x q))" if "length x \<le> 8192"
    using insert_packet_queue [OF ok that] by auto
  show "packets (the (insert_packet x q)) = (if length (packets q) < 127 then packets q @ [x] else packets q)"
    if "length x \<le> 8192"
    using insert_packet_queue [OF ok that] by auto
  show "queue_ok (snd (take_packet q))"
    using remove_packet_queue [OF ok] ok by (cases "packets q = []") (auto simp: take_packet_def)
  show "take_packet q = (None, q)" if "packets q = []"
    using remove_packet_queue [OF ok] that by (simp add: take_packet_def)
  show "\<exists>x. fst (take_packet q) = Some x \<and> x = hd (packets q) \<and> packets (snd (take_packet q)) = tl (packets q)"
    if "packets q \<noteq> []"
    using remove_packet_queue [OF ok] that by (auto simp: take_packet_def)
  show "length (packets q) \<le> 127"
    using ring_length_less [of 128 "recv_queue_start q" "recv_queue_end q"] by (simp add: packets_length)
qed

text \<open>Taking \<open>n\<close> packets out, one after the other.\<close>

fun take_packets :: "nat \<Rightarrow> 's queue_state_scheme \<Rightarrow> u8 list option list \<times> 's queue_state_scheme" where
  "take_packets 0 s = ([], s)"
| "take_packets (Suc n) s =
     (let (p, s') = take_packet s; (ps, s'') = take_packets n s' in (p # ps, s''))"

lemma take_packets_drain: "take_packets n s = packet_ring.drain n s"
  by (induction n arbitrary: s) (simp_all add: split_beta Let_def)

text \<open>
  Property C10: the receive queue is first-in first-out and never overfills. Inserting packets of at most
  8192 bytes into the empty queue keeps those that fit into 127 slots, in order, and drops the rest with
  a warning; taking them out gives the same bytes back, oldest first.
\<close>

theorem receive_queue_fifo:
  assumes "queue_ok s" "packets s = []" "list_all (\<lambda>bytes. length bytes \<le> 8192) ps"
  defines "s' \<equiv> fold (\<lambda>bytes s. the (insert_packet bytes s)) ps s"
  shows "queue_ok s' \<and> packets s' = take 127 ps \<and>
    fst (take_packets (length (take 127 ps)) s') = map Some (take 127 ps)"
proof -
  have put: "queue_ok s'" "packets s' = take 127 ps"
    using packet_ring.queue_put_all [OF assms(1,3)] assms(2) by (simp_all add: s'_def)
  then have "map (map_option (\<lambda>bytes. bytes)) (fst (packet_ring.drain (length (packets s')) s')) = map Some (packets s')"
    using conjunct1 [OF packet_ring.drain_queue [OF put(1) order_refl]] by (simp only: take_all order_refl)
  moreover have "map_option (\<lambda>bytes :: u8 list. bytes) = (\<lambda>x. x)" by (simp add: fun_eq_iff option.map_ident)
  ultimately show ?thesis using put by (simp only: take_packets_drain list.map_ident simp_thms)
qed

text \<open>
  The packet the network task works on is not overwritten. After \<^verbatim>\<open>remove_packet\<close> has returned
  a slot, no sequence of insertions by the interrupt handler changes that slot: the queue is full one
  slot before it.
\<close>

theorem removed_packet_stable:
  assumes "queue_ok s" "remove_packet s = (Some i, s')" "list_all (\<lambda>bytes. length bytes \<le> 8192) ps"
  shows "recv_packet_queue (fold (\<lambda>bytes s. the (insert_packet bytes s)) ps s') ! i = recv_packet_queue s ! i"
proof -
  have i: "i < 128" "queue_ok s'" "recv_packet_queue s' = recv_packet_queue s" "recv_queue_start s' = (i + 1) mod 128"
    using assms(1,2) by (auto simp: remove_packet_def queue_ok_def split: if_splits)
  have "recv_packet_queue (fold (\<lambda>bytes s. the (insert_packet bytes s)) ps t) ! i = recv_packet_queue t ! i"
    if "queue_ok t" "recv_queue_start t = (i + 1) mod 128" for t
    using that assms(3)
  proof (induction ps arbitrary: t)
    case Nil
    then show ?case by simp
  next
    case (Cons b ps)
    then have b: "length b \<le> 8192" by simp
    obtain t' where t': "insert_packet b t = Some t'" "queue_ok t'" "recv_queue_start t' = recv_queue_start t"
      using insert_packet_queue [OF Cons.prems(1) b] by blast
    have "recv_packet_queue t' ! i = recv_packet_queue t ! i"
      using insert_packet_slot [OF Cons.prems(1) b t'(1) i(1) Cons.prems(2)] .
    with Cons t' show ?case by simp
  qed
  from this [OF i(2,4)] show ?thesis by (simp add: i(3))
qed

section \<open>Witnesses\<close>

definition empty_packet :: raw_packet_t where
  "empty_packet = \<lparr>packet_length = 0, packet_data = replicate 8192 0\<rparr>"

definition queue0 :: queue_state where
  "queue0 = pci_state.extend pci0 \<lparr>recv_queue_start = 0, recv_queue_end = 0,
     recv_packet_queue = replicate 128 empty_packet\<rparr>"

lemma queue0_fields [simp]:
  "recv_queue_start queue0 = 0" "recv_queue_end queue0 = 0" "recv_packet_queue queue0 = replicate 128 empty_packet"
  by (simp_all add: queue0_def pci_state.defs)

lemma queue0_ok: "queue_ok queue0" "packets queue0 = []"
  by (simp_all add: queue_ok_def packets_def ring_list_def ring_length_def empty_packet_def)

theorem receive_queue_fifo_witness:
  "packets (fold (\<lambda>bytes s. the (insert_packet bytes s)) [[1, 2], [3]] queue0) = [[1, 2], [3]]"
  using receive_queue_fifo [OF queue0_ok, of "[[1, 2], [3]]"] by simp

theorem removed_packet_stable_witness:
  "recv_packet_queue (the (insert_packet [7] (snd (remove_packet (queue0\<lparr>recv_queue_end := 1\<rparr>))))) ! 0 = empty_packet"
proof -
  have "queue_ok (queue0\<lparr>recv_queue_end := 1\<rparr>)" using queue0_ok(1) by (simp add: queue_ok_def)
  moreover have "remove_packet (queue0\<lparr>recv_queue_end := 1\<rparr>) =
      (Some 0, snd (remove_packet (queue0\<lparr>recv_queue_end := 1\<rparr>)))" by (simp add: remove_packet_def)
  ultimately show ?thesis using removed_packet_stable [of "queue0\<lparr>recv_queue_end := 1\<rparr>" 0 _ "[[7]]"] by simp
qed

end
