(* ===== verification/Polling.thy ===== *)
theory Polling
  imports Machine
begin

text \<open>
  Loops that read a device register until it has the value they wait for: the serial bus of the EV3, its
  serial port, and the transmit descriptor of the network card. The interface \<open>polling_loop\<close> is the unfolded
  loop; when and with which history it returns is proved once.
\<close>

text \<open>The history after \<open>k\<close> reads of a register, and the value of the read after those.\<close>

fun polls :: "device \<Rightarrow> nat \<Rightarrow> addr \<Rightarrow> nat \<Rightarrow> io_event list \<Rightarrow> io_event list" where
  "polls dev w a 0 h = h"
| "polls dev w a (Suc k) h = polls dev w a k (In w a (take_bit (8 * w) (dev h w a)) # h)"

definition polled :: "device \<Rightarrow> nat \<Rightarrow> addr \<Rightarrow> nat \<Rightarrow> io_event list \<Rightarrow> u64" where
  "polled dev w a k h = take_bit (8 * w) (dev (polls dev w a k h) w a)"

lemma polled_simps [simp]:
  "polled dev w a 0 h = take_bit (8 * w) (dev h w a)"
  "polled dev w a (Suc k) h = polled dev w a k (In w a (take_bit (8 * w) (dev h w a)) # h)"
  by (simp_all add: polled_def)

lemma polls_Suc: "polls dev w a (Suc k) h = In w a (polled dev w a k h) # polls dev w a k h"
  by (induction k arbitrary: h) simp_all

lemma polls_append: "\<exists>h'. polls dev w a k h = h' @ h"
proof (induction k arbitrary: h)
  case (Suc k)
  from Suc.IH [of "In w a (take_bit (8 * w) (dev h w a)) # h"] show ?case by auto
qed simp

text \<open>As long as the register reads as zero the history is the same event over and over.\<close>

lemma polls_zero:
  "\<forall>j < k. polled dev w a j h = 0 \<Longrightarrow> polls dev w a k h = replicate k (In w a 0) @ h"
proof (induction k)
  case (Suc k)
  then show ?case by (simp add: polls_Suc del: polls.simps)
qed simp

locale polling_loop =
  fixes loop :: "device \<Rightarrow> 's io_state_scheme \<Rightarrow> 's io_state_scheme option"
    and width :: nat
    and reg :: addr
    and again :: "u64 \<Rightarrow> bool"
  assumes loop_unfold:
    "loop dev s = (let (v, s') = bus_read dev width reg s in if again v then loop dev s' else Some s')"
begin

lemma loop_polls:
  assumes "\<not> again (polled dev width reg k (io s))" "\<forall>j < k. again (polled dev width reg j (io s))"
  shows "loop dev s = Some (s\<lparr>io := polls dev width reg (Suc k) (io s)\<rparr>)"
  using assms
proof (induction k arbitrary: s)
  case 0
  then show ?case by (subst loop_unfold) (simp add: bus_read_def Let_def)
next
  case (Suc k)
  let ?s = "s\<lparr>io := In width reg (take_bit (8 * width) (dev (io s) width reg)) # io s\<rparr>"
  have "\<forall>j < k. again (polled dev width reg j (io ?s))" using Suc.prems(2) by auto
  then have "loop dev ?s = Some (s\<lparr>io := polls dev width reg (Suc (Suc k)) (io s)\<rparr>)"
    using Suc.IH [of ?s] Suc.prems(1) by simp
  moreover have "again (take_bit (8 * width) (dev (io s) width reg))" using Suc.prems(2) by auto
  ultimately show ?case by (subst loop_unfold) (simp add: bus_read_def Let_def)
qed

lemma loop_returns:
  assumes "\<not> again (polled dev width reg k (io s))"
  shows "\<exists>k. loop dev s = Some (s\<lparr>io := polls dev width reg (Suc k) (io s)\<rparr>) \<and> \<not> again (polled dev width reg k (io s))"
proof -
  let ?P = "\<lambda>k. \<not> again (polled dev width reg k (io s))"
  have "?P (LEAST k. ?P k)" using assms by (rule LeastI)
  moreover have "\<forall>j < (LEAST k. ?P k). \<not> ?P j" using not_less_Least by blast
  ultimately show ?thesis using loop_polls by blast
qed

lemma loop_extends:
  assumes "\<not> again (polled dev width reg k (io s))"
  shows "\<exists>h. loop dev s = Some (s\<lparr>io := h @ io s\<rparr>)"
  using loop_returns [OF assms] polls_append by metis

end

end
