(* ===== verification/E1000.thy ===== *)
theory E1000
  imports Network_Task Polling "HOL-Library.Monad_Syntax"
begin

text \<open>
  The driver of the Intel e1000 network card: \<^verbatim>\<open>kernel/network/e1000.c\<close>. The descriptor rings and the
  card's registers are shared with the card, so every access to them is an event on the device bus; the
  card's answers, received packets included, come from the device parameter. The rest of
  \<^verbatim>\<open>e1000_device_t\<close> is a record. \<open>None\<close> is a null pointer dereferenced, an allocation or a wait that
  does not end, or undefined behaviour further down.
\<close>

section \<open>State\<close>

text \<open>\<open>device_base\<close> is the address of the structure, \<^verbatim>\<open>pci_device\<close> an index into \<^verbatim>\<open>pci_devices\<close>.\<close>

record e1000_device_t =
  device_base :: addr
  io_base :: u32
  mem_base :: u32
  eeprom_exists :: bool
  nic_mac :: mac_address_t
  rx_cur :: u16
  tx_cur :: u16
  pci_device :: "nat option"

text \<open>\<open>wire\<close> logs the frames the card fetches from memory when the transmit tail moves.\<close>

record e1000_state = queue_state +
  e1000 :: "e1000_device_t option"
  wire :: "u8 list list"

definition INTEL_VEND :: u16 where "INTEL_VEND = 0x8086"
definition E1000_DEV :: u16 where "E1000_DEV = 0x100E"
definition REG_CTRL :: u16 where "REG_CTRL = 0x0000"
definition REG_EEPROM :: u16 where "REG_EEPROM = 0x0014"
definition REG_INT_CAUSE :: u16 where "REG_INT_CAUSE = 0x00C0"
definition REG_IMASK :: u16 where "REG_IMASK = 0x00D0"
definition REG_RCTRL :: u16 where "REG_RCTRL = 0x0100"
definition REG_RXDESCLO :: u16 where "REG_RXDESCLO = 0x2800"
definition REG_RXDESCHI :: u16 where "REG_RXDESCHI = 0x2804"
definition REG_RXDESCLEN :: u16 where "REG_RXDESCLEN = 0x2808"
definition REG_RXDESCHEAD :: u16 where "REG_RXDESCHEAD = 0x2810"
definition REG_RXDESCTAIL :: u16 where "REG_RXDESCTAIL = 0x2818"
definition REG_TCTRL :: u16 where "REG_TCTRL = 0x0400"
definition REG_TXDESCLO :: u16 where "REG_TXDESCLO = 0x3800"
definition REG_TXDESCHI :: u16 where "REG_TXDESCHI = 0x3804"
definition REG_TXDESCLEN :: u16 where "REG_TXDESCLEN = 0x3808"
definition REG_TXDESCHEAD :: u16 where "REG_TXDESCHEAD = 0x3810"
definition REG_TXDESCTAIL :: u16 where "REG_TXDESCTAIL = 0x3818"
definition REG_TIPG :: u16 where "REG_TIPG = 0x0410"
definition ECTRL_SLU :: u32 where "ECTRL_SLU = 0x40"
definition RCTL_EN :: u32 where "RCTL_EN = push_bit 1 1"
definition RCTL_SBP :: u32 where "RCTL_SBP = push_bit 2 1"
definition RCTL_UPE :: u32 where "RCTL_UPE = push_bit 3 1"
definition RCTL_MPE :: u32 where "RCTL_MPE = push_bit 4 1"
definition RCTL_LBM_NONE :: u32 where "RCTL_LBM_NONE = push_bit 6 0"
definition RTCL_RDMTS_HALF :: u32 where "RTCL_RDMTS_HALF = push_bit 8 0"
definition RCTL_BAM :: u32 where "RCTL_BAM = push_bit 15 1"
definition RCTL_SECRC :: u32 where "RCTL_SECRC = push_bit 26 1"
definition RCTL_BSIZE_8192 :: u32 where "RCTL_BSIZE_8192 = push_bit 16 2 OR push_bit 25 1"
definition CMD_EOP :: u8 where "CMD_EOP = push_bit 0 1"
definition CMD_IFCS :: u8 where "CMD_IFCS = push_bit 1 1"
definition CMD_RS :: u8 where "CMD_RS = push_bit 3 1"
definition TCTL_EN :: u32 where "TCTL_EN = push_bit 1 1"
definition TCTL_PSP :: u32 where "TCTL_PSP = push_bit 3 1"
definition LSC :: u32 where "LSC = push_bit 2 1"
definition RXT0 :: u32 where "RXT0 = push_bit 7 1"
definition MAC_OFFSET :: u32 where "MAC_OFFSET = 0x5400"
definition E1000_NUM_RX_DESC :: nat where [simp]: "E1000_NUM_RX_DESC = 32"
definition E1000_NUM_TX_DESC :: nat where [simp]: "E1000_NUM_TX_DESC = 8"

text \<open>
  The layout of \<^verbatim>\<open>e1000_device_t\<close>: 32 receive and 8 transmit descriptors of 16 bytes each, then the
  driver's own fields; 664 bytes in all. In a descriptor \<^verbatim>\<open>addr\<close> is at 0, \<^verbatim>\<open>length\<close> at 8, the transmit
  command at 11 and \<^verbatim>\<open>status\<close> at 12.
\<close>

definition sizeof_e1000_device_t :: size_t where "sizeof_e1000_device_t = 664"
definition sizeof_desc :: size_t where "sizeof_desc = 16"

definition rx_desc :: "e1000_device_t \<Rightarrow> nat \<Rightarrow> addr" where
  "rx_desc n i = device_base n + 16 * of_nat i"

definition tx_desc :: "e1000_device_t \<Rightarrow> nat \<Rightarrow> addr" where
  "tx_desc n i = device_base n + 512 + 16 * of_nat i"

text \<open>The structure as \<^verbatim>\<open>malloc\<close> returns it: whatever the memory holds.\<close>

definition e1000_at :: "mem \<Rightarrow> addr \<Rightarrow> e1000_device_t" where
  "e1000_at m a = \<lparr>device_base = a, io_base = load32 m (a + 640), mem_base = load32 m (a + 644),
     eeprom_exists = (m (a + 648) \<noteq> 0), nic_mac = load_bytes m (a + 649) 6,
     rx_cur = load_le m (a + 656) 2, tx_cur = load_le m (a + 658) 2, pci_device = None\<rparr>"

section \<open>Registers\<close>

definition write_command ::
  "device \<Rightarrow> u16 \<Rightarrow> u32 \<Rightarrow> 's e1000_state_scheme \<Rightarrow> 's e1000_state_scheme option" where
  "write_command dev address v s =
     do { n \<leftarrow> e1000 s; Some (pci_write32 dev (mem_base n + ucast address) v s) }"

definition read_command ::
  "device \<Rightarrow> u32 \<Rightarrow> 's e1000_state_scheme \<Rightarrow> (u32 \<times> 's e1000_state_scheme) option" where
  "read_command dev address s = do { n \<leftarrow> e1000 s; Some (pci_read32 dev (mem_base n + address) s) }"

definition update_nic ::
  "(e1000_device_t \<Rightarrow> e1000_device_t) \<Rightarrow> 's e1000_state_scheme \<Rightarrow> 's e1000_state_scheme option" where
  "update_nic f s = do { n \<leftarrow> e1000 s; Some (s\<lparr>e1000 := Some (f n)\<rparr>) }"

fun detect_eeprom_loop :: "device \<Rightarrow> nat \<Rightarrow> 's e1000_state_scheme \<Rightarrow> 's e1000_state_scheme option" where
  "detect_eeprom_loop dev 0 s = Some s"
| "detect_eeprom_loop dev (Suc k) s =
     do { n \<leftarrow> e1000 s;
          if eeprom_exists n then Some s
          else do { (val, s) \<leftarrow> read_command dev (ucast REG_EEPROM) s;
                    s \<leftarrow> update_nic (\<lambda>n. n\<lparr>eeprom_exists := (val AND 0x10 \<noteq> 0)\<rparr>) s;
                    detect_eeprom_loop dev k s } }"

definition detect_eeprom :: "device \<Rightarrow> 's e1000_state_scheme \<Rightarrow> 's e1000_state_scheme option" where
  "detect_eeprom dev s =
     do { s \<leftarrow> write_command dev REG_EEPROM 0x1 s; detect_eeprom_loop dev 1000 s }"

definition read_e1000_hardware_address ::
  "device \<Rightarrow> 's e1000_state_scheme \<Rightarrow> 's e1000_state_scheme option" where
  "read_e1000_hardware_address dev s =
     do { n \<leftarrow> e1000 s;
          let mem_base_mac = mem_base n + MAC_OFFSET;
              (mac_data, s) = pci_read64 dev mem_base_mac s
          in if push_bit 16 mac_data \<noteq> 0
             then (let mac_network = map (byte_of mac_data) [0..<6];
                       (m, s) = ntoh_mac dev mac_network s
                   in update_nic (\<lambda>n. n\<lparr>nic_mac := m\<rparr>) s)
             else Some s }"

definition e1000_get_mac :: "'s e1000_state_scheme \<Rightarrow> mac_address_t option" where
  "e1000_get_mac s = do { n \<leftarrow> e1000 s; Some (nic_mac n) }"

section \<open>Initialisation\<close>

fun init_rx_loop :: "nat list \<Rightarrow> 's e1000_state_scheme \<Rightarrow> 's e1000_state_scheme option" where
  "init_rx_loop [] s = Some s"
| "init_rx_loop (i # is) s =
     do { n \<leftarrow> e1000 s;
          (buf, s) \<leftarrow> malloc (of_nat MAX_PACKET_SIZE + sizeof_desc) s;
          let s = bus_write 8 (rx_desc n i) (ucast buf) s;
              s = bus_write 1 (rx_desc n i + 12) 0 s
          in init_rx_loop is s }"

definition init_receive_descriptors :: "device \<Rightarrow> 's e1000_state_scheme \<Rightarrow> 's e1000_state_scheme option" where
  "init_receive_descriptors dev s =
     do { s \<leftarrow> init_rx_loop [0..<E1000_NUM_RX_DESC] s;
          n \<leftarrow> e1000 s;
          s \<leftarrow> write_command dev REG_RXDESCLO (rx_desc n 0) s;
          s \<leftarrow> write_command dev REG_RXDESCHI 0 s;
          s \<leftarrow> write_command dev REG_RXDESCLEN (of_nat E1000_NUM_RX_DESC * sizeof_desc) s;
          s \<leftarrow> write_command dev REG_RXDESCHEAD 0 s;
          s \<leftarrow> write_command dev REG_RXDESCTAIL (of_nat E1000_NUM_RX_DESC - 1) s;
          s \<leftarrow> update_nic (\<lambda>n. n\<lparr>rx_cur := 0\<rparr>) s;
          write_command dev REG_RCTRL
            (RCTL_EN OR RCTL_SBP OR RCTL_UPE OR RCTL_MPE OR RCTL_LBM_NONE OR
             RTCL_RDMTS_HALF OR RCTL_BAM OR RCTL_SECRC OR RCTL_BSIZE_8192) s }"

definition init_transmit_descriptors :: "device \<Rightarrow> 's e1000_state_scheme \<Rightarrow> 's e1000_state_scheme option" where
  "init_transmit_descriptors dev s =
     do { n \<leftarrow> e1000 s;
          s \<leftarrow> write_command dev REG_TXDESCLO (tx_desc n 0) s;
          s \<leftarrow> write_command dev REG_TXDESCHI 0 s;
          s \<leftarrow> write_command dev REG_TXDESCLEN (of_nat E1000_NUM_TX_DESC * sizeof_desc) s;
          s \<leftarrow> write_command dev REG_TXDESCHEAD 0 s;
          s \<leftarrow> write_command dev REG_TXDESCTAIL 0 s;
          s \<leftarrow> update_nic (\<lambda>n. n\<lparr>tx_cur := 0\<rparr>) s;
          (ctrl, s) \<leftarrow> read_command dev (ucast REG_TCTRL) s;
          s \<leftarrow> write_command dev REG_TCTRL (ctrl OR TCTL_EN OR TCTL_PSP) s;
          write_command dev REG_TIPG 0x0060200A s }"

definition enable_interrupt :: "device \<Rightarrow> 's e1000_state_scheme \<Rightarrow> 's e1000_state_scheme option" where
  "enable_interrupt dev s = write_command dev REG_IMASK 0x1F2D4 s"

definition start_link :: "device \<Rightarrow> 's e1000_state_scheme \<Rightarrow> 's e1000_state_scheme option" where
  "start_link dev s =
     do { (flags, s) \<leftarrow> read_command dev (ucast REG_CTRL) s; write_command dev REG_CTRL (flags OR ECTRL_SLU) s }"

definition start_e1000 :: "device \<Rightarrow> 's e1000_state_scheme \<Rightarrow> 's e1000_state_scheme option" where
  "start_e1000 dev s =
     do { s \<leftarrow> detect_eeprom dev s;
          s \<leftarrow> read_e1000_hardware_address dev s;
          s \<leftarrow> start_link dev s;
          s \<leftarrow> enable_interrupt dev s;
          s \<leftarrow> init_receive_descriptors dev s;
          init_transmit_descriptors dev s }"

definition e1000_is_available :: "'s e1000_state_scheme \<Rightarrow> bool option" where
  "e1000_is_available s = do { n \<leftarrow> e1000 s; Some (pci_device n \<noteq> None) }"

definition e1000_init :: "device \<Rightarrow> 's e1000_state_scheme \<Rightarrow> 's e1000_state_scheme option" where
  "e1000_init dev s =
     do { (p, s) \<leftarrow> malloc sizeof_e1000_device_t s;
          if p = 0 then LOG_ERROR ''kernel/network/e1000.c'' ''No memory for e1000 struct left!'' [] (s\<lparr>e1000 := None\<rparr>)
          else do {
            let s = s\<lparr>e1000 := Some ((e1000_at (ram s) p)\<lparr>pci_device := pci_get_device INTEL_VEND E1000_DEV s\<rparr>)\<rparr>;
            n \<leftarrow> e1000 s;
            case pci_device n of
              None \<Rightarrow> LOG_ERROR ''kernel/network/e1000.c'' ''Network card not found!'' [] s
            | Some i \<Rightarrow> do {
                let device = pci_devices s ! i;
                let (mem, s) = pci_alloc_memory dev device 0 s;
                s \<leftarrow> update_nic (\<lambda>n. n\<lparr>mem_base := mem\<rparr>) s;
                let (io, s) = pci_alloc_memory dev device 1 s;
                s \<leftarrow> update_nic (\<lambda>n. n\<lparr>io_base := io\<rparr>) s;
                let s = pci_enable_bus_mastering dev (config_base device) s;
                start_e1000 dev s } } }"

section \<open>Sending\<close>

text \<open>\<^verbatim>\<open>while (!(curr->status));\<close>\<close>

partial_function (option) wait_sent :: "device \<Rightarrow> addr \<Rightarrow> 's e1000_state_scheme \<Rightarrow> 's e1000_state_scheme option" where
  "wait_sent dev a s =
     (let (v, s) = bus_read dev 1 a s in if v \<noteq> 0 then Some s else wait_sent dev a s)"

definition e1000_send_packet ::
  "device \<Rightarrow> addr \<Rightarrow> u16 \<Rightarrow> 's e1000_state_scheme \<Rightarrow> (u32 \<times> 's e1000_state_scheme) option" where
  "e1000_send_packet dev p_data p_len s =
     do { available \<leftarrow> e1000_is_available s;
          if \<not> available then Some (- 1, s)
          else do {
            n \<leftarrow> e1000 s;
            let curr = tx_desc n (unat (tx_cur n));
            let s = bus_write 8 curr (ucast p_data) s;
            let s = bus_write 2 (curr + 8) (ucast p_len) s;
            let s = bus_write 1 (curr + 11) (ucast (CMD_EOP OR CMD_IFCS OR CMD_RS)) s;
            let s = bus_write 1 (curr + 12) 0 s;
            s \<leftarrow> update_nic (\<lambda>n. n\<lparr>tx_cur := (tx_cur n + 1) mod of_nat E1000_NUM_TX_DESC\<rparr>) s;
            n \<leftarrow> e1000 s;
            s \<leftarrow> write_command dev REG_TXDESCTAIL (ucast (tx_cur n)) s;
            let s = s\<lparr>wire := wire s @ [load_bytes (ram s) p_data (unat p_len)]\<rparr>;
            s \<leftarrow> wait_sent dev (curr + 12) s;
            Some (0, s) } }"

section \<open>Receiving\<close>

text \<open>The bytes the card has put at \<open>buf\<close>.\<close>

definition dma_bytes :: "device \<Rightarrow> 's io_state_scheme \<Rightarrow> addr \<Rightarrow> nat \<Rightarrow> u8 list" where
  "dma_bytes dev s buf len = map (\<lambda>i. ucast (dev (io s) 1 (buf + of_nat i))) [0..<len]"

text \<open>The condition of the loop, which reads the status of the current descriptor, and its body.\<close>

definition rx_status :: "device \<Rightarrow> 's e1000_state_scheme \<Rightarrow> (bool \<times> 's e1000_state_scheme) option" where
  "rx_status dev s =
     do { n \<leftarrow> e1000 s;
          let (status, s) = bus_read dev 1 (rx_desc n (unat (rx_cur n)) + 12) s;
          Some (status AND 1 \<noteq> 0, s) }"

definition receive_one :: "device \<Rightarrow> 's e1000_state_scheme \<Rightarrow> 's e1000_state_scheme option" where
  "receive_one dev s =
     do { n \<leftarrow> e1000 s;
          let desc = rx_desc n (unat (rx_cur n));
          let (buf, s) = bus_read dev 8 desc s;
          let (len, s) = bus_read dev 2 (desc + 8) s;
          s \<leftarrow> insert_packet (dma_bytes dev s (ucast buf) (unat len)) s;
          let s = bus_write 1 (desc + 12) 0 s;
          let old_cur = rx_cur n;
          s \<leftarrow> update_nic (\<lambda>n. n\<lparr>rx_cur := (rx_cur n + 1) mod of_nat E1000_NUM_RX_DESC\<rparr>) s;
          write_command dev REG_RXDESCTAIL (ucast old_cur) s }"

partial_function (option) receive_loop :: "device \<Rightarrow> 's e1000_state_scheme \<Rightarrow> 's e1000_state_scheme option" where
  "receive_loop dev s =
     do { (ready, s) \<leftarrow> rx_status dev s;
          if ready then do { s \<leftarrow> receive_one dev s; receive_loop dev s } else Some s }"

definition receive_packet :: "device \<Rightarrow> 's e1000_state_scheme \<Rightarrow> 's e1000_state_scheme option" where
  "receive_packet dev s =
     do { available \<leftarrow> e1000_is_available s; if \<not> available then Some s else receive_loop dev s }"

definition e1000_irq_handler :: "device \<Rightarrow> 's e1000_state_scheme \<Rightarrow> 's e1000_state_scheme option" where
  "e1000_irq_handler dev s =
     do { s \<leftarrow> write_command dev REG_IMASK 0x1 s;
          (cause, s) \<leftarrow> read_command dev (ucast REG_INT_CAUSE) s;
          s \<leftarrow> (if cause AND LSC \<noteq> 0 then start_link dev s else Some s);
          if cause AND RXT0 \<noteq> 0 then receive_packet dev s else Some s }"

section \<open>Frames\<close>

lemma only_io_pci [only_io_intros]:
  "only_io s t \<Longrightarrow> only_io s (write_word a v32 t)"
  "only_io s t \<Longrightarrow> only_io s (snd (pci_read32 dev a t))"
  "only_io s t \<Longrightarrow> only_io s (pci_write32 dev a v32 t)"
  "only_io s t \<Longrightarrow> only_io s (snd (pci_read64 dev a t))"
  by (simp_all add: write_word_def pci_read32_def pci_write32_def pci_read64_def split_beta Let_def
      only_io_bus_write only_io_bus_read)

lemma only_ioE:
  assumes "only_io s t"
  obtains h where "t = s\<lparr>io := h @ io s\<rparr>"
  using assms by (auto simp: only_io_def)

lemma write_command_io:
  assumes "e1000 s = Some n"
  shows "\<exists>h. write_command dev a v s = Some (s\<lparr>io := h @ io s\<rparr>)"
  using only_io_pci(3) [OF only_io_refl, of s dev "mem_base n + ucast a" v] assms
  by (auto simp: write_command_def only_io_def)

lemma read_command_io:
  assumes "e1000 s = Some n"
  shows "\<exists>v h. read_command dev a s = Some (v, s\<lparr>io := h @ io s\<rparr>)"
  using only_io_pci(2) [OF only_io_refl, of s dev "mem_base n + ucast a"] assms
  by (cases "pci_read32 dev (mem_base n + a) s") (auto simp: read_command_def only_io_def)

section \<open>Sending a frame\<close>

text \<open>
  The documented behaviour of the card: it sets the status of a transmit descriptor it has sent, so a
  driver that polls one of the eight reads a non-zero value after finitely many zeros, whatever happened
  before.
\<close>

definition card_reports :: "device \<Rightarrow> e1000_device_t \<Rightarrow> bool" where
  "card_reports dev n \<longleftrightarrow> (\<forall>i < 8. \<forall>h. \<exists>k. let a = tx_desc n i + 12 in
     take_bit 8 (dev (replicate k (In 1 a 0) @ h) 1 a) \<noteq> 0)"

lemma card_reports_index [simp]:
  "card_reports dev (n\<lparr>tx_cur := i\<rparr>) = card_reports dev n" "card_reports dev (n\<lparr>rx_cur := i\<rparr>) = card_reports dev n"
  by (simp_all add: card_reports_def tx_desc_def)

lemma unat_mod_8 [simp]: "unat (c mod 8 :: u16) < 8"
  by (simp add: unat_mod)

interpretation sent: polling_loop "\<lambda>dev. wait_sent dev a" 1 a "\<lambda>v. v = 0" for a
  by standard (subst wait_sent.simps, auto simp: split_beta Let_def)

lemma wait_sent_returns:
  assumes "card_reports dev n" "i < 8" "a = tx_desc n i + 12"
  shows "\<exists>h. wait_sent dev a s = Some (s\<lparr>io := h @ io s\<rparr>)"
proof -
  obtain k where k: "take_bit 8 (dev (replicate k (In 1 a 0) @ io s) 1 a) \<noteq> 0"
    using assms unfolding card_reports_def Let_def by blast
  have "\<exists>j. polled dev 1 a j (io s) \<noteq> 0"
  proof (rule ccontr)
    assume "\<nexists>j. polled dev 1 a j (io s) \<noteq> 0"
    then have "polls dev 1 a k (io s) = replicate k (In 1 a 0) @ io s" "polled dev 1 a k (io s) = 0"
      by (simp_all add: polls_zero)
    with k show False by (simp add: polled_def)
  qed
  then show ?thesis using sent.loop_extends by blast
qed

text \<open>The state in which the tail register is written: the descriptor filled in, the index advanced.\<close>

definition tx_filled :: "e1000_device_t \<Rightarrow> addr \<Rightarrow> u16 \<Rightarrow> 's e1000_state_scheme \<Rightarrow> 's e1000_state_scheme" where
  "tx_filled n p_data p_len s =
     (let d = tx_desc n (unat (tx_cur n)) in
      s\<lparr>io := [Out 1 (d + 12) 0, Out 1 (d + 11) 0xB, Out 2 (d + 8) (ucast p_len), Out 8 d (ucast p_data)] @ io s,
        e1000 := Some (n\<lparr>tx_cur := (tx_cur n + 1) mod 8\<rparr>)\<rparr>)"

lemma tx_filled_fields [simp]:
  "e1000 (tx_filled n p_data p_len s) = Some (n\<lparr>tx_cur := (tx_cur n + 1) mod 8\<rparr>)"
  "ram (tx_filled n p_data p_len s) = ram s" "wire (tx_filled n p_data p_len s) = wire s"
  by (simp_all add: tx_filled_def Let_def)

lemma send_packet_steps:
  assumes "e1000 s = Some n" "pci_device n \<noteq> None"
  shows "e1000_send_packet dev p_data p_len s =
    do { t \<leftarrow> write_command dev REG_TXDESCTAIL (ucast ((tx_cur n + 1) mod 8)) (tx_filled n p_data p_len s);
         u \<leftarrow> wait_sent dev (tx_desc n (unat (tx_cur n)) + 12)
               (t\<lparr>wire := wire t @ [load_bytes (ram t) p_data (unat p_len)]\<rparr>);
         Some (0, u) }"
  using assms
  by (simp add: e1000_send_packet_def e1000_is_available_def update_nic_def bus_write_def Let_def
      CMD_EOP_def CMD_IFCS_def CMD_RS_def tx_filled_def)

lemma send_packet_result:
  assumes "card_reports dev n" "e1000 s = Some n" "pci_device n \<noteq> None" "unat (tx_cur n) < 8"
  shows "\<exists>h. e1000_send_packet dev p_data p_len s = Some (0, s\<lparr>io := h,
    e1000 := Some (n\<lparr>tx_cur := (tx_cur n + 1) mod 8\<rparr>), wire := wire s @ [load_bytes (ram s) p_data (unat p_len)]\<rparr>)"
proof -
  let ?t = "tx_filled n p_data p_len s"
  obtain h1 where h1: "write_command dev REG_TXDESCTAIL (ucast ((tx_cur n + 1) mod 8)) ?t =
      Some (?t\<lparr>io := h1 @ io ?t\<rparr>)" using write_command_io [OF tx_filled_fields(1)] by blast
  let ?u = "(?t\<lparr>io := h1 @ io ?t\<rparr>)\<lparr>wire := wire s @ [load_bytes (ram s) p_data (unat p_len)]\<rparr>"
  obtain h2 where h2: "wait_sent dev (tx_desc n (unat (tx_cur n)) + 12) ?u = Some (?u\<lparr>io := h2 @ io ?u\<rparr>)"
    using wait_sent_returns [OF assms(1,4) refl] by blast
  then have "e1000_send_packet dev p_data p_len s = Some (0, ?u\<lparr>io := h2 @ io ?u\<rparr>)"
    by (simp add: send_packet_steps [OF assms(2,3)] h1)
  moreover have "?u\<lparr>io := h2 @ io ?u\<rparr> = s\<lparr>io := h2 @ io ?u, e1000 := Some (n\<lparr>tx_cur := (tx_cur n + 1) mod 8\<rparr>),
      wire := wire s @ [load_bytes (ram s) p_data (unat p_len)]\<rparr>" by (simp add: tx_filled_def Let_def)
  ultimately show ?thesis by metis
qed

text \<open>
  Property C30: \<^verbatim>\<open>e1000_send_packet\<close> with a card that reports what it sent returns 0 after the frame has been
  handed to the card exactly once: the current descriptor gets the address, the length, the command and
  a cleared status before the tail register moves, the ring index advances modulo 8, and memory and the
  rest of the state are as before. Without a card it returns -1 and does nothing.
\<close>

theorem e1000_send_packet_sends:
  assumes "card_reports dev n" "e1000 s = Some n" "unat (tx_cur n) < 8"
  shows "if pci_device n = None then e1000_send_packet dev p_data p_len s = Some (- 1, s)
    else \<exists>h1 h2. let t = tx_filled n p_data p_len s in
      write_command dev REG_TXDESCTAIL (ucast ((tx_cur n + 1) mod 8)) t = Some (t\<lparr>io := h1 @ io t\<rparr>) \<and>
      e1000_send_packet dev p_data p_len s =
        Some (0, t\<lparr>io := h2 @ h1 @ io t, wire := wire s @ [load_bytes (ram s) p_data (unat p_len)]\<rparr>)"
proof (cases "pci_device n = None")
  case True
  then show ?thesis using assms(2) by (simp add: e1000_send_packet_def e1000_is_available_def)
next
  case False
  let ?t = "tx_filled n p_data p_len s" and ?d = "tx_desc n (unat (tx_cur n))"
  obtain h1 where h1: "write_command dev REG_TXDESCTAIL (ucast ((tx_cur n + 1) mod 8)) ?t =
      Some (?t\<lparr>io := h1 @ io ?t\<rparr>)" using write_command_io [OF tx_filled_fields(1)] by blast
  let ?u = "(?t\<lparr>io := h1 @ io ?t\<rparr>)\<lparr>wire := wire s @ [load_bytes (ram s) p_data (unat p_len)]\<rparr>"
  obtain h2 where h2: "wait_sent dev (?d + 12) ?u = Some (?u\<lparr>io := h2 @ io ?u\<rparr>)"
    using wait_sent_returns [OF assms(1,3) refl] by blast
  have "e1000_send_packet dev p_data p_len s =
      Some (0, ?t\<lparr>io := h2 @ h1 @ io ?t, wire := wire s @ [load_bytes (ram s) p_data (unat p_len)]\<rparr>)"
    using h2 by (simp add: send_packet_steps [OF assms(2) False] h1)
  with h1 False show ?thesis by (simp only: if_False Let_def) blast
qed

section \<open>Receiving frames\<close>

text \<open>The frame the current descriptor offers.\<close>

definition rx_frame :: "device \<Rightarrow> e1000_device_t \<Rightarrow> 's e1000_state_scheme \<Rightarrow> u8 list" where
  "rx_frame dev n s =
     (let desc = rx_desc n (unat (rx_cur n)); (buf, s) = bus_read dev 8 desc s; (len, s) = bus_read dev 2 (desc + 8) s
      in dma_bytes dev s (ucast buf) (unat len))"

text \<open>
  The frames the card has ready, in order: the current descriptor's status bit is set and its buffer holds
  the frame, and so on after the driver has taken it; none is ready when the status bit is clear.
\<close>

inductive pending :: "device \<Rightarrow> 's e1000_state_scheme \<Rightarrow> u8 list list \<Rightarrow> bool" for dev where
  none: "rx_status dev s = Some (False, s') \<Longrightarrow> pending dev s []"
| ready: "rx_status dev s = Some (True, t) \<Longrightarrow> e1000 t = Some n \<Longrightarrow>
    pending dev (the (receive_one dev t)) frames \<Longrightarrow> pending dev s (rx_frame dev n t # frames)"

lemma queue_io_frame [frame_simps]:
  "queue_ok (s\<lparr>io := h\<rparr>) = queue_ok s" "packets (s\<lparr>io := h\<rparr>) = packets s"
  "queue_ok (s\<lparr>e1000 := d\<rparr>) = queue_ok s" "packets (s\<lparr>e1000 := d\<rparr>) = packets s"
  by (simp_all add: queue_ok_def packets_def)

lemma insert_packet_e1000: "insert_packet bytes s = Some s' \<Longrightarrow> e1000 s' = e1000 s"
  by (auto simp: insert_packet_def log_warn_full put_def Let_def split: if_splits)

lemma rx_status_io:
  "rx_status dev s = Some (b, t) \<Longrightarrow> \<exists>h. t = s\<lparr>io := h\<rparr>"
  by (auto simp: rx_status_def bus_read_def Let_def bind_eq_Some_conv)

lemma receive_one_queue:
  assumes "e1000 t = Some n" "queue_ok t" "length (rx_frame dev n t) \<le> 8192"
  shows "\<exists>s'. receive_one dev t = Some s' \<and> queue_ok s' \<and> e1000 s' = Some (n\<lparr>rx_cur := (rx_cur n + 1) mod 32\<rparr>) \<and>
    packets s' = (if length (packets t) < 127 then packets t @ [rx_frame dev n t] else packets t)"
proof -
  let ?d = "rx_desc n (unat (rx_cur n))"
  obtain buf t1 where r1: "bus_read dev 8 ?d t = (buf, t1)" "\<exists>h. t1 = t\<lparr>io := h\<rparr>"
    by (simp add: bus_read_def Let_def) blast
  obtain len t2 where r2: "bus_read dev 2 (?d + 8) t1 = (len, t2)" "\<exists>h. t2 = t1\<lparr>io := h\<rparr>"
    by (simp add: bus_read_def Let_def) blast
  let ?f = "dma_bytes dev t2 (ucast buf) (unat len)"
  have f: "rx_frame dev n t = ?f" by (simp add: rx_frame_def r1(1) r2(1))
  have t2: "queue_ok t2" "packets t2 = packets t" "e1000 t2 = Some n"
    using r1(2) r2(2) assms(1,2) by (auto simp: frame_simps)
  obtain t3 where t3: "insert_packet ?f t2 = Some t3" "queue_ok t3"
    "packets t3 = (if length (packets t) < 127 then packets t @ [?f] else packets t)"
    using insert_packet_queue [OF t2(1), of ?f] assms(3) f t2(2) by auto
  have e3: "e1000 t3 = Some n" using insert_packet_e1000 [OF t3(1)] t2(3) by simp
  let ?t4 = "(bus_write 1 (?d + 12) 0 t3)\<lparr>e1000 := Some (n\<lparr>rx_cur := (rx_cur n + 1) mod 32\<rparr>)\<rparr>"
  obtain h where h: "write_command dev REG_RXDESCTAIL (ucast (rx_cur n)) ?t4 = Some (?t4\<lparr>io := h @ io ?t4\<rparr>)"
  proof -
    have "e1000 ?t4 = Some (n\<lparr>rx_cur := (rx_cur n + 1) mod 32\<rparr>)" by simp
    from write_command_io [OF this] show ?thesis using that by blast
  qed
  have "receive_one dev t = Some (?t4\<lparr>io := h @ io ?t4\<rparr>)"
    using h by (simp add: receive_one_def assms(1) r1(1) r2(1) t3(1) update_nic_def e3 bus_write_def Let_def)
  then show ?thesis using t3 f by (simp add: bus_write_def frame_simps)
qed

lemma receive_loop_queue:
  assumes "pending dev s frames" "queue_ok s" "e1000 s = Some n" "unat (rx_cur n) < 32"
    and "list_all (\<lambda>f. length f \<le> 8192) frames"
  shows "\<exists>s' n'. receive_loop dev s = Some s' \<and> queue_ok s' \<and> packets s' = take 127 (packets s @ frames) \<and>
    e1000 s' = Some n' \<and> unat (rx_cur n') = (unat (rx_cur n) + length frames) mod 32"
  using assms
proof (induction arbitrary: n rule: pending.induct)
  case (none s s')
  then obtain h where "s' = s\<lparr>io := h\<rparr>" using rx_status_io by blast
  then show ?case using none packet_ring.queue_bounded [OF none(2)]
    by (subst receive_loop.simps) (simp add: frame_simps)
next
  case (ready s t m frames)
  obtain h where t: "t = s\<lparr>io := h\<rparr>" using rx_status_io [OF ready(1)] by blast
  have m: "m = n" "queue_ok t" "packets t = packets s" using ready t by (auto simp: frame_simps)
  obtain u where u: "receive_one dev t = Some u" "queue_ok u" "e1000 u = Some (n\<lparr>rx_cur := (rx_cur n + 1) mod 32\<rparr>)"
    "packets u = (if length (packets s) < 127 then packets s @ [rx_frame dev n t] else packets s)"
    using receive_one_queue [OF ready(2) m(2), of dev] ready(8) unfolding m by auto
  have cur: "unat ((rx_cur n + 1) mod 32) = (unat (rx_cur n) + 1) mod 32"
    using ready(7) by (simp add: unat_mod unat_word_ariths)
  have lt: "unat ((rx_cur n + 1) mod 32) < 32" unfolding cur by simp
  from ready.IH [of "n\<lparr>rx_cur := (rx_cur n + 1) mod 32\<rparr>"] u ready(8) lt
  obtain s' n' where IH: "receive_loop dev u = Some s'" "queue_ok s'" "packets s' = take 127 (packets u @ frames)"
    "e1000 s' = Some n'" "unat (rx_cur n') = (unat ((rx_cur n + 1) mod 32) + length frames) mod 32"
    by auto
  have "receive_loop dev s = Some s'"
    using ready(1) u(1) IH(1) by (subst receive_loop.simps) simp
  moreover have "take 127 (packets u @ frames) = take 127 (packets s @ rx_frame dev m t # frames)"
    using u(4) m(1) packet_ring.queue_bounded [OF ready(5)] by (auto simp: take_Cons')
  moreover have "(unat ((rx_cur n + 1) mod 32) + length frames) mod 32 =
      (unat (rx_cur n) + length (rx_frame dev m t # frames)) mod 32"
    unfolding cur by (simp add: mod_simps)
  ultimately show ?case using IH by auto
qed



section \<open>What the receive loop touches\<close>

text \<open>
  A relation between states that holds for the four things the driver does while it receives: it accesses the
  bus, inserts into the receive queue, and moves its index. It then holds for the whole loop.
\<close>

locale receive_frame =
  fixes R :: "'s e1000_state_scheme \<Rightarrow> 's e1000_state_scheme \<Rightarrow> bool"
  assumes R_refl: "R s s"
    and R_trans: "R s t \<Longrightarrow> R t u \<Longrightarrow> R s u"
    and R_io: "R s (s\<lparr>io := h\<rparr>)"
    and R_insert: "insert_packet bytes s = Some s' \<Longrightarrow> R s s'"
    and R_index: "e1000 s = Some n \<Longrightarrow> R s (s\<lparr>e1000 := Some (n\<lparr>rx_cur := k\<rparr>)\<rparr>)"
begin

lemma command:
  "write_command dev a v s = Some s' \<Longrightarrow> R s s'" "rx_status dev s = Some (b, s') \<Longrightarrow> R s s'"
proof -
  show "R s s'" if c: "write_command dev a v s = Some s'"
  proof -
    obtain n where "e1000 s = Some n" using c by (auto simp: write_command_def bind_eq_Some_conv)
    then show ?thesis using write_command_io [of s n dev a v] c R_io by auto
  qed
  show "R s s'" if "rx_status dev s = Some (b, s')" using rx_status_io [OF that] R_io by auto
qed

lemma register: "read_command dev a s = Some (v, s') \<Longrightarrow> R s s'"
proof -
  assume c: "read_command dev a s = Some (v, s')"
  then obtain n where "e1000 s = Some n" by (auto simp: read_command_def bind_eq_Some_conv)
  then show ?thesis using read_command_io [of s n dev a] c R_io by auto
qed

lemma one:
  assumes "receive_one dev s = Some s'"
  shows "R s s'"
proof -
  let ?d = "\<lambda>n. rx_desc n (unat (rx_cur n))"
  obtain n where n: "e1000 s = Some n" using assms by (auto simp: receive_one_def bind_eq_Some_conv)
  obtain buf s1 where r1: "bus_read dev 8 (?d n) s = (buf, s1)" "\<exists>h. s1 = s\<lparr>io := h\<rparr>"
    by (simp add: bus_read_def Let_def) blast
  obtain len s2 where r2: "bus_read dev 2 (?d n + 8) s1 = (len, s2)" "\<exists>h. s2 = s1\<lparr>io := h\<rparr>"
    by (simp add: bus_read_def Let_def) blast
  obtain s3 where s3: "insert_packet (dma_bytes dev s2 (ucast buf) (unat len)) s2 = Some s3"
    using assms by (auto simp: receive_one_def n r1(1) r2(1) bind_eq_Some_conv)
  have e3: "e1000 s3 = Some n" using insert_packet_e1000 [OF s3] r1(2) r2(2) n by auto
  let ?s4 = "s3\<lparr>io := Out 1 (?d n + 12) 0 # io s3\<rparr>"
  let ?s5 = "?s4\<lparr>e1000 := Some (n\<lparr>rx_cur := (rx_cur n + 1) mod 32\<rparr>)\<rparr>"
  have w: "write_command dev REG_RXDESCTAIL (ucast (rx_cur n)) ?s5 = Some s'"
    using assms s3 e3 by (simp add: receive_one_def n r1(1) r2(1) update_nic_def bus_write_def Let_def)
  obtain h where "s2 = s\<lparr>io := h\<rparr>" using r1(2) r2(2) by auto
  then have "R s s3" using R_io R_insert [OF s3] R_trans by blast
  moreover have "R ?s4 ?s5" by (rule R_index) (simp add: e3)
  then have "R s3 ?s5" using R_io R_trans by blast
  ultimately show ?thesis using command(1) [OF w] R_trans by blast
qed

lemma loop:
  assumes "receive_loop dev s = Some s'"
  shows "R s s'"
proof (rule receive_loop.raw_induct [OF _ assms])
  fix f dev s s'
  assume IH: "\<And>dev s s'. f dev s = Some s' \<Longrightarrow> R s s'"
    and step: "rx_status dev s \<bind> (\<lambda>(ready, s). if ready then receive_one dev s \<bind> f dev else Some s) = Some s'"
  then obtain b t where t: "rx_status dev s = Some (b, t)"
    "(if b then Option.bind (receive_one dev t) (f dev) else Some t) = Some s'" by (auto simp: bind_eq_Some_conv)
  have "R t s'"
  proof (cases b)
    case True
    then obtain u where "receive_one dev t = Some u" "f dev u = Some s'" using t(2) by (auto simp: bind_eq_Some_conv)
    then show ?thesis using one IH by (blast intro: R_trans)
  next
    case False
    then show ?thesis using t(2) R_refl by simp
  qed
  with command(2) [OF t(1)] show "R s s'" by (rule R_trans)
qed

lemma link:
  assumes "start_link dev s = Some s'"
  shows "R s s'"
proof -
  obtain v t where t: "read_command dev (ucast REG_CTRL) s = Some (v, t)" "write_command dev REG_CTRL (v OR ECTRL_SLU) t = Some s'"
    using assms by (auto simp: start_link_def bind_eq_Some_conv)
  show ?thesis using register [OF t(1)] command(1) [OF t(2)] by (rule R_trans)
qed

lemma irq_handler:
  assumes "e1000_irq_handler dev s = Some s'"
  shows "R s s'"
proof -
  obtain t cause u v where
    t: "write_command dev REG_IMASK 0x1 s = Some t" "read_command dev (ucast REG_INT_CAUSE) t = Some (cause, u)"
      "(if cause AND LSC \<noteq> 0 then start_link dev u else Some u) = Some v"
      "(if cause AND RXT0 \<noteq> 0 then receive_packet dev v else Some v) = Some s'"
    using assms by (auto simp: e1000_irq_handler_def bind_eq_Some_conv)
  have "R s u" using command(1) [OF t(1)] register [OF t(2)] by (rule R_trans)
  moreover have "R u v" using t(3) link R_refl by (auto split: if_splits)
  moreover have "R v s'" using t(4) loop R_refl by (auto simp: receive_packet_def bind_eq_Some_conv split: if_splits)
  ultimately show ?thesis using R_trans by blast
qed

end

text \<open>
  The slot before the start index, which holds the packet the network task works on, is left alone, and so is the
  start index, which only the task moves.
\<close>

definition slot_kept :: "'s queue_state_scheme \<Rightarrow> 's queue_state_scheme \<Rightarrow> bool" where
  "slot_kept s s' \<longleftrightarrow> (queue_ok s \<longrightarrow> queue_ok s' \<and> recv_queue_start s' = recv_queue_start s \<and>
     (\<forall>i < 128. recv_queue_start s = (i + 1) mod 128 \<longrightarrow> recv_packet_queue s' ! i = recv_packet_queue s ! i))"

lemma slot_kept_insert:
  assumes "insert_packet bytes s = Some s'"
  shows "slot_kept s s'"
proof (cases "queue_ok s \<and> length bytes \<le> 8192")
  case True
  then have "queue_ok s" "length bytes \<le> 8192" by simp_all
  from insert_packet_queue [OF this] insert_packet_slot [OF this assms] assms show ?thesis
    by (auto simp: slot_kept_def)
next
  case False
  then show ?thesis using assms by (auto simp: slot_kept_def insert_packet_def Let_def log_warn_full frame_simps queue_ok_def split: if_splits)
qed

interpretation slot: receive_frame slot_kept
  by standard (simp_all add: slot_kept_insert, auto simp: slot_kept_def frame_simps)

text \<open>Behind the packets that wait others are appended, none is lost or changed.\<close>

definition queue_grows :: "'s queue_state_scheme \<Rightarrow> 's queue_state_scheme \<Rightarrow> bool" where
  "queue_grows s s' \<longleftrightarrow> slot_kept s s' \<and> (queue_ok s \<longrightarrow> (\<exists>new. waiting s' = waiting s @ new))"

lemma queue_grows_trans: "queue_grows s t \<Longrightarrow> queue_grows t u \<Longrightarrow> queue_grows s u"
  using slot.R_trans by (fastforce simp: queue_grows_def slot_kept_def)

lemma queue_grows_same:
  "recv_queue_start s' = recv_queue_start s \<Longrightarrow> recv_queue_end s' = recv_queue_end s \<Longrightarrow>
   recv_packet_queue s' = recv_packet_queue s \<Longrightarrow> queue_grows s s'"
  by (simp add: queue_grows_def slot_kept_def waiting_def queue_ok_def)

interpretation grows: receive_frame queue_grows
proof
  show "queue_grows s s'" if "insert_packet bytes s = Some s'" for bytes and s s' :: "'a e1000_state_scheme"
    using that slot_kept_insert insert_packet_waiting by (auto simp: queue_grows_def)
qed (auto intro: queue_grows_trans queue_grows_same)

section \<open>Witnesses\<close>

definition nic0 :: e1000_device_t where
  "nic0 = \<lparr>device_base = 0x5000010, io_base = 0x43000000, mem_base = 0x50000000, eeprom_exists = True,
     nic_mac = [0x56, 0x34, 0x12, 0x00, 0x54, 0x52], rx_cur = 0, tx_cur = 0, pci_device = Some 1\<rparr>"

definition card0 :: e1000_state where
  "card0 = queue_state.extend queue0 \<lparr>e1000 = Some nic0, wire = []\<rparr>"

lemma card0_fields [simp]:
  "e1000 card0 = Some nic0" "wire card0 = []" "recv_queue_start card0 = 0" "recv_queue_end card0 = 0"
  "recv_packet_queue card0 = replicate 128 empty_packet" "io card0 = []" "clock card0 = 0"
  by (simp_all add: card0_def queue_state.defs queue0_def pci_state.defs pci0_def sched_state.defs sched0_def)

lemma card0_ok: "queue_ok card0" "packets card0 = []"
  by (simp_all add: queue_ok_def packets_def ring_list_def ring_length_def empty_packet_def)

text \<open>A card that is always done and whose board is little-endian.\<close>

definition quick_card :: device where
  "quick_card h w a = (if w = 1 then 1 else 0)"

lemma quick_card_reports: "card_reports quick_card n" "has_byte_order quick_card False"
  by (simp_all add: card_reports_def quick_card_def has_byte_order_def)

theorem e1000_send_packet_sends_witness:
  "\<exists>s'. e1000_send_packet quick_card 0x5000400 4 card0 = Some (0, s') \<and>
     wire s' = [load_bytes (ram card0) 0x5000400 4]"
  using e1000_send_packet_sends [OF quick_card_reports(1) card0_fields(1) _, of "0x5000400" 4]
  by (auto simp: nic0_def Let_def)

text \<open>A card with one frame of three bytes, until the driver clears the status.\<close>

definition one_frame :: device where
  "one_frame h w a =
     (if w = 1 then (if Out 1 0x500001C 0 \<in> set h then 0 else 1) else if w = 2 then 3 else 0)"

lemma one_frame_pending: "pending one_frame card0 [[1, 1, 1]]"
proof -
  let ?t = "card0\<lparr>io := [In 1 0x500001C 1]\<rparr>"
  have st: "rx_status one_frame card0 = Some (True, ?t)"
    by (simp add: rx_status_def bus_read_def Let_def rx_desc_def nic0_def one_frame_def)
  have fr: "rx_frame one_frame nic0 ?t = [1, 1, 1]"
    by (simp add: rx_frame_def bus_read_def Let_def rx_desc_def nic0_def one_frame_def dma_bytes_def upt_rec)
  let ?i = "[In 2 0x5000018 3, In 8 0x5000010 0]" and ?q = "recv_packet_queue (the (insert_packet [1, 1, 1] card0))"
  have "insert_packet [1, 1, 1] (card0\<lparr>io := ?i @ io ?t\<rparr>) =
      Some (card0\<lparr>io := ?i @ io ?t, recv_packet_queue := ?q, recv_queue_end := 1\<rparr>)"
    by (simp add: insert_packet_def Let_def)
  then have "receive_one one_frame ?t = Some (card0\<lparr>io := Out 4 0x50002818 0 # Out 1 0x500001C 0 # ?i @ io ?t,
      recv_packet_queue := ?q, recv_queue_end := 1, e1000 := Some (nic0\<lparr>rx_cur := 1\<rparr>)\<rparr>)"
    by (simp add: receive_one_def bus_read_def bus_write_def Let_def rx_desc_def nic0_def one_frame_def dma_bytes_def
        upt_rec update_nic_def write_command_def pci_write32_def write_word_def REG_RXDESCTAIL_def)
  then have "pending one_frame (the (receive_one one_frame ?t)) []"
    by (intro pending.none) (simp add: rx_status_def bus_read_def Let_def rx_desc_def nic0_def one_frame_def)
  from pending.ready [OF st _ this] fr show ?thesis by simp
qed


end
