(* ===== verification/Ethernet.thy ===== *)
theory Ethernet
  imports E1000
begin

text \<open>
  The ethernet layer: \<^verbatim>\<open>kernel/network/ethernet.c\<close>. A frame is built in a heap block, handed to the card
  and freed. The theorem says which bytes leave the card and that the heap, the memory of every other
  object and the rest of the state are as before.
\<close>

definition MINIMUM_PAYLOAD_LENGTH :: u32 where [simp]: "MINIMUM_PAYLOAD_LENGTH = 46"

definition TYPE_ARP :: u16 where "TYPE_ARP = 0x0806"
definition TYPE_IPv4 :: u16 where "TYPE_IPv4 = 0x0800"
definition TYPE_IPv6 :: u16 where "TYPE_IPv6 = 0x86dd"

text \<open>\<^verbatim>\<open>ethernet_frame_t\<close>: destination at 0, source at 6, type at 12, payload at 14 (the enumeration
  \<^verbatim>\<open>ether_type\<close> takes two bytes on the target \<^verbatim>\<open>arm-none-eabi\<close>, whose enumerations are as short as their values allow).\<close>

definition sizeof_ethernet_frame_t :: u32 where [simp]: "sizeof_ethernet_frame_t = 14"

definition ethernet_send ::
  "device \<Rightarrow> mac_address_t \<Rightarrow> u16 \<Rightarrow> addr \<Rightarrow> size_t \<Rightarrow> 's e1000_state_scheme \<Rightarrow> 's e1000_state_scheme option" where
  "ethernet_send dev dest_mac eth_type payload len_payload s =
     do { let len_padding = (if len_payload < MINIMUM_PAYLOAD_LENGTH
                then ucast (MINIMUM_PAYLOAD_LENGTH - len_payload) else 0 :: u8);
          let len = ucast len_padding + len_payload;
          (eth_frame, s) \<leftarrow> malloc (sizeof_ethernet_frame_t + len) s;
          let (dest, s) = hton_mac dev dest_mac s;
          let s = s\<lparr>ram := store_bytes (ram s) eth_frame dest\<rparr>;
          own \<leftarrow> e1000_get_mac s;
          let (src, s) = hton_mac dev own s;
          let s = s\<lparr>ram := store_bytes (ram s) (eth_frame + 6) src\<rparr>;
          let (type, s) = htons dev eth_type s;
          let s = s\<lparr>ram := store_le (ram s) (eth_frame + 12) 2 type\<rparr>;
          let s = s\<lparr>ram := memcpy (ram s) (eth_frame + 14) payload len\<rparr>;
          let s = (if len_padding \<noteq> 0
                then s\<lparr>ram := memset (ram s) (eth_frame + 14 + len_payload) 0 (ucast len_padding)\<rparr> else s);
          (_, s) \<leftarrow> e1000_send_packet dev eth_frame (ucast (sizeof_ethernet_frame_t + len)) s;
          Some (free eth_frame s) }"

text \<open>\<^verbatim>\<open>INTTOHEXCHAR\<close> and \<^verbatim>\<open>mac_to_str\<close>: the address in network order, two digits per byte. As in
  \<^verbatim>\<open>clock_time_to_str\<close> the literal is overwritten by each call, in all positions but the colons.\<close>

definition INTTOHEXCHAR :: "u8 \<Rightarrow> char" where
  "INTTOHEXCHAR val = (if val > 9 then char_of (unat val + 97 - 10) else char_of (unat val + 48))"

definition mac_to_str :: "device \<Rightarrow> mac_address_t \<Rightarrow> 's io_state_scheme \<Rightarrow> string \<times> 's io_state_scheme" where
  "mac_to_str dev mac s =
     (let (mac, s) = hton_mac dev mac s
      in (fold (\<lambda>i tmp. tmp[3 * i := INTTOHEXCHAR (drop_bit 4 (mac ! i)),
                            3 * i + 1 := INTTOHEXCHAR (mac ! i AND 0x0F)]) [0..<6] ''00:11:22:33:44:55'', s))"

section \<open>The frame in memory\<close>

lemma in_range_offsets:
  assumes "unat p + N < 2 ^ 32" "k \<le> N" "off + n \<le> N"
  shows "in_range (p + of_nat k) (p + of_nat off) n \<longleftrightarrow> off \<le> k \<and> k < off + n"
    and "off \<le> k \<Longrightarrow> unat (p + of_nat k - (p + of_nat off)) = k - off"
proof -
  have k: "unat (p + of_nat k) = unat p + k" and o: "unat (p + of_nat off) = unat p + off"
    using assms by (auto intro: unat_add_small)
  show "unat (p + of_nat k - (p + of_nat off)) = k - off" if "off \<le> k"
  proof -
    have "p + of_nat off \<le> p + of_nat k" using k o that by (simp add: word_le_nat_alt)
    then show ?thesis using k o that by (simp only: unat_sub)
  qed
  show "in_range (p + of_nat k) (p + of_nat off) n \<longleftrightarrow> off \<le> k \<and> k < off + n"
    using assms k o by (subst in_range_unat) auto
qed

text \<open>The memory after the frame has been written at \<open>p\<close>: its fourteen bytes of header, then the
  payload with its padding.\<close>

definition header_memory :: "mem \<Rightarrow> addr \<Rightarrow> u8 list \<Rightarrow> u8 list \<Rightarrow> u16 \<Rightarrow> mem" where
  "header_memory m p dest src type =
     store_le (store_bytes (store_bytes m p dest) (p + 6) src) (p + 12) 2 type"

definition frame_memory ::
  "mem \<Rightarrow> addr \<Rightarrow> u8 list \<Rightarrow> u8 list \<Rightarrow> u16 \<Rightarrow> addr \<Rightarrow> nat \<Rightarrow> nat \<Rightarrow> mem" where
  "frame_memory m p dest src type payload n pad =
     (let m = memcpy (header_memory m p dest src type) (p + 14) payload (of_nat (n + pad))
      in if pad \<noteq> 0 then memset m (p + 14 + of_nat n) 0 (of_nat pad) else m)"

lemma header_memory_at:
  assumes "length dest = 6" "length src = 6"
  shows "header_memory m p dest src type x =
    (if in_range x (p + 12) 2 then byte_of type (unat (x - (p + 12)))
     else if in_range x (p + 6) 6 then src ! unat (x - (p + 6))
     else if in_range x p 6 then dest ! unat (x - p) else m x)"
  using assms by (simp add: header_memory_def store_le_def store_bytes_apply in_range_def)

lemma frame_memory_at:
  assumes p: "unat p + (14 + n + pad) < 2 ^ 32"
  shows "frame_memory m p dest src type payload n pad x =
    (if in_range x (p + 14 + of_nat n) pad then 0
     else memcpy (header_memory m p dest src type) (p + 14) payload (of_nat (n + pad)) x)"
proof (cases "pad = 0")
  case False
  have "unat (p + 14 + of_nat n) = unat p + 14 + n" "unat (of_nat pad :: u32) = pad"
    using unat_add_small [of p "14 + n"] p by (simp_all add: add.assoc unat_of_nat_small)
  then show ?thesis using False memset_eq [of "p + 14 + of_nat n" "of_nat pad"] p by (simp add: frame_memory_def)
qed (simp add: frame_memory_def in_range_def)

text \<open>Outside the payload the header is what is seen; outside the frame, the memory of before.\<close>

lemma frame_memory_header:
  assumes p: "unat p + (14 + n + pad) < 2 ^ 32" and x: "\<not> in_range x (p + 14) (n + pad)"
  shows "frame_memory m p dest src type payload n pad x = header_memory m p dest src type x"
proof -
  have "unat (of_nat (n + pad) :: u32) = n + pad" using p by (intro unat_of_nat_small) simp
  then have "memcpy m' (p + 14) payload (of_nat (n + pad)) x = m' x" for m'
    using x memcpy_loop_outside [of "n + pad" x "p + 14" 0] p by (simp add: memcpy_def)
  moreover have "\<not> in_range x (p + 14 + of_nat n) pad"
    using x in_range_sub [of x "p + 14" n pad "n + pad"] p by auto
  ultimately show ?thesis by (simp add: frame_memory_at [OF p])
qed

lemma frame_memory_outside:
  assumes p: "unat p + (14 + n + pad) < 2 ^ 32" and macs: "length dest = 6" "length src = 6"
    and x: "\<not> in_range x p (14 + n + pad)"
  shows "header_memory m p dest src type x = m x" "frame_memory m p dest src type payload n pad x = m x"
proof -
  have sub: "\<not> in_range x (p + of_nat off) k" if "off + k \<le> 14 + n + pad" for off k
    using x that p in_range_sub [of x p off k] by auto
  show h: "header_memory m p dest src type x = m x"
    using sub [of 0 6] sub [of 6 6] sub [of 12 2] by (simp add: header_memory_at [OF macs])
  show "frame_memory m p dest src type payload n pad x = m x"
    using sub [of 14 "n + pad"] by (simp add: frame_memory_header [OF p] h)
qed

text \<open>The three parts of the frame, byte by byte.\<close>

lemma frame_memory_parts:
  fixes m :: mem and type :: u16 and payload :: addr
  assumes p: "unat p + (14 + n + pad) < 2 ^ 32" and macs: "length dest = 6" "length src = 6"
  defines "M \<equiv> frame_memory m p dest src type payload n pad"
  shows "k < 14 \<Longrightarrow> M (p + of_nat k) = (dest @ src @ octets16 type) ! k"
    and "j < n \<Longrightarrow> \<not> in_range (payload + of_nat j) p (14 + n + pad) \<Longrightarrow>
      M (p + of_nat (14 + j)) = m (payload + of_nat j)"
    and "j < pad \<Longrightarrow> M (p + of_nat (14 + n + j)) = 0"
proof -
  have at: "in_range (p + of_nat k) (p + of_nat o1) l \<longleftrightarrow> o1 \<le> k \<and> k < o1 + l"
    if "k < 14 + n + pad" "o1 + l \<le> 14 + n + pad" for k o1 l
    using in_range_offsets(1) [OF p, of k o1 l] that by simp
  have dif: "unat (p + of_nat k - (p + of_nat o1)) = k - o1" if "k < 14 + n + pad" "o1 \<le> k" for k o1
    using in_range_offsets(2) [OF p, of k o1 0] that by simp
  show "M (p + of_nat k) = (dest @ src @ octets16 type) ! k" if k: "k < 14"
  proof -
    have k': "k < 14 + n + pad" using k by simp
    note o = at [OF k', of 0 6, simplified] at [OF k', of 6 6, simplified] at [OF k', of 12 2, simplified]
      at [OF k', of 14 "n + pad", simplified]
    note d = dif [OF k', of 0, simplified] dif [OF k', of 6, simplified] dif [OF k', of 12, simplified]
    consider "k < 6" | "6 \<le> k" "k < 12" | "k = 12" | "k = 13" using k by linarith
    then show ?thesis
      using macs o d by cases (auto simp: M_def frame_memory_header [OF p] header_memory_at nth_append octets16_def)
  qed
  show "M (p + of_nat (14 + j)) = m (payload + of_nat j)"
    if j: "j < n" and out: "\<not> in_range (payload + of_nat j) p (14 + n + pad)"
  proof -
    have "unat (of_nat (n + pad) :: u32) = n + pad" using p by (intro unat_of_nat_small) simp
    moreover have "\<not> in_range (payload + of_nat j) (p + 14) (n + pad)"
      using out in_range_sub [of "payload + of_nat j" p 14 "n + pad" "14 + n + pad"] p by auto
    ultimately have "memcpy m' (p + 14) payload (of_nat (n + pad)) (p + 14 + of_nat j) = m' (payload + of_nat j)" for m'
      using memcpy_loop_inside [of "n + pad" j payload 0 "p + 14" m'] j p by (simp add: memcpy_def)
    then show ?thesis
      using j at [of "14 + j" "14 + n" pad] frame_memory_outside(1) [OF p macs out]
      by (simp add: M_def frame_memory_at [OF p] add.assoc)
  qed
  show "M (p + of_nat (14 + n + j)) = 0" if "j < pad"
    using that at [of "14 + n + j" "14 + n" pad] by (simp add: M_def frame_memory_at [OF p] add.assoc)
qed

lemma load_bytes_frame:
  assumes p: "unat p + (14 + n + pad) < 2 ^ 32" and macs: "length dest = 6" "length src = 6"
    and pay: "\<And>i. i < n \<Longrightarrow> \<not> in_range (payload + of_nat i) p (14 + n + pad)"
  shows "load_bytes (frame_memory m p dest src type payload n pad) p (14 + n + pad) =
      dest @ src @ octets16 type @ load_bytes m payload n @ replicate pad 0"
    (is "load_bytes ?M p ?N = ?bytes")
proof (rule nth_equalityI)
  note parts = frame_memory_parts [OF p macs, where m = m and type = type and payload = payload]
  show "length (load_bytes ?M p ?N) = length ?bytes" using macs by (simp add: octets16_def)
  fix k assume "k < length (load_bytes ?M p ?N)"
  then have k: "k < ?N" by simp
  have "?M (p + of_nat k) = ?bytes ! k"
  proof -
    consider "k < 14" | j where "k = 14 + j" "j < n" | j where "k = 14 + n + j" "j < pad"
      using k less_imp_add_positive by (metis add.assoc le_Suc_ex nat_add_left_cancel_less not_less)
    then show ?thesis
    proof cases
      case 1
      then show ?thesis
        using macs parts(1) [of k] nth_append [of "dest @ src @ octets16 type" "load_bytes m payload n @ replicate pad 0" k]
        by (simp add: octets16_def)
    next
      case (2 j)
      then show ?thesis using macs parts(2) [of j] pay by (simp add: nth_append octets16_def del: of_nat_add)
    next
      case (3 j)
      then show ?thesis using macs parts(3) [of j] by (simp add: nth_append octets16_def del: of_nat_add)
    qed
  qed
  then show "load_bytes ?M p ?N ! k = ?bytes ! k" using k by simp
qed


section \<open>Sending a frame\<close>

text \<open>The network can send: a little-endian board, a card that reports, a driver with a card.\<close>

definition net_ready :: "device \<Rightarrow> 's e1000_state_scheme \<Rightarrow> e1000_device_t \<Rightarrow> bool" where
  "net_ready dev s n \<longleftrightarrow> card_reports dev n \<and> has_byte_order dev False \<and> e1000 s = Some n \<and>
     unat (tx_cur n) < 8 \<and>
     pci_device n \<noteq> None \<and> length (nic_mac n) = 6"

text \<open>The frame on the wire: addresses and type in network byte order, zeros up to the minimum length.\<close>

definition ethernet_bytes :: "mac_address_t \<Rightarrow> mac_address_t \<Rightarrow> u16 \<Rightarrow> u8 list \<Rightarrow> u8 list" where
  "ethernet_bytes dest src type payload =
     rev dest @ rev src @ [byte_of type 1, byte_of type 0] @ payload @ replicate (46 - length payload) 0"

lemma heap_frame [frame_simps]:
  "heap_rep bs fs (s\<lparr>io := h\<rparr>) = heap_rep bs fs s" "heap_object g (s\<lparr>io := h\<rparr>) = heap_object g s"
  "heap_rep bs fs (s\<lparr>e1000 := d\<rparr>) = heap_rep bs fs s" "heap_object g (s\<lparr>e1000 := d\<rparr>) = heap_object g s"
  "heap_rep bs fs (s\<lparr>wire := w\<rparr>) = heap_rep bs fs s" "heap_object g (s\<lparr>wire := w\<rparr>) = heap_object g s"
  "heap_room fs k (s\<lparr>io := h\<rparr>) = heap_room fs k s" "heap_room fs k (s\<lparr>e1000 := d\<rparr>) = heap_room fs k s"
  "heap_room fs k (s\<lparr>wire := w\<rparr>) = heap_room fs k s"
  by (simp_all add: heap_rep_def heap_object_def heap_room_def fun_eq_iff)

lemma free_frame [frame_simps]:
  "free p (s\<lparr>io := h\<rparr>) = (free p s)\<lparr>io := h\<rparr>" "free p (s\<lparr>e1000 := d\<rparr>) = (free p s)\<lparr>e1000 := d\<rparr>"
  "free p (s\<lparr>wire := w\<rparr>) = (free p s)\<lparr>wire := w\<rparr>"
  by (simp_all add: free_def Let_def)

lemma heap_only_fields:
  assumes "heap_only s s'"
  shows "e1000 s' = e1000 s" "wire s' = wire s" "io s' = io s"
proof -
  have "s' = s\<lparr>errno := errno s', ram := ram s', current_heap_address := current_heap_address s',
      free_block_list_head_next := free_block_list_head_next s'\<rparr>" using assms by (simp only: heap_only_def)
  from arg_cong [OF this, of e1000] arg_cong [OF this, of wire] arg_cong [OF this, of io]
  show "e1000 s' = e1000 s" "wire s' = wire s" "io s' = io s" by simp_all
qed

text \<open>The padding the source computes in a byte, and the length it adds up to.\<close>

lemma frame_padding:
  fixes len_payload :: size_t
  defines "pad \<equiv> (if len_payload < 46 then ucast (46 - len_payload) else 0 :: u8)"
  shows "pad = 0 \<longleftrightarrow> 46 - unat len_payload = 0"
    and "ucast pad = (of_nat (46 - unat len_payload) :: size_t)"
    and "ucast pad + len_payload = of_nat (max 46 (unat len_payload))"
proof -
  have pad: "unat pad = 46 - unat len_payload"
  proof (cases "len_payload < 46")
    case True
    then have "unat (46 - len_payload) = 46 - unat len_payload" by (simp add: unat_sub word_less_nat_alt word_le_nat_alt)
    with True show ?thesis by (simp add: pad_def unsigned_ucast_eq word_less_nat_alt take_bit_nat_eq_self)
  qed (simp add: pad_def word_less_nat_alt)
  then show "pad = 0 \<longleftrightarrow> 46 - unat len_payload = 0" using unat_eq_0 [of pad] by simp
  have "(ucast pad :: size_t) = of_nat (unat pad)" by simp
  then show u: "(ucast pad :: size_t) = of_nat (46 - unat len_payload)" by (simp only: pad)
  have "(of_nat (46 - unat len_payload) :: size_t) + of_nat (unat len_payload) = of_nat (max 46 (unat len_payload))"
    unfolding of_nat_add [symmetric] by (intro arg_cong [where f = of_nat]) simp
  then show "ucast pad + len_payload = of_nat (max 46 (unat len_payload))" by (simp add: u)
qed

lemma ucast_of_nat_u16: "(ucast (of_nat k :: u32) :: u16) = of_nat k"
  by (simp only: word_unat_eq_iff) (simp add: unsigned_ucast_eq unsigned_of_nat take_bit_take_bit)

lemma hton_mac_little:
  "has_byte_order dev False \<Longrightarrow> length mac = 6 \<Longrightarrow> \<exists>e. hton_mac dev mac s = (rev mac, s\<lparr>io := e # io s\<rparr>)"
  using conversions(5) [of dev False mac s] by (auto simp: swap_mac_def reverse_mac_rev)

text \<open>The steps of \<^verbatim>\<open>ethernet_send\<close> after the allocation, on a little-endian board.\<close>

lemma ethernet_send_steps:
  fixes payload :: addr and type :: u16
  assumes ready: "net_ready dev s n" and dest: "length dest = 6"
    and alloc: "malloc (14 + of_nat (max 46 (unat len_payload))) s = Some (p, s1)"
    and s1: "e1000 s1 = Some n"
  defines "N \<equiv> max 46 (unat len_payload)"
  defines "m \<equiv> frame_memory (ram s1) p (rev dest) (rev (nic_mac n)) (bswap16 type) payload
      (unat len_payload) (46 - unat len_payload)"
  shows "\<exists>h. ethernet_send dev dest type payload len_payload s =
    do { (_, t) \<leftarrow> e1000_send_packet dev p (of_nat (14 + N)) (s1\<lparr>io := h @ io s1, ram := m\<rparr>); Some (free p t) }"
proof -
  have dev: "has_byte_order dev False" and mac: "length (nic_mac n) = 6"
    using ready by (simp_all add: net_ready_def)
  let ?m1 = "store_bytes (ram s1) p (rev dest)"
  obtain e1 where e1: "hton_mac dev dest s1 = (rev dest, s1\<lparr>io := e1 # io s1\<rparr>)"
    using hton_mac_little [OF dev dest] by blast
  let ?t1 = "s1\<lparr>io := e1 # io s1, ram := ?m1\<rparr>"
  obtain e2 where e2: "hton_mac dev (nic_mac n) ?t1 = (rev (nic_mac n), ?t1\<lparr>io := e2 # io ?t1\<rparr>)"
    using hton_mac_little [OF dev mac] by blast
  let ?t2 = "?t1\<lparr>io := e2 # io ?t1, ram := store_bytes ?m1 (p + 6) (rev (nic_mac n))\<rparr>"
  obtain e3 where e3: "htons dev type ?t2 = (bswap16 type, ?t2\<lparr>io := e3 # io ?t2\<rparr>)"
    using conversions(3) [OF dev, of type ?t2] by (auto simp: swap16_def)
  define pad where "pad = (if len_payload < 46 then ucast (46 - len_payload) else 0 :: u8)"
  note pad = frame_padding [of len_payload, folded pad_def, folded N_def]
  have total: "unat len_payload + (46 - unat len_payload) = N" by (simp add: N_def)
  have mem: "(if pad \<noteq> 0 then memset m4 (p + 14 + len_payload) 0 (ucast pad) else m4) = m"
    if "m4 = memcpy (store_le (store_bytes ?m1 (p + 6) (rev (nic_mac n))) (p + 12) 2 (bswap16 type)) (p + 14) payload (of_nat N)"
    for m4
    unfolding m_def frame_memory_def header_memory_def Let_def total that pad(1,2) by simp
  have size: "(ucast (14 + (of_nat N :: u32)) :: u16) = of_nat (14 + N)"
    using ucast_of_nat_u16 [of "14 + N"] by simp
  have "ethernet_send dev dest type payload len_payload s =
      do { (_, t) \<leftarrow> e1000_send_packet dev p (of_nat (14 + N)) (s1\<lparr>io := [e3, e2, e1] @ io s1, ram := m\<rparr>); Some (free p t) }"
    unfolding ethernet_send_def MINIMUM_PAYLOAD_LENGTH_def sizeof_ethernet_frame_t_def pad_def [symmetric] Let_def pad(3)
    using alloc e1 e2 e3 s1 mem [OF refl]
    by (cases "pad = 0") (simp_all add: e1000_get_mac_def size flip: N_def)
  then show ?thesis by blast
qed

text \<open>The bytes of the finished frame are the frame of the wire.\<close>

lemma frame_on_wire:
  fixes m :: mem and payload :: addr and type :: u16
  assumes p: "unat p + (14 + max 46 L) < 2 ^ 32" and macs: "length dest = 6" "length src = 6"
    and pay: "\<And>i. i < L \<Longrightarrow> \<not> in_range (payload + of_nat i) p (14 + max 46 L)"
  defines "M \<equiv> frame_memory m p (rev dest) (rev src) (bswap16 type) payload L (46 - L)"
  shows "load_bytes M p (14 + max 46 L) = ethernet_bytes dest src type (load_bytes m payload L)"
    and "\<not> in_range x p (14 + max 46 L) \<Longrightarrow> M x = m x"
proof -
  have LN: "14 + L + (46 - L) = 14 + max 46 L" by simp
  have rmacs: "length (rev dest) = 6" "length (rev src) = 6" using macs by simp_all
  show "load_bytes M p (14 + max 46 L) = ethernet_bytes dest src type (load_bytes m payload L)"
    using load_bytes_frame [OF p [folded LN] rmacs pay [folded LN], where m = m and type = "bswap16 type"]
    unfolding LN M_def by (simp add: ethernet_bytes_def octets16_def bswap16_bytes bswap16_bytes(2) [simplified])
  show "M x = m x" if "\<not> in_range x p (14 + max 46 L)"
    unfolding M_def using frame_memory_outside(2) [OF p [folded LN] rmacs that [folded LN]] .
qed

text \<open>An allocation moves the end of the heap by at most the rounded size.\<close>

lemma malloc_top:
  assumes "heap_rep bs fs s" "malloc n s = Some (p, s')"
  shows "unat (current_heap_address s') \<le> unat (current_heap_address s) + unat (ALIGN_16 (n + overhead))"
proof (cases "\<exists>b \<in> set fs. ALIGN_16 (n + overhead) \<le> block_size (ram s) b")
  case True
  then obtain xs b ys where split: "fs = xs @ b # ys" "ALIGN_16 (n + overhead) \<le> block_size (ram s) b"
    "\<forall>x \<in> set xs. \<not> ALIGN_16 (n + overhead) \<le> block_size (ram s) x"
    by (auto dest!: split_list_first_prop)
  have "free_list (ram s) (free_block_list_head_next s) (xs @ b # ys)" using assms(1) split(1) by (simp add: heap_rep_def)
  from malloc_find_Some [OF this, of "ALIGN_16 (n + overhead)" Free_Head] split(2,3) assms(2)
  have "s' = set_link (if xs = [] then Free_Head else Next_Of (last xs)) (block_next (ram s) b) s"
    by (simp add: malloc_def Let_def)
  then have "current_heap_address s' = current_heap_address s" by (cases "xs = []") simp_all
  then show ?thesis by simp
next
  case False
  have "unat (a + b) \<le> unat a + unat b" for a b :: u32 by (simp add: unat_word_ariths)
  note sum = this
  have "free_list (ram s) (free_block_list_head_next s) fs" using assms(1) by (simp add: heap_rep_def)
  from malloc_find_None [OF this, of "ALIGN_16 (n + overhead)" Free_Head] False assms(2)
  show ?thesis using sum by (auto simp: malloc_def Let_def sbrk_def split: if_splits)
qed

lemma heap_room_top:
  assumes "N \<le> 1514" "unat (current_heap_address s) + 1552 \<le> heap_end"
  shows "heap_room fs N s"
proof -
  have "(N + 31) div 16 * 16 \<le> 1552" using assms(1) by auto
  then show ?thesis using assms(2) by (simp add: heap_room_def)
qed

lemma malloc_frame_block:
  assumes rep: "heap_rep bs fs s" and N: "N \<le> 1514" and room: "heap_room fs N s"
  shows "\<exists>p s1. malloc (of_nat N) s = Some (p, s1) \<and> p \<noteq> 0 \<and> heap_only s s1 \<and>
    unat p + N < 2 ^ 32 \<and> unat (current_heap_address s1) \<le> unat (current_heap_address s) + 1552 \<and>
    (\<forall>x. user_byte bs fs (ram s) x \<longrightarrow> ram s1 x = ram s x \<and> \<not> in_range x p N)"
proof -
  let ?g = "(bs, fs)"
  have un: "unat (of_nat N :: u32) = N" using N by (intro unat_of_nat_small) simp
  have ok: "malloc_size_ok (of_nat N)" using N by (simp add: malloc_size_ok_def un)
  have "\<not> ((\<forall>b \<in> set fs. bsize (ram s) b < (unat (of_nat N :: u32) + 31) div 16 * 16) \<and>
      heap_end < unat (current_heap_address s) + (unat (of_nat N :: u32) + 31) div 16 * 16)"
    using room unfolding un heap_room_def by (auto simp: not_less)
  then obtain p s1 bs' fs' where m: "malloc (of_nat N) s = Some (p, s1)" "p \<noteq> 0" "allocated bs fs s (of_nat N) p bs' fs' s1"
    using malloc_result_cases [OF rep ok] by metis
  obtain k where k: "heap_object (bs', fs') s1 p = Some k" "N \<le> k" "heap_rep bs' fs' s1"
    using allocated_object [OF rep m(3)] m(3) un by (auto simp: allocated_def)
  have blk: "p - 16 \<in> set bs'" using k(1) by (simp add: heap_object_Some live_def)
  have up: "unat p = unat (p - 16) + 16" "N + 16 \<le> bsize (ram s1) (p - 16)"
    using m(3) un by (simp_all add: allocated_def)
  have fin: "unat p + N < 2 ^ 32" using heap_rep_block(2,3) [OF k(3) blk] up by simp
  have user: "ram s1 x = ram s x \<and> \<not> in_range x p N" if u: "user_byte bs fs (ram s) x" for x
  proof -
    have "\<not> heap_arena x \<or> (\<exists>q l. heap_object ?g s q = Some l \<and> in_range x q l)"
      using user_byte_object [OF rep] u by blast
    then have "\<not> in_range x p N"
    proof
      assume "\<not> heap_arena x"
      moreover have "in_range x p N \<Longrightarrow> heap_arena x"
        using heap.object_arena [of "(bs', fs')" s1 p k x] k by (simp add: in_range_def)
      ultimately show ?thesis by blast
    next
      assume "\<exists>q l. heap_object ?g s q = Some l \<and> in_range x q l"
      then show ?thesis using heap.alloc_separate [of ?g s "of_nat N" p s1] rep ok m un by auto
    qed
    moreover have "ram s1 x = ram s x" using m(3) u by (simp add: allocated_def)
    ultimately show ?thesis by blast
  qed
  have "unat (current_heap_address s1) \<le> unat (current_heap_address s) + 1552"
    using malloc_top [OF rep m(1)] malloc_rounding(1) [OF ok] un N by simp
  then show ?thesis using m(1,2) malloc_heap_only [OF rep m(1)] fin user by blast
qed

text \<open>Sending changes the bus, \<^verbatim>\<open>errno\<close>, memory, the heap's variables, the driver and the log of the wire.\<close>

definition net_only :: "'s e1000_state_scheme \<Rightarrow> 's e1000_state_scheme \<Rightarrow> bool" where
  "net_only s s' \<longleftrightarrow> s' = s\<lparr>io := io s', errno := errno s', ram := ram s',
     current_heap_address := current_heap_address s', free_block_list_head_next := free_block_list_head_next s',
     e1000 := e1000 s', wire := wire s'\<rparr>"

lemma net_only_heap:
  assumes "heap_only s t" "heap_only (t\<lparr>ram := m\<rparr>) u"
  shows "net_only s (u\<lparr>io := h, e1000 := d, wire := w\<rparr>)"
proof -
  have t: "t = s\<lparr>errno := errno t, ram := ram t, current_heap_address := current_heap_address t,
      free_block_list_head_next := free_block_list_head_next t\<rparr>" using assms(1) by (simp only: heap_only_def)
  have u: "u = t\<lparr>errno := errno u, ram := ram u, current_heap_address := current_heap_address u,
      free_block_list_head_next := free_block_list_head_next u\<rparr>" using assms(2) by (simp add: heap_only_def)
  have "u = s\<lparr>errno := errno u, ram := ram u, current_heap_address := current_heap_address u,
      free_block_list_head_next := free_block_list_head_next u\<rparr>" by (subst u, subst t) simp
  then show ?thesis unfolding net_only_def by (cases u, cases s) simp
qed

text \<open>Sending leaves the card with the frame, and the state a scratch block on the heap leaves.\<close>

lemma ethernet_send_scratch:
  fixes payload :: addr
  assumes ready: "net_ready dev s n" and len: "unat len_payload \<le> 1500" and dest: "length dest = 6"
    and alloc: "malloc (of_nat (14 + max 46 (unat len_payload))) s = Some (p, s1)" "heap_only s s1"
    and p: "unat p + (14 + max 46 (unat len_payload)) < 2 ^ 32"
    and pay: "\<And>i. i < unat len_payload \<Longrightarrow>
      ram s1 (payload + of_nat i) = ram s (payload + of_nat i) \<and>
      \<not> in_range (payload + of_nat i) p (14 + max 46 (unat len_payload))"
  shows "\<exists>M h. ethernet_send dev dest type payload len_payload s = Some ((free p (s1\<lparr>ram := M\<rparr>))\<lparr>io := h,
      e1000 := Some (n\<lparr>tx_cur := (tx_cur n + 1) mod 8\<rparr>),
      wire := wire s @ [ethernet_bytes dest (nic_mac n) type (load_bytes (ram s) payload (unat len_payload))]\<rparr>) \<and>
    (\<forall>x. \<not> in_range x p (14 + max 46 (unat len_payload)) \<longrightarrow> M x = ram s1 x)"
proof -
  define L where "L = unat len_payload"
  define N where "N = max 46 L"
  define M where "M = frame_memory (ram s1) p (rev dest) (rev (nic_mac n)) (bswap16 type) payload L (46 - L)"
  have dev: "card_reports dev n" "pci_device n \<noteq> None" "length (nic_mac n) = 6" "unat (tx_cur n) < 8"
    using ready by (simp_all add: net_ready_def)
  have s1: "e1000 s1 = Some n" "wire s1 = wire s"
    using heap_only_fields [OF alloc(2)] ready by (simp_all add: net_ready_def)
  have out: "\<not> in_range (payload + of_nat i) p (14 + max 46 L)" if "i < L" for i using pay that by (simp add: L_def)
  note built = frame_on_wire [OF p [folded L_def] dest dev(3) out, where m = "ram s1" and type = type, folded M_def N_def]
  have "load_bytes (ram s1) payload L = load_bytes (ram s) payload L"
    using pay by (intro load_bytes_cong) (simp add: L_def)
  then have bytes: "load_bytes M p (14 + N) = ethernet_bytes dest (nic_mac n) type (load_bytes (ram s) payload L)"
    using built(1) by simp
  have "malloc (14 + of_nat (max 46 (unat len_payload))) s = Some (p, s1)" using alloc(1) by simp
  from ethernet_send_steps [OF ready dest this s1(1), of type payload]
  obtain h where send: "ethernet_send dev dest type payload len_payload s =
      do { (_, t) \<leftarrow> e1000_send_packet dev p (of_nat (14 + N)) (s1\<lparr>io := h @ io s1, ram := M\<rparr>); Some (free p t) }"
    by (auto simp: M_def N_def L_def)
  have u16: "unat (of_nat (14 + N) :: u16) = 14 + N" using len by (intro unat_of_nat_small) (simp add: N_def L_def)
  obtain h' where "ethernet_send dev dest type payload len_payload s = Some (free p (s1\<lparr>ram := M, io := h',
      e1000 := Some (n\<lparr>tx_cur := (tx_cur n + 1) mod 8\<rparr>), wire := wire s @ [load_bytes M p (14 + N)]\<rparr>))"
    using send_packet_result [OF dev(1), of "s1\<lparr>io := h @ io s1, ram := M\<rparr>" p "of_nat (14 + N)"] s1 dev(2,4) u16
    by (auto simp: send)
  then have "ethernet_send dev dest type payload len_payload s = Some ((free p (s1\<lparr>ram := M\<rparr>))\<lparr>io := h',
      e1000 := Some (n\<lparr>tx_cur := (tx_cur n + 1) mod 8\<rparr>), wire := wire s @ [load_bytes M p (14 + N)]\<rparr>)"
    by (simp add: free_def Let_def)
  then show ?thesis using built(2) unfolding bytes unfolding L_def N_def by blast
qed

lemma ethernet_send_result:
  assumes ready: "net_ready dev s n" and rep: "heap_rep bs fs s"
    and room: "heap_room fs (14 + max 46 (unat len_payload)) s"
    and len: "unat len_payload \<le> 1500" and dest: "length dest = 6"
    and pay: "\<forall>i < unat len_payload. user_byte bs fs (ram s) (payload + of_nat i)"
  shows "\<exists>s' bs' fs'. ethernet_send dev dest type payload len_payload s = Some s' \<and>
    wire s' = wire s @ [ethernet_bytes dest (nic_mac n) type (load_bytes (ram s) payload (unat len_payload))] \<and>
    heap_rep bs' fs' s' \<and> heap_object (bs', fs') s' = heap_object (bs, fs) s \<and>
    heap_room fs' (14 + max 46 (unat len_payload)) s' \<and>
    (\<forall>x. user_byte bs fs (ram s) x \<longrightarrow> ram s' x = ram s x) \<and>
    e1000 s' = Some (n\<lparr>tx_cur := (tx_cur n + 1) mod 8\<rparr>) \<and> net_only s s' \<and>
    unat (current_heap_address s') \<le> unat (current_heap_address s) + 1552"
proof -
  define N where "N = 14 + max 46 (unat len_payload)"
  have N: "N \<le> 1514" using len by (simp add: N_def)
  obtain p s1 where m: "malloc (of_nat N) s = Some (p, s1)" "p \<noteq> 0" "heap_only s s1" "unat p + N < 2 ^ 32"
    "unat (current_heap_address s1) \<le> unat (current_heap_address s) + 1552"
    and user: "\<And>x. user_byte bs fs (ram s) x \<Longrightarrow> ram s1 x = ram s x \<and> \<not> in_range x p N"
    using malloc_frame_block [OF rep N room [folded N_def]] by blast
  have pl: "ram s1 (payload + of_nat i) = ram s (payload + of_nat i) \<and> \<not> in_range (payload + of_nat i) p N"
    if "i < unat len_payload" for i using user pay that by blast
  obtain M h where res: "ethernet_send dev dest type payload len_payload s = Some ((free p (s1\<lparr>ram := M\<rparr>))\<lparr>io := h,
      e1000 := Some (n\<lparr>tx_cur := (tx_cur n + 1) mod 8\<rparr>),
      wire := wire s @ [ethernet_bytes dest (nic_mac n) type (load_bytes (ram s) payload (unat len_payload))]\<rparr>)"
    and out: "\<And>x. \<not> in_range x p N \<Longrightarrow> M x = ram s1 x"
    using ethernet_send_scratch [OF ready len dest m(1) [unfolded N_def] m(3) m(4) [unfolded N_def] pl [unfolded N_def]]
    unfolding N_def by blast
  have un: "unat (of_nat N :: u32) = N" using N by (intro unat_of_nat_small) simp
  have ok: "malloc_size_ok (of_nat N)" using N un by (simp add: malloc_size_ok_def)
  have rep': "heap_rep (fst (bs, fs)) (snd (bs, fs)) s" using rep by simp
  note scratch = heap.scratch_buffer [OF rep' ok m(1,2), of M, unfolded un]
  obtain bs' fs' where g': "heap_rep bs' fs' (free p (s1\<lparr>ram := M\<rparr>))"
    "heap_object (bs', fs') (free p (s1\<lparr>ram := M\<rparr>)) = heap_object (bs, fs) s"
    "heap_room fs' N (free p (s1\<lparr>ram := M\<rparr>))"
    using scratch_block_free [OF rep ok m(1,2), of M, unfolded un] out by blast
  have user': "ram (free p (s1\<lparr>ram := M\<rparr>)) x = ram s x" if "user_byte bs fs (ram s) x" for x
    using scratch(2) [of x] out user_byte_object [OF rep, of x] that by blast
  have top: "current_heap_address (free p (s1\<lparr>ram := M\<rparr>)) = current_heap_address s1" by (simp add: free_def Let_def)
  define s' where "s' = (free p (s1\<lparr>ram := M\<rparr>))\<lparr>io := h, e1000 := Some (n\<lparr>tx_cur := (tx_cur n + 1) mod 8\<rparr>),
      wire := wire s @ [ethernet_bytes dest (nic_mac n) type (load_bytes (ram s) payload (unat len_payload))]\<rparr>"
  show ?thesis
    using res [folded s'_def] g' user' net_only_heap [OF m(3) free_heap_only] m(5) top
    by (intro exI [of _ s'] exI [of _ bs'] exI [of _ fs']) (simp add: s'_def frame_simps N_def)
qed

text \<open>
  Property C14: what \<^verbatim>\<open>ethernet_send\<close> puts on the wire. With a card that reports, on a little-endian board
  and with room in the heap, a payload of at most 1500 bytes that lies outside the heap or in a live
  allocation leaves as exactly one frame: destination, own address and type in network byte order, the
  payload, and zeros up to 46 bytes (whatever lies behind a shorter payload in memory is not sent). The
  heap has the same live objects afterwards and no byte outside the freed frame block has changed.
\<close>

theorem ethernet_send_frame:
  assumes ready: "net_ready dev s n" and rep: "heap_rep bs fs s"
    and room: "unat (current_heap_address s) + 1552 \<le> heap_end"
    and len: "unat len_payload \<le> 1500" and dest: "length dest = 6"
    and pay: "\<forall>i < unat len_payload. user_byte bs fs (ram s) (payload + of_nat i)"
  shows "\<exists>s' bs' fs'. ethernet_send dev dest type payload len_payload s = Some s' \<and>
    wire s' = wire s @ [ethernet_bytes dest (nic_mac n) type (load_bytes (ram s) payload (unat len_payload))] \<and>
    heap_rep bs' fs' s' \<and> heap_object (bs', fs') s' = heap_object (bs, fs) s \<and>
    (\<forall>x. user_byte bs fs (ram s) x \<longrightarrow> ram s' x = ram s x) \<and>
    e1000 s' = Some (n\<lparr>tx_cur := (tx_cur n + 1) mod 8\<rparr>)"
  using ethernet_send_result [OF assms(1,2) heap_room_top [OF _ room] assms(4-6), of type] len by auto

lemma card0_heap: "heap_rep [] [] card0" "current_heap_address card0 = HEAP_START" "net_ready quick_card card0 nic0"
proof -
  show "current_heap_address card0 = HEAP_START"
    by (simp add: card0_def queue_state.defs queue0_def pci_state.defs pci0_def sched_state.defs sched0_def)
  then have "heap_init card0"
    by (simp add: heap_init_def card0_def queue_state.defs queue0_def pci_state.defs pci0_def sched_state.defs sched0_def)
  then show "heap_rep [] [] card0" by (rule heap_rep_init)
  show "net_ready quick_card card0 nic0" using quick_card_reports by (simp add: net_ready_def nic0_def)
qed

theorem ethernet_send_frame_witness:
  "\<exists>s'. ethernet_send quick_card BROADCAST_MAC TYPE_ARP 0x1000 4 card0 = Some s' \<and>
     wire s' = [ethernet_bytes BROADCAST_MAC (nic_mac nic0) TYPE_ARP (load_bytes (ram card0) 0x1000 4)]"
proof -
  have "user_byte [] [] (ram card0) (0x1000 + of_nat i)" if "i < 4" for i
    using unat_add_small [of "0x1000" i] that by (simp add: user_byte_def const_defs)
  then show ?thesis
    using ethernet_send_frame [OF card0_heap(3,1), of 4 BROADCAST_MAC "0x1000" TYPE_ARP] card0_heap(2)
    by (auto simp: const_defs heap_end_eq)
qed

section \<open>Printing an address\<close>

lemma digit_of_char_hex: "unat v < 16 \<Longrightarrow> digit_of_char (INTTOHEXCHAR v) = unat v"
  by (auto simp: INTTOHEXCHAR_def digit_of_char_def Let_def of_char_of word_less_nat_alt)

text \<open>
  Property: \<^verbatim>\<open>mac_to_str\<close> writes the six bytes of an address in network order, two hexadecimal digits
  each, separated by colons: the digits read back as the bytes.
\<close>

theorem mac_to_str_digits:
  fixes s :: "'s io_state_scheme"
  assumes "has_byte_order dev False" "length mac = 6"
  defines "str \<equiv> fst (mac_to_str dev mac s)"
  shows "length str = 17 \<and>
    (\<forall>i < 6. 16 * digit_of_char (str ! (3 * i)) + digit_of_char (str ! (3 * i + 1)) = unat (rev mac ! i)) \<and>
    (\<forall>i < 5. str ! (3 * i + 2) = CHR '':'')"
proof -
  obtain a b c d e f where mac: "rev mac = [a, b, c, d, e, f]"
    using list6_cases [of "rev mac"] assms(2) by (metis length_rev)
  have str: "str = [INTTOHEXCHAR (drop_bit 4 a), INTTOHEXCHAR (a AND 0x0F), CHR '':'',
     INTTOHEXCHAR (drop_bit 4 b), INTTOHEXCHAR (b AND 0x0F), CHR '':'',
     INTTOHEXCHAR (drop_bit 4 c), INTTOHEXCHAR (c AND 0x0F), CHR '':'',
     INTTOHEXCHAR (drop_bit 4 d), INTTOHEXCHAR (d AND 0x0F), CHR '':'',
     INTTOHEXCHAR (drop_bit 4 e), INTTOHEXCHAR (e AND 0x0F), CHR '':'',
     INTTOHEXCHAR (drop_bit 4 f), INTTOHEXCHAR (f AND 0x0F)]"
    using conversions(5) [OF assms(1), of mac s] assms(2) mac
    by (auto simp: str_def mac_to_str_def swap_mac_def reverse_mac_rev upt_rec numeral_eq_Suc)
  have pair: "16 * digit_of_char (INTTOHEXCHAR (drop_bit 4 v)) + digit_of_char (INTTOHEXCHAR (v AND 0x0F)) = unat v" for v
  proof -
    have lo: "v AND 0x0F = take_bit 4 v" by (simp add: take_bit_eq_mask mask_eq_exp_minus_1)
    have "unat (drop_bit 4 v) = unat v div 16" "unat (take_bit 4 v) = unat v mod 16"
      by (simp_all add: drop_bit_eq_div take_bit_eq_mod unat_div unat_mod)
    moreover have "unat v div 16 < 16" using unsigned_less [of v, where 'a = nat] by simp
    ultimately show ?thesis unfolding lo by (simp add: digit_of_char_hex)
  qed
  have "i = 0 \<or> i = 1 \<or> i = 2 \<or> i = 3 \<or> i = 4 \<or> i = 5" if "i < 6" for i :: nat using that by linarith
  then have "16 * digit_of_char (str ! (3 * i)) + digit_of_char (str ! (3 * i + 1)) = unat (rev mac ! i)"
    if "i < 6" for i using that unfolding str mac by (fastforce simp: pair)
  moreover have "str ! (3 * i + 2) = CHR '':''" if "i < 5" for i
  proof -
    have "i = 0 \<or> i = 1 \<or> i = 2 \<or> i = 3 \<or> i = 4" using that by linarith
    then show ?thesis unfolding str by auto
  qed
  ultimately show ?thesis by (simp add: str)
qed

theorem mac_to_str_digits_witness:
  "length (fst (mac_to_str quick_card (nic_mac nic0) card0)) = 17 \<and>
   fst (mac_to_str quick_card (nic_mac nic0) card0) ! 2 = CHR '':''"
proof -
  have "length (nic_mac nic0) = 6" by (simp add: nic0_def)
  from mac_to_str_digits [OF quick_card_reports(2) this, of card0]
  have "length (fst (mac_to_str quick_card (nic_mac nic0) card0)) = 17 \<and>
    fst (mac_to_str quick_card (nic_mac nic0) card0) ! (3 * 0 + 2) = CHR '':''" by (meson zero_less_numeral)
  then show ?thesis by (simp add: numeral_2_eq_2)
qed

end
