(* ===== verification/Routing.thy ===== *)
theory Routing
  imports Ethernet
begin

text \<open>
  The ARP table of \<^verbatim>\<open>kernel/network/routing.c\<close>: ten entries of address pairs with a time stamp in seconds,
  allocated on first use. The pointer \<^verbatim>\<open>arp_table\<close> is \<open>arp_entries\<close>, \<open>None\<close> for null. The table lies in
  a heap block of its own, which no other code writes, so it is kept as a list. \<^verbatim>\<open>arp_table_get_mac\<close> and
  \<^verbatim>\<open>arp_table_print\<close> are in the theory of the protocol layers, whose functions they call.
\<close>

section \<open>State\<close>

record arp_table_entry_t =
  entry_ip :: u32
  entry_mac :: mac_address_t
  entry_time :: u64

record routing_state = e1000_state +
  arp_entries :: "arp_table_entry_t list option"

definition MAX_ARP_TABLE_ENTRIES :: nat where [simp]: "MAX_ARP_TABLE_ENTRIES = 10"
definition MAX_ARP_TABLE_AGE :: u64 where [simp]: "MAX_ARP_TABLE_AGE = 300"

definition ARP_NULL_ENTRY :: arp_table_entry_t where
  "ARP_NULL_ENTRY = \<lparr>entry_ip = 0, entry_mac = replicate 6 0, entry_time = 0\<rparr>"

section \<open>Operations\<close>

text \<open>One iteration of the search at time \<open>now\<close>: an expired entry is cleared, a matching one refreshed.\<close>

definition expired :: "u64 \<Rightarrow> arp_table_entry_t \<Rightarrow> bool" where
  "expired now e \<longleftrightarrow> entry_time e \<noteq> 0 \<and> now - entry_time e > MAX_ARP_TABLE_AGE"

definition find_step ::
  "u64 \<Rightarrow> u32 \<Rightarrow> nat \<Rightarrow> u32 \<times> arp_table_entry_t list \<Rightarrow> u32 \<times> arp_table_entry_t list" where
  "find_step now ip i = (\<lambda>(res, table).
     let entry = table ! i in
     if expired now entry then (res, table[i := ARP_NULL_ENTRY])
     else if entry_ip entry = ip then (of_nat i, table[i := (table ! i)\<lparr>entry_time := now\<rparr>])
     else (res, table))"

definition arp_table_find :: "u32 \<Rightarrow> 's routing_state_scheme \<Rightarrow> u32 \<times> 's routing_state_scheme" where
  "arp_table_find ip s =
     (case arp_entries s of
        None \<Rightarrow> (- 1, s)
      | Some table \<Rightarrow>
          (let (res, table) = fold (find_step (clock_seconds s) ip) [0..<MAX_ARP_TABLE_ENTRIES] (- 1, table)
           in (res, s\<lparr>arp_entries := Some table\<rparr>)))"

definition arp_table_lookup :: "u32 \<Rightarrow> 's routing_state_scheme \<Rightarrow> mac_address_t \<times> 's routing_state_scheme" where
  "arp_table_lookup ip s =
     (if arp_entries s = None then (NULL_MAC, s)
      else (let (position, s) = arp_table_find ip s in
            case arp_entries s of
              None \<Rightarrow> (NULL_MAC, s)
            | Some table \<Rightarrow>
                if position \<noteq> - 1 then (entry_mac (table ! unat position), s) else (NULL_MAC, s)))"

text \<open>The slot \<^verbatim>\<open>arp_table_add_entry\<close> picks.\<close>

fun pick_slot :: "arp_table_entry_t list \<Rightarrow> nat \<Rightarrow> nat list \<Rightarrow> nat" where
  "pick_slot table slot [] = slot"
| "pick_slot table slot (i # is) =
     (if entry_time (table ! i) = 0 then i
      else if entry_time (table ! i) < entry_time (table ! slot) then pick_slot table i is
      else pick_slot table slot is)"

definition arp_table_add_entry :: "mac_address_t \<Rightarrow> u32 \<Rightarrow> 's routing_state_scheme \<Rightarrow> 's routing_state_scheme" where
  "arp_table_add_entry mac ip s =
     (case arp_entries s of
        None \<Rightarrow> s
      | Some table \<Rightarrow>
          (let slot = pick_slot table 0 [0..<MAX_ARP_TABLE_ENTRIES]
           in s\<lparr>arp_entries := Some (table[slot :=
                \<lparr>entry_ip = ip, entry_mac = mac, entry_time = clock_seconds s\<rparr>])\<rparr>))"

definition arp_table_update :: "mac_address_t \<Rightarrow> u32 \<Rightarrow> 's routing_state_scheme \<Rightarrow> bool \<times> 's routing_state_scheme" where
  "arp_table_update mac ip s =
     (if arp_entries s = None then (False, s)
      else (let (position, s) = arp_table_find ip s in
            case arp_entries s of
              None \<Rightarrow> (False, s)
            | Some table \<Rightarrow>
                if position \<noteq> - 1
                then (True, s\<lparr>arp_entries := Some (table[unat position := (table ! unat position)\<lparr>entry_mac := mac\<rparr>])\<rparr>)
                else (False, s)))"

text \<open>\<^verbatim>\<open>sizeof(arp_table_entry_t)\<close> is 24: four, six and eight bytes, the last aligned to eight.\<close>

definition routing_init :: "'s routing_state_scheme \<Rightarrow> 's routing_state_scheme option" where
  "routing_init s =
     (if arp_entries s = None then
        do { (p, s) \<leftarrow> malloc (of_nat MAX_ARP_TABLE_ENTRIES * 24) s;
             if p = 0
             then LOG_ERROR ''kernel/network/routing.c'' ''Allocating memory for arp table failed!'' [] s
             else Some (s\<lparr>arp_entries := Some (replicate MAX_ARP_TABLE_ENTRIES ARP_NULL_ENTRY)\<rparr>) }
      else Some s)"

section \<open>The search\<close>

text \<open>What a search leaves of each entry.\<close>

definition visited :: "u64 \<Rightarrow> u32 \<Rightarrow> arp_table_entry_t \<Rightarrow> arp_table_entry_t" where
  "visited now ip e =
     (if expired now e then ARP_NULL_ENTRY else if entry_ip e = ip then e\<lparr>entry_time := now\<rparr> else e)"

definition matches :: "u64 \<Rightarrow> u32 \<Rightarrow> arp_table_entry_t \<Rightarrow> bool" where
  "matches now ip e \<longleftrightarrow> \<not> expired now e \<and> entry_ip e = ip"

lemma map_take_step: "k < length xs \<Longrightarrow> (map f (take k xs) @ drop k xs)[k := f (xs ! k)] = map f (take (Suc k) xs) @ drop (Suc k) xs"
proof (rule nth_equalityI)
  assume k: "k < length xs"
  show "length ((map f (take k xs) @ drop k xs)[k := f (xs ! k)]) = length (map f (take (Suc k) xs) @ drop (Suc k) xs)"
    using k by simp
next
  fix i assume k: "k < length xs" and i: "i < length ((map f (take k xs) @ drop k xs)[k := f (xs ! k)])"
  then have "i < length xs" by simp
  then show "(map f (take k xs) @ drop k xs)[k := f (xs ! k)] ! i = (map f (take (Suc k) xs) @ drop (Suc k) xs) ! i"
    using k by (cases "i < k"; cases "i = k") (simp_all add: nth_append nth_list_update)
qed

lemma find_loop:
  assumes "k \<le> length table"
  shows "fold (find_step now ip) [0..<k] (- 1, table) =
    ((if \<exists>i < k. matches now ip (table ! i) then of_nat (Max {i. i < k \<and> matches now ip (table ! i)}) else - 1),
     map (visited now ip) (take k table) @ drop k table)"
  using assms
proof (induction k)
  case 0
  then show ?case by simp
next
  case (Suc k)
  let ?M = "\<lambda>k. {i. i < k \<and> matches now ip (table ! i)}"
  have nth: "(map (visited now ip) (take k table) @ drop k table) ! k = table ! k"
    using Suc.prems by (simp add: nth_append)
  have upd: "(map (visited now ip) (take k table) @ drop k table)[k := visited now ip (table ! k)] =
      map (visited now ip) (take (Suc k) table) @ drop (Suc k) table"
    using Suc.prems by (intro map_take_step) simp
  have same: "visited now ip (table ! k) = table ! k \<Longrightarrow>
      map (visited now ip) (take k table) @ drop k table = map (visited now ip) (take (Suc k) table) @ drop (Suc k) table"
    using upd nth by (metis list_update_id)
  show ?case
  proof (cases "matches now ip (table ! k)")
    case True
    then have "?M (Suc k) = insert k (?M k)" by (auto simp: less_Suc_eq)
    then have "Max (?M (Suc k)) = k" using Max_eqI [of "?M (Suc k)" k] by fastforce
    moreover have "visited now ip (table ! k) = (table ! k)\<lparr>entry_time := now\<rparr>" "\<not> expired now (table ! k)"
      "entry_ip (table ! k) = ip" using True by (simp_all add: visited_def matches_def)
    ultimately show ?thesis using Suc True nth upd by (auto simp: find_step_def)
  next
    case False
    then have "?M (Suc k) = ?M k" by (auto simp: less_Suc_eq)
    moreover have "(\<exists>i < Suc k. matches now ip (table ! i)) = (\<exists>i < k. matches now ip (table ! i))"
      using False by (auto simp: less_Suc_eq)
    moreover have "find_step now ip k (r, map (visited now ip) (take k table) @ drop k table) =
        (r, map (visited now ip) (take (Suc k) table) @ drop (Suc k) table)" for r
      using False nth upd same by (auto simp: find_step_def matches_def visited_def Let_def)
    ultimately show ?thesis using Suc by (cases "\<exists>i < k. matches now ip (table ! i)") auto
  qed
qed

text \<open>A table that is allocated has its ten entries.\<close>

definition arp_ready :: "'s routing_state_scheme \<Rightarrow> bool" where
  "arp_ready s \<longleftrightarrow> (\<exists>t. arp_entries s = Some t \<and> length t = MAX_ARP_TABLE_ENTRIES)"

text \<open>The abstract view of a table at a time: the address the last live entry for an IP holds.\<close>

definition arp_cache :: "u64 \<Rightarrow> arp_table_entry_t list \<Rightarrow> u32 \<Rightarrow> mac_address_t option" where
  "arp_cache now t ip =
     (let es = filter (matches now ip) t in if es = [] then None else Some (entry_mac (last es)))"

definition cache :: "'s routing_state_scheme \<Rightarrow> u32 \<Rightarrow> mac_address_t option" where
  "cache s ip = (case arp_entries s of None \<Rightarrow> None | Some t \<Rightarrow> arp_cache (clock_seconds s) t ip)"

lemma arp_cache_None: "arp_cache now t ip = None \<longleftrightarrow> (\<forall>e \<in> set t. \<not> matches now ip e)"
  by (simp add: arp_cache_def filter_empty_conv Let_def)

lemma last_filter:
  assumes "i < length t" "P (t ! i)" "\<And>j. i < j \<Longrightarrow> j < length t \<Longrightarrow> \<not> P (t ! j)"
  shows "filter P t \<noteq> []" "last (filter P t) = t ! i"
proof -
  have "t = take i t @ t ! i # drop (Suc i) t" using assms(1) by (simp add: id_take_nth_drop)
  moreover have "filter P (drop (Suc i) t) = []"
    using assms by (auto simp: filter_empty_conv in_set_conv_nth)
  ultimately have "filter P t = filter P (take i t) @ [t ! i]"
    using assms(2) by (metis filter.simps(2) filter_append)
  then show "filter P t \<noteq> []" "last (filter P t) = t ! i" by simp_all
qed

lemma arp_cache_Some:
  assumes "i < length t" "matches now ip (t ! i)" "\<And>j. i < j \<Longrightarrow> j < length t \<Longrightarrow> \<not> matches now ip (t ! j)"
  shows "arp_cache now t ip = Some (entry_mac (t ! i))"
  using last_filter [of i t "matches now ip"] assms by (simp add: arp_cache_def Let_def)

text \<open>The position a search reports, and the table it leaves.\<close>

lemma arp_table_find_result:
  assumes "arp_entries s = Some t" "length t = MAX_ARP_TABLE_ENTRIES"
  shows "snd (arp_table_find ip s) = s\<lparr>arp_entries := Some (map (visited (clock_seconds s) ip) t)\<rparr>"
    and "fst (arp_table_find ip s) = - 1 \<and> arp_cache (clock_seconds s) t ip = None \<or>
      (\<exists>i < length t. fst (arp_table_find ip s) = of_nat i \<and> unat (fst (arp_table_find ip s)) = i \<and>
         fst (arp_table_find ip s) \<noteq> - 1 \<and> matches (clock_seconds s) ip (t ! i) \<and>
         (\<forall>j. i < j \<longrightarrow> j < length t \<longrightarrow> \<not> matches (clock_seconds s) ip (t ! j)))"
proof -
  let ?m = "\<lambda>i. matches (clock_seconds s) ip (t ! i)"
  let ?M = "{i. i < 10 \<and> ?m i}"
  have find: "arp_table_find ip s = ((if \<exists>i < 10. ?m i then of_nat (Max ?M) else - 1),
      s\<lparr>arp_entries := Some (map (visited (clock_seconds s) ip) t)\<rparr>)"
    using assms find_loop [of 10 t "clock_seconds s" ip] by (simp add: arp_table_find_def del: upt_rec_numeral)
  then show "snd (arp_table_find ip s) = s\<lparr>arp_entries := Some (map (visited (clock_seconds s) ip) t)\<rparr>" by simp
  show "fst (arp_table_find ip s) = - 1 \<and> arp_cache (clock_seconds s) t ip = None \<or>
      (\<exists>i < length t. fst (arp_table_find ip s) = of_nat i \<and> unat (fst (arp_table_find ip s)) = i \<and>
         fst (arp_table_find ip s) \<noteq> - 1 \<and> ?m i \<and> (\<forall>j. i < j \<longrightarrow> j < length t \<longrightarrow> \<not> ?m j))"
  proof (cases "\<exists>i < 10. ?m i")
    case False
    then show ?thesis using find assms(2) by (auto simp: arp_cache_None in_set_conv_nth)
  next
    case True
    then have "Max ?M \<in> ?M" by (intro Max_in) auto
    then have i: "Max ?M < 10" "?m (Max ?M)" by simp_all
    have "\<not> ?m j" if "Max ?M < j" "j < 10" for j
    proof
      assume "?m j"
      then have "j \<le> Max ?M" using that(2) by (intro Max_ge) simp_all
      then show False using that(1) by simp
    qed
    moreover have "unat (of_nat (Max ?M) :: u32) = Max ?M" using i by (simp add: unat_of_nat take_bit_eq_mod)
    moreover from this have "(of_nat (Max ?M) :: u32) \<noteq> - 1" using i(1) by (intro notI) (simp add: unsigned_minus_1_eq_mask mask_eq_exp_minus_1)
    ultimately show ?thesis using i True find assms(2) by (intro disjI2 exI [of _ "Max ?M"]) simp
  qed
qed

text \<open>Apart from the IP address 0, whose matches include the cleared entries, a search does not change the view.\<close>

lemma matches_visited: "ip' \<noteq> 0 \<Longrightarrow> matches now ip' (visited now ip e) = matches now ip' e"
  by (auto simp: matches_def visited_def expired_def ARP_NULL_ENTRY_def)

lemma entry_mac_visited: "matches now ip' e \<Longrightarrow> entry_mac (visited now ip e) = entry_mac e"
  by (auto simp: matches_def visited_def)

lemma arp_cache_visited: "ip' \<noteq> 0 \<Longrightarrow> arp_cache now (map (visited now ip) t) ip' = arp_cache now t ip'"
proof -
  assume ip': "ip' \<noteq> 0"
  then have f: "filter (matches now ip') (map (visited now ip) t) = map (visited now ip) (filter (matches now ip') t)"
    by (simp add: filter_map o_def matches_visited)
  have "\<forall>e \<in> set (filter (matches now ip') t). matches now ip' e" by simp
  then show ?thesis using f entry_mac_visited
    by (cases "filter (matches now ip') t" rule: rev_cases) (auto simp: arp_cache_def Let_def)
qed

section \<open>The operations as a cache of addresses\<close>

lemma filter_update_other: "i < length t \<Longrightarrow> \<not> P (t ! i) \<Longrightarrow> \<not> P x \<Longrightarrow> filter P (t[i := x]) = filter P t"
proof (induction t arbitrary: i)
  case (Cons a t)
  then show ?case by (cases i) auto
qed simp

lemma arp_cache_update_other:
  "i < length t \<Longrightarrow> \<not> matches now ip (t ! i) \<Longrightarrow> \<not> matches now ip x \<Longrightarrow>
    arp_cache now (t[i := x]) ip = arp_cache now t ip"
  by (simp add: arp_cache_def filter_update_other)

lemma arp_ready_cases:
  assumes "arp_ready s"
  obtains t where "arp_entries s = Some t" "length t = MAX_ARP_TABLE_ENTRIES" "cache s = arp_cache (clock_seconds s) t"
  using assms by (auto simp: arp_ready_def cache_def fun_eq_iff)

lemma arp_table_lookup_value:
  assumes "arp_ready s"
  shows "fst (arp_table_lookup ip s) = (case cache s ip of None \<Rightarrow> NULL_MAC | Some mac \<Rightarrow> mac)"
proof -
  obtain t where t: "arp_entries s = Some t" "length t = MAX_ARP_TABLE_ENTRIES" "cache s = arp_cache (clock_seconds s) t"
    using assms by (rule arp_ready_cases)
  note f = arp_table_find_result [OF t(1,2), of ip]
  from f(2) show ?thesis
  proof (elim disjE exE conjE)
    assume "fst (arp_table_find ip s) = - 1" "arp_cache (clock_seconds s) t ip = None"
    then show ?thesis using f(1) t by (simp add: arp_table_lookup_def split_beta)
  next
    fix i assume i: "i < length t" "fst (arp_table_find ip s) = of_nat i" "unat (fst (arp_table_find ip s)) = i"
      "fst (arp_table_find ip s) \<noteq> - 1" "matches (clock_seconds s) ip (t ! i)"
      "\<forall>j. i < j \<longrightarrow> j < length t \<longrightarrow> \<not> matches (clock_seconds s) ip (t ! j)"
    then have "fst (arp_table_lookup ip s) = entry_mac (t ! i)"
      using f(1) t entry_mac_visited [OF i(5)] by (simp add: arp_table_lookup_def split_beta)
    then show ?thesis using arp_cache_Some [of i t "clock_seconds s" ip] i t by simp
  qed
qed

lemma snd_arp_table_lookup: "snd (arp_table_lookup ip s) = snd (arp_table_find ip s)"
  by (auto simp: arp_table_lookup_def arp_table_find_def split_beta split: option.split)

lemma arp_find_keeps:
  assumes "arp_ready s"
  shows "arp_ready (snd (arp_table_find ip s))"
    and "ip' \<noteq> 0 \<Longrightarrow> cache (snd (arp_table_find ip s)) ip' = cache s ip'"
proof -
  obtain t where t: "arp_entries s = Some t" "length t = MAX_ARP_TABLE_ENTRIES" "cache s = arp_cache (clock_seconds s) t"
    using assms by (rule arp_ready_cases)
  note f = arp_table_find_result(1) [OF t(1,2), of ip]
  show "arp_ready (snd (arp_table_find ip s))" using f t by (simp add: arp_ready_def)
  show "cache (snd (arp_table_find ip s)) ip' = cache s ip'" if "ip' \<noteq> 0"
    using f t arp_cache_visited [OF that] by (simp add: cache_def clock_seconds_def)
qed

text \<open>An entry that holds the pair with the current time, and no later one for the IP address.\<close>

definition holds_pair :: "u64 \<Rightarrow> arp_table_entry_t list \<Rightarrow> u32 \<Rightarrow> mac_address_t \<Rightarrow> bool" where
  "holds_pair now t ip mac \<longleftrightarrow> (\<exists>i < length t. t ! i = \<lparr>entry_ip = ip, entry_mac = mac, entry_time = now\<rparr> \<and>
     (\<forall>j. i < j \<longrightarrow> j < length t \<longrightarrow> entry_ip (t ! j) \<noteq> ip))"

lemma holds_pair_cache:
  assumes "holds_pair now t ip mac" "later - now \<le> MAX_ARP_TABLE_AGE"
  shows "arp_cache later t ip = Some mac"
proof -
  obtain i where i: "i < length t" "t ! i = \<lparr>entry_ip = ip, entry_mac = mac, entry_time = now\<rparr>"
    "\<And>j. i < j \<Longrightarrow> j < length t \<Longrightarrow> entry_ip (t ! j) \<noteq> ip" using assms(1) by (auto simp: holds_pair_def)
  have "matches later ip (t ! i)" using i(2) assms(2) by (auto simp: matches_def expired_def)
  with i show ?thesis using arp_cache_Some [of i t later ip] by (auto simp: matches_def)
qed

lemma visited_other: "ip \<noteq> 0 \<Longrightarrow> \<not> matches now ip e \<Longrightarrow> entry_ip (visited now ip e) \<noteq> ip"
  by (auto simp: matches_def visited_def ARP_NULL_ENTRY_def)

text \<open>The two outcomes of \<^verbatim>\<open>arp_table_update\<close>, for a table that has no entry for the address and one that has.\<close>

lemma arp_table_update_missing:
  assumes "arp_entries s = Some t" "length t = MAX_ARP_TABLE_ENTRIES" "ip \<noteq> 0" "arp_cache (clock_seconds s) t ip = None"
  defines "v \<equiv> map (visited (clock_seconds s) ip) t"
  shows "arp_table_update mac ip s = (False, s\<lparr>arp_entries := Some v\<rparr>)" "\<forall>e \<in> set v. entry_ip e \<noteq> ip"
proof -
  note f = arp_table_find_result [OF assms(1,2), of ip]
  have "fst (arp_table_find ip s) = - 1" using f(2) assms(4) arp_cache_Some by fastforce
  then show "arp_table_update mac ip s = (False, s\<lparr>arp_entries := Some v\<rparr>)"
    using f(1) assms(1) by (simp add: arp_table_update_def split_beta v_def)
  show "\<forall>e \<in> set v. entry_ip e \<noteq> ip"
    using assms(4) visited_other [OF assms(3)] by (auto simp: arp_cache_None v_def)
qed

lemma arp_table_update_present:
  assumes "arp_entries s = Some t" "length t = MAX_ARP_TABLE_ENTRIES" "ip \<noteq> 0" "arp_cache (clock_seconds s) t ip \<noteq> None"
  shows "\<exists>u. arp_table_update mac ip s = (True, s\<lparr>arp_entries := Some u\<rparr>) \<and> length u = length t \<and>
    holds_pair (clock_seconds s) u ip mac \<and>
    (\<forall>ip'. ip' \<noteq> ip \<longrightarrow> ip' \<noteq> 0 \<longrightarrow> arp_cache (clock_seconds s) u ip' = arp_cache (clock_seconds s) t ip')"
proof -
  let ?now = "clock_seconds s" and ?v = "map (visited (clock_seconds s) ip) t"
  note f = arp_table_find_result [OF assms(1,2), of ip]
  obtain i where i: "i < length t" "unat (fst (arp_table_find ip s)) = i" "fst (arp_table_find ip s) \<noteq> - 1"
    "matches ?now ip (t ! i)" "\<forall>j. i < j \<longrightarrow> j < length t \<longrightarrow> \<not> matches ?now ip (t ! j)"
    using f(2) assms(4) by auto
  let ?u = "?v[i := (?v ! i)\<lparr>entry_mac := mac\<rparr>]"
  have new: "?u ! i = \<lparr>entry_ip = ip, entry_mac = mac, entry_time = ?now\<rparr>"
    using i(1,4) by (simp add: matches_def visited_def)
  have "arp_table_update mac ip s = (True, s\<lparr>arp_entries := Some ?u\<rparr>)"
    using f(1) assms(1) i(1-3) by (simp add: arp_table_update_def split_beta)
  moreover have "holds_pair ?now ?u ip mac"
    unfolding holds_pair_def using i(1,5) new visited_other [OF assms(3)] by (intro exI [of _ i]) auto
  moreover have "arp_cache ?now ?u ip' = arp_cache ?now t ip'" if "ip' \<noteq> ip" "ip' \<noteq> 0" for ip'
    using that i(1,4) arp_cache_update_other [of i ?v ?now ip' "(?v ! i)\<lparr>entry_mac := mac\<rparr>"] new arp_cache_visited
    by (simp add: matches_def visited_def)
  ultimately show ?thesis by (intro exI [of _ ?u]) simp
qed

lemma arp_table_update_result:
  assumes "arp_ready s" "ip \<noteq> 0" and "arp_table_update mac ip s = (found, s')"
  shows "found \<longleftrightarrow> cache s ip \<noteq> None" and "arp_ready s'" and "\<exists>t. s' = s\<lparr>arp_entries := Some t\<rparr>"
    and "found \<Longrightarrow> holds_pair (clock_seconds s) (the (arp_entries s')) ip mac"
    and "\<not> found \<Longrightarrow> \<forall>e \<in> set (the (arp_entries s')). entry_ip e \<noteq> ip"
    and "ip' \<noteq> ip \<Longrightarrow> ip' \<noteq> 0 \<Longrightarrow> cache s' ip' = cache s ip'"
proof -
  obtain t where t: "arp_entries s = Some t" "length t = MAX_ARP_TABLE_ENTRIES" "cache s = arp_cache (clock_seconds s) t"
    using assms(1) by (rule arp_ready_cases)
  have "(found \<longleftrightarrow> cache s ip \<noteq> None) \<and> arp_ready s' \<and> (\<exists>t. s' = s\<lparr>arp_entries := Some t\<rparr>) \<and>
    (found \<longrightarrow> holds_pair (clock_seconds s) (the (arp_entries s')) ip mac) \<and>
    (\<not> found \<longrightarrow> (\<forall>e \<in> set (the (arp_entries s')). entry_ip e \<noteq> ip)) \<and>
    (ip' \<noteq> ip \<longrightarrow> ip' \<noteq> 0 \<longrightarrow> cache s' ip' = cache s ip')"
  proof (cases "arp_cache (clock_seconds s) t ip = None")
    case True
    note u = arp_table_update_missing [OF t(1,2) assms(2) True]
    show ?thesis using True u(1) [of mac] u(2) assms(3) t arp_cache_visited
      by (auto simp: arp_ready_def cache_def clock_seconds_def)
  next
    case False
    then show ?thesis using arp_table_update_present [OF t(1,2) assms(2), of mac] assms(3) t
      by (auto simp: arp_ready_def cache_def clock_seconds_def)
  qed
  then show "found \<longleftrightarrow> cache s ip \<noteq> None" "arp_ready s'" "\<exists>t. s' = s\<lparr>arp_entries := Some t\<rparr>"
    "found \<Longrightarrow> holds_pair (clock_seconds s) (the (arp_entries s')) ip mac"
    "\<not> found \<Longrightarrow> \<forall>e \<in> set (the (arp_entries s')). entry_ip e \<noteq> ip"
    "ip' \<noteq> ip \<Longrightarrow> ip' \<noteq> 0 \<Longrightarrow> cache s' ip' = cache s ip'" by blast+
qed

text \<open>The slot a new pair takes: the first one with time 0, or else the first of the oldest.\<close>

lemma pick_slot_range: "slot < n \<Longrightarrow> \<forall>i \<in> set is. i < n \<Longrightarrow> pick_slot t slot is < n"
  by (induction t slot "is" rule: pick_slot.induct) auto

lemma pick_slot_free:
  assumes "\<exists>i \<in> set is. entry_time (t ! i) = 0"
  shows "entry_time (t ! pick_slot t slot is) = 0"
  using assms by (induction t slot "is" rule: pick_slot.induct) auto

lemma pick_slot_oldest:
  "\<forall>i \<in> insert slot (set is). entry_time (t ! pick_slot t slot is) \<le> entry_time (t ! i)"
proof (induction t slot "is" rule: pick_slot.induct)
  case (2 t slot i "is")
  consider "entry_time (t ! i) = 0" | "entry_time (t ! i) \<noteq> 0" "entry_time (t ! i) < entry_time (t ! slot)"
    | "entry_time (t ! i) \<noteq> 0" "entry_time (t ! slot) \<le> entry_time (t ! i)" by (meson not_less)
  then show ?case
  proof cases
    case 2
    with 2(1) show ?thesis using "2.IH"(1) by (auto dest: less_imp_le order_trans)
  next
    case 3
    with 3(1) show ?thesis using "2.IH"(2) by (auto dest: order_trans)
  qed simp
qed simp

lemma arp_table_add_entry_result:
  assumes "arp_ready s" "arp_entries s = Some t"
  shows "\<exists>i < length t. arp_table_add_entry mac ip s = s\<lparr>arp_entries :=
      Some (t[i := \<lparr>entry_ip = ip, entry_mac = mac, entry_time = clock_seconds s\<rparr>])\<rparr> \<and>
    (\<forall>j < length t. entry_time (t ! i) \<le> entry_time (t ! j))"
proof -
  have len: "length t = 10" using assms by (simp add: arp_ready_def)
  let ?i = "pick_slot t 0 [0..<10]"
  have "?i < 10" by (rule pick_slot_range) auto
  moreover have "\<forall>j < 10. entry_time (t ! ?i) \<le> entry_time (t ! j)"
    using pick_slot_oldest [of 0 "[0..<10]" t] by (auto simp del: upt_rec_numeral)
  ultimately show ?thesis using assms(2) len
    by (intro exI [of _ ?i]) (simp add: arp_table_add_entry_def del: upt_rec_numeral)
qed

lemma add_entry_keeps:
  "clock (arp_table_add_entry mac ip s) = clock s" "arp_ready s \<Longrightarrow> arp_ready (arp_table_add_entry mac ip s)"
  by (auto simp: arp_table_add_entry_def arp_ready_def Let_def split: option.split)

lemma holds_pair_update:
  assumes "i < length t" "\<forall>e \<in> set t. entry_ip e \<noteq> ip"
  shows "holds_pair now (t[i := \<lparr>entry_ip = ip, entry_mac = mac, entry_time = now\<rparr>]) ip mac"
  unfolding holds_pair_def using assms by (intro exI [of _ i]) auto

text \<open>
  What the protocol layers rely on. A table is \<open>view\<close>ed as a partial map; \<open>fresh\<close> says that a pair was
  stored at the current time; \<open>aged\<close> that time has passed, less than the lifetime of an entry.
\<close>

locale mac_cache =
  fixes ready :: "'s \<Rightarrow> bool"
    and view :: "'s \<Rightarrow> u32 \<Rightarrow> mac_address_t option"
    and lookup :: "u32 \<Rightarrow> 's \<Rightarrow> mac_address_t \<times> 's"
    and update :: "mac_address_t \<Rightarrow> u32 \<Rightarrow> 's \<Rightarrow> bool \<times> 's"
    and add :: "mac_address_t \<Rightarrow> u32 \<Rightarrow> 's \<Rightarrow> 's"
    and fresh :: "'s \<Rightarrow> u32 \<Rightarrow> mac_address_t \<Rightarrow> bool"
    and aged :: "'s \<Rightarrow> 's \<Rightarrow> bool"
  assumes lookup_value: "ready s \<Longrightarrow> fst (lookup ip s) = (case view s ip of None \<Rightarrow> NULL_MAC | Some mac \<Rightarrow> mac)"
    and lookup_ready: "ready s \<Longrightarrow> ready (snd (lookup ip s))"
    and lookup_view: "ready s \<Longrightarrow> ip' \<noteq> 0 \<Longrightarrow> view (snd (lookup ip s)) ip' = view s ip'"
    and update_found: "ready s \<Longrightarrow> ip \<noteq> 0 \<Longrightarrow> fst (update mac ip s) \<longleftrightarrow> view s ip \<noteq> None"
    and update_ready: "ready s \<Longrightarrow> ip \<noteq> 0 \<Longrightarrow> ready (snd (update mac ip s))"
    and update_fresh: "ready s \<Longrightarrow> ip \<noteq> 0 \<Longrightarrow> fst (update mac ip s) \<Longrightarrow> fresh (snd (update mac ip s)) ip mac"
    and add_fresh: "ready s \<Longrightarrow> ip \<noteq> 0 \<Longrightarrow> \<not> fst (update mac ip s) \<Longrightarrow> fresh (add mac ip (snd (update mac ip s))) ip mac"
    and add_ready: "ready s \<Longrightarrow> ready (add mac ip s)"
    and fresh_view: "fresh s ip mac \<Longrightarrow> aged s s' \<Longrightarrow> view s' ip = Some mac"
    and aged_ready: "ready s \<Longrightarrow> aged s s' \<Longrightarrow> ready s'"
begin

text \<open>A pair that is stored the way the protocol does is found again, whatever is looked up in between.\<close>

lemma lookups_view: "ready s \<Longrightarrow> ip \<noteq> 0 \<Longrightarrow>
  ready (fold (\<lambda>q s. snd (lookup q s)) qs s) \<and> view (fold (\<lambda>q s. snd (lookup q s)) qs s) ip = view s ip"
  by (induction qs arbitrary: s) (simp_all add: lookup_ready lookup_view)

lemma learned_lookup:
  assumes "ready s" "ip \<noteq> 0" "update mac ip s = (found, s1)" "aged (if found then s1 else add mac ip s1) s2"
  shows "fst (lookup ip (fold (\<lambda>q s. snd (lookup q s)) qs s2)) = mac"
proof -
  let ?t = "if found then s1 else add mac ip s1"
  have "fresh ?t ip mac" "ready ?t"
    using update_fresh [OF assms(1,2)] add_fresh [OF assms(1,2)] update_ready [OF assms(1,2)] add_ready assms(3)
    by (metis fst_conv snd_conv)+
  then have "view s2 ip = Some mac" "ready s2" using fresh_view aged_ready assms(4) by blast+
  then show ?thesis using lookups_view [of s2 ip qs] assms(2) lookup_value by simp
qed

end

definition fresh :: "'s routing_state_scheme \<Rightarrow> u32 \<Rightarrow> mac_address_t \<Rightarrow> bool" where
  "fresh s ip mac \<longleftrightarrow> (\<exists>t. arp_entries s = Some t \<and> holds_pair (clock_seconds s) t ip mac)"

definition aged :: "'s routing_state_scheme \<Rightarrow> 's routing_state_scheme \<Rightarrow> bool" where
  "aged s s' \<longleftrightarrow> arp_entries s' = arp_entries s \<and> clock_seconds s' - clock_seconds s \<le> MAX_ARP_TABLE_AGE"

lemma clock_seconds_arp [simp]: "clock_seconds (s\<lparr>arp_entries := t\<rparr>) = clock_seconds s"
  by (simp add: clock_seconds_def)

interpretation arp: mac_cache arp_ready cache arp_table_lookup arp_table_update arp_table_add_entry fresh aged
proof
  fix s :: "'s routing_state_scheme" and s' :: "'s routing_state_scheme" and ip ip' :: u32 and mac
  show "arp_ready s \<Longrightarrow> fst (arp_table_lookup ip s) = (case cache s ip of None \<Rightarrow> NULL_MAC | Some mac \<Rightarrow> mac)"
    by (rule arp_table_lookup_value)
  show "arp_ready s \<Longrightarrow> arp_ready (snd (arp_table_lookup ip s))"
    by (simp add: snd_arp_table_lookup arp_find_keeps)
  show "arp_ready s \<Longrightarrow> ip' \<noteq> 0 \<Longrightarrow> cache (snd (arp_table_lookup ip s)) ip' = cache s ip'"
    by (simp add: snd_arp_table_lookup arp_find_keeps)
  show "arp_ready s \<Longrightarrow> aged s s' \<Longrightarrow> arp_ready s'" by (simp add: arp_ready_def aged_def)
  show "fresh s ip mac \<Longrightarrow> aged s s' \<Longrightarrow> cache s' ip = Some mac"
    using holds_pair_cache by (auto simp: fresh_def aged_def cache_def)
  show add: "arp_ready (arp_table_add_entry mac ip s)" if "arp_ready s" for s :: "'s routing_state_scheme"
    using that by (rule add_entry_keeps)
  assume r: "arp_ready s" "ip \<noteq> 0"
  note u = arp_table_update_result [OF r prod.collapse [symmetric], where mac = mac]
  show "fst (arp_table_update mac ip s) \<longleftrightarrow> cache s ip \<noteq> None" "arp_ready (snd (arp_table_update mac ip s))"
    using u(1,2) by simp_all
  show "fresh (snd (arp_table_update mac ip s)) ip mac" if "fst (arp_table_update mac ip s)"
    using u(3) u(4) [OF that] by (auto simp: fresh_def)
  show "fresh (arp_table_add_entry mac ip (snd (arp_table_update mac ip s))) ip mac" if "\<not> fst (arp_table_update mac ip s)"
  proof -
    obtain t where t: "snd (arp_table_update mac ip s) = s\<lparr>arp_entries := Some t\<rparr>" using u(3) by blast
    have none: "\<forall>e \<in> set t. entry_ip e \<noteq> ip" using u(5) [OF that] t by simp
    show ?thesis using arp_table_add_entry_result [OF u(2), of t mac ip] t holds_pair_update none
      by (auto simp: fresh_def)
  qed
qed

lemma routing_init_ready:
  assumes "arp_entries s = None" "malloc 240 s = Some (p, s1)" "p \<noteq> 0"
  shows "\<exists>s'. routing_init s = Some s' \<and> arp_ready s' \<and> s' = s1\<lparr>arp_entries := Some (replicate 10 ARP_NULL_ENTRY)\<rparr>"
  using assms by (simp add: routing_init_def arp_ready_def)

section \<open>Properties\<close>

text \<open>
  Property C17: a pair of addresses learned the way \<^verbatim>\<open>arp_receive\<close> does it (update, and add when there was
  nothing to update) is what \<^verbatim>\<open>arp_table_lookup\<close> returns for the next 300 seconds, whatever other
  addresses are looked up in between, for every IP address but 0.
\<close>

theorem arp_table_learns:
  assumes "arp_ready s" "ip \<noteq> 0" "arp_table_update mac ip s = (found, s1)"
    and "s2 = (if found then s1 else arp_table_add_entry mac ip s1)"
    and "unat c div 1000 - unat (clock s) div 1000 \<le> 300" "clock s \<le> c"
  shows "fst (arp_table_lookup ip (fold (\<lambda>q s. snd (arp_table_lookup q s)) qs (s2\<lparr>clock := c\<rparr>))) = mac"
proof -
  have "clock s2 = clock s"
    using arp_table_update_result(3) [OF assms(1-3)] assms(4) by (auto simp: add_entry_keeps)
  moreover have "unat (c div 1000 - clock s div 1000) \<le> 300"
    using assms(5,6) by (simp add: unat_sub unat_div word_le_nat_alt div_le_mono)
  ultimately have "aged s2 (s2\<lparr>clock := c\<rparr>)"
    by (simp add: aged_def clock_seconds_def word_le_nat_alt)
  then have "aged (if found then s1 else arp_table_add_entry mac ip s1) (s2\<lparr>clock := c\<rparr>)" using assms(4) by simp
  then show ?thesis by (rule arp.learned_lookup [OF assms(1-3)])
qed

definition arp0 :: routing_state where
  "arp0 = e1000_state.extend card0 \<lparr>arp_entries = Some (replicate 10 ARP_NULL_ENTRY)\<rparr>"

lemma arp0_fields: "arp_entries arp0 = Some (replicate 10 ARP_NULL_ENTRY)" "arp_ready arp0" "clock arp0 = 0"
  by (simp_all add: arp0_def arp_ready_def e1000_state.defs card0_def queue_state.defs queue0_def pci_state.defs pci0_def
      sched_state.defs sched0_def)

theorem arp_table_learns_witness:
  "fst (arp_table_lookup 0x0A000202
     ((let (found, s1) = arp_table_update [2, 2, 0, 10, 0x54, 0x52] 0x0A000202 arp0
       in if found then s1 else arp_table_add_entry [2, 2, 0, 10, 0x54, 0x52] 0x0A000202 s1)\<lparr>clock := 300999\<rparr>)) =
   [2, 2, 0, 10, 0x54, 0x52]"
  using arp_table_learns [OF arp0_fields(2) _ prod.collapse [symmetric] refl, where ip = "0x0A000202" and c = 300999
      and mac = "[2, 2, 0, 10, 0x54, 0x52]" and qs = "[]"]
  by (simp add: arp0_fields split_beta)

text \<open>
  Property C36: a new pair replaces one entry, whose time stamp is minimal (an unused slot has time 0), and
  every other IP address keeps the address it had.
\<close>

theorem arp_table_add_replaces_oldest:
  assumes "arp_ready s" "arp_entries s = Some t"
  shows "\<exists>i < length t. (\<forall>j < length t. entry_time (t ! i) \<le> entry_time (t ! j)) \<and>
    arp_entries (arp_table_add_entry mac ip s) =
      Some (t[i := \<lparr>entry_ip = ip, entry_mac = mac, entry_time = clock_seconds s\<rparr>]) \<and>
    (\<forall>ip'. ip' \<noteq> ip \<longrightarrow> ip' \<noteq> entry_ip (t ! i) \<longrightarrow> cache (arp_table_add_entry mac ip s) ip' = cache s ip')"
proof -
  obtain i where i: "i < length t" "arp_table_add_entry mac ip s = s\<lparr>arp_entries :=
      Some (t[i := \<lparr>entry_ip = ip, entry_mac = mac, entry_time = clock_seconds s\<rparr>])\<rparr>"
    "\<forall>j < length t. entry_time (t ! i) \<le> entry_time (t ! j)" using arp_table_add_entry_result [OF assms] by blast
  have "cache (arp_table_add_entry mac ip s) ip' = cache s ip'" if "ip' \<noteq> ip" "ip' \<noteq> entry_ip (t ! i)" for ip'
    using that i(1,2) assms(2) by (auto simp: cache_def matches_def intro!: arp_cache_update_other)
  with i show ?thesis by (intro exI [of _ i]) simp
qed

theorem arp_table_add_replaces_oldest_witness:
  "\<exists>i < 10. arp_entries (arp_table_add_entry BROADCAST_MAC 7 arp0) =
     Some ((replicate 10 ARP_NULL_ENTRY)[i := \<lparr>entry_ip = 7, entry_mac = BROADCAST_MAC, entry_time = clock_seconds arp0\<rparr>])"
  using arp_table_add_replaces_oldest [OF arp0_fields(2,1), of BROADCAST_MAC 7] by auto

text \<open>
  Property: the IP address 0 is found in a table that was never written, since unused slots hold it: an
  update for it succeeds and gives every slot the current time, so that none counts as unused any more.
\<close>

theorem arp_table_zero_found:
  assumes "arp_entries s = Some (replicate 10 ARP_NULL_ENTRY)" "arp_table_update mac 0 s = (found, s')"
  shows "found \<and> arp_entries s' = Some (replicate 9 (ARP_NULL_ENTRY\<lparr>entry_time := clock_seconds s\<rparr>) @
    [\<lparr>entry_ip = 0, entry_mac = mac, entry_time = clock_seconds s\<rparr>])"
proof -
  let ?t = "replicate 10 ARP_NULL_ENTRY"
  have all: "matches (clock_seconds s) 0 (?t ! i)" if "i < 10" for i
    using that by (simp add: matches_def expired_def ARP_NULL_ENTRY_def)
  have find: "snd (arp_table_find 0 s) = s\<lparr>arp_entries := Some (replicate 10 (ARP_NULL_ENTRY\<lparr>entry_time := clock_seconds s\<rparr>))\<rparr>"
    using arp_table_find_result(1) [OF assms(1), of 0]
    by (simp add: visited_def expired_def ARP_NULL_ENTRY_def)
  have "\<exists>i < 10. unat (fst (arp_table_find 0 s)) = i \<and> fst (arp_table_find 0 s) \<noteq> - 1 \<and> (\<forall>j. i < j \<longrightarrow> j < 10 \<longrightarrow> False)"
    using arp_table_find_result(2) [OF assms(1), of 0] all
    by (auto simp: arp_cache_None expired_def matches_def ARP_NULL_ENTRY_def)
  then have "unat (fst (arp_table_find 0 s)) = 9" "fst (arp_table_find 0 s) \<noteq> - 1" by (auto dest: spec [of _ 9])
  then show ?thesis using assms find by (auto simp: arp_table_update_def split_beta ARP_NULL_ENTRY_def numeral_eq_Suc)
qed

theorem arp_table_zero_found_witness: "fst (arp_table_update BROADCAST_MAC 0 arp0)"
  using arp_table_zero_found [OF arp0_fields(1) prod.collapse [symmetric], of BROADCAST_MAC] by simp

end
