(* ===== verification/Arp.thy ===== *)
theory Arp
  imports Routing
begin

text \<open>
  The address resolution protocol: \<^verbatim>\<open>kernel/network/arp.c\<close>, with \<^verbatim>\<open>start_pdu_encapsulation\<close> of
  \<^verbatim>\<open>kernel/network/pdu_handler.c\<close>, which dispatches on the type of a frame. A received frame is the data of a
  queue slot, read through the packed layout. A frame that is sent is a local variable; \<open>frame_addr\<close> is
  the address the compiler gives it on the stack. The theorems say which reply a request gets, what is
  learned from a frame, and that anything else is ignored.
\<close>

section \<open>Frames\<close>

definition ARP_REQUEST :: u16 where [simp]: "ARP_REQUEST = 0x0001"
definition ARP_REPLY :: u16 where [simp]: "ARP_REPLY = 0x0002"
definition HTYPE_ETHERNET :: u16 where [simp]: "HTYPE_ETHERNET = 1"
definition IPV4_ADDR_LEN :: u8 where [simp]: "IPV4_ADDR_LEN = 4"
definition OWN_IPV4_ADDR :: u32 where "OWN_IPV4_ADDR = 0x0A00020A"

record arp_frame_t =
  hardware_type :: u16
  protocol_type :: u16
  hardware_addr_len :: u8
  protocol_addr_len :: u8
  opcode :: u16
  src_hardware_addr :: mac_address_t
  src_ip_address :: u32
  dest_hardware_addr :: mac_address_t
  dest_ip_address :: u32

definition sizeof_arp_frame_t :: u32 where [simp]: "sizeof_arp_frame_t = 28"

text \<open>The packed structure in memory, and the structure at an offset of a byte string.\<close>

definition arp_frame_image :: "arp_frame_t \<Rightarrow> u8 list" where
  "arp_frame_image f =
     octets16 (hardware_type f) @ octets16 (protocol_type f) @ [hardware_addr_len f, protocol_addr_len f] @
     octets16 (opcode f) @ src_hardware_addr f @ octets32 (src_ip_address f) @ dest_hardware_addr f @
     octets32 (dest_ip_address f)"

definition get16 :: "u8 list \<Rightarrow> nat \<Rightarrow> u16" where
  "get16 bytes i = ucast (bytes ! i) OR push_bit 8 (ucast (bytes ! (i + 1)))"

definition get32 :: "u8 list \<Rightarrow> nat \<Rightarrow> u32" where
  "get32 bytes i = ucast (bytes ! i) OR push_bit 8 (ucast (bytes ! (i + 1))) OR
     push_bit 16 (ucast (bytes ! (i + 2))) OR push_bit 24 (ucast (bytes ! (i + 3)))"

definition get_mac :: "u8 list \<Rightarrow> nat \<Rightarrow> mac_address_t" where
  "get_mac bytes i = map (\<lambda>k. bytes ! (i + k)) [0..<6]"

definition arp_frame_at :: "u8 list \<Rightarrow> nat \<Rightarrow> arp_frame_t" where
  "arp_frame_at bytes i =
     \<lparr>hardware_type = get16 bytes i, protocol_type = get16 bytes (i + 2),
      hardware_addr_len = bytes ! (i + 4), protocol_addr_len = bytes ! (i + 5), opcode = get16 bytes (i + 6),
      src_hardware_addr = get_mac bytes (i + 8), src_ip_address = get32 bytes (i + 14),
      dest_hardware_addr = get_mac bytes (i + 18), dest_ip_address = get32 bytes (i + 24)\<rparr>"

section \<open>Operations\<close>

definition arp_build_frame ::
  "device \<Rightarrow> u16 \<Rightarrow> mac_address_t \<Rightarrow> u32 \<Rightarrow> 's e1000_state_scheme \<Rightarrow> (arp_frame_t \<times> 's e1000_state_scheme) option" where
  "arp_build_frame dev code dest_hw dest_ip s =
     do { let (htype, s) = htons dev HTYPE_ETHERNET s;
          let (ptype, s) = htons dev TYPE_IPv4 s;
          let (oper, s) = htons dev code s;
          own \<leftarrow> e1000_get_mac s;
          let (src_hw, s) = hton_mac dev own s;
          let (src_ip, s) = htonl dev OWN_IPV4_ADDR s;
          let (dst_hw, s) = hton_mac dev dest_hw s;
          let (dst_ip, s) = htonl dev dest_ip s;
          Some (\<lparr>hardware_type = htype, protocol_type = ptype,
                 hardware_addr_len = of_nat ETH_MAC_ADDRESS_LENGTH, protocol_addr_len = IPV4_ADDR_LEN,
                 opcode = oper, src_hardware_addr = src_hw, src_ip_address = src_ip,
                 dest_hardware_addr = dst_hw, dest_ip_address = dst_ip\<rparr>, s) }"

definition arp_handle_request ::
  "device \<Rightarrow> addr \<Rightarrow> arp_frame_t \<Rightarrow> 's e1000_state_scheme \<Rightarrow> 's e1000_state_scheme option" where
  "arp_handle_request dev frame_addr frame s =
     do { let (hw, s) = ntoh_mac dev (src_hardware_addr frame) s;
          let (ip, s) = ntohl dev (src_ip_address frame) s;
          (arp_frame, s) \<leftarrow> arp_build_frame dev ARP_REPLY hw ip s;
          let s = s\<lparr>ram := store_bytes (ram s) frame_addr (arp_frame_image arp_frame)\<rparr>;
          let (hw, s) = ntoh_mac dev (src_hardware_addr frame) s;
          ethernet_send dev hw TYPE_ARP frame_addr sizeof_arp_frame_t s }"

text \<open>\<open>bytes\<close> is the ethernet frame; its payload starts at 14.\<close>

definition arp_receive ::
  "device \<Rightarrow> addr \<Rightarrow> u8 list \<Rightarrow> 's routing_state_scheme \<Rightarrow> 's routing_state_scheme option" where
  "arp_receive dev frame_addr bytes s =
     (let arp_frame = arp_frame_at bytes 14;
          (htype, s) = ntohs dev (hardware_type arp_frame) s in
      if htype \<noteq> HTYPE_ETHERNET \<or> hardware_addr_len arp_frame \<noteq> of_nat ETH_MAC_ADDRESS_LENGTH then Some s
      else
        (let (ptype, s) = ntohs dev (protocol_type arp_frame) s in
         if ptype \<noteq> TYPE_IPv4 \<or> protocol_addr_len arp_frame \<noteq> IPV4_ADDR_LEN then Some s
         else
           (let (src_hw, s) = ntoh_mac dev (src_hardware_addr arp_frame) s;
                (src_ip, s) = ntohl dev (src_ip_address arp_frame) s;
                (merge_flag, s) = arp_table_update src_hw src_ip s;
                (dest_ip, s) = ntohl dev (dest_ip_address arp_frame) s in
            if dest_ip = OWN_IPV4_ADDR then
              (let s = (if \<not> merge_flag
                        then (let (src_hw, s) = ntoh_mac dev (src_hardware_addr arp_frame) s;
                                  (src_ip, s) = ntohl dev (src_ip_address arp_frame) s
                              in arp_table_add_entry src_hw src_ip s)
                        else s);
                   (oper, s) = ntohs dev (opcode arp_frame) s in
               if oper = ARP_REQUEST then arp_handle_request dev frame_addr arp_frame s else Some s)
            else Some s)))"

definition arp_send_request ::
  "device \<Rightarrow> addr \<Rightarrow> u32 \<Rightarrow> 's e1000_state_scheme \<Rightarrow> 's e1000_state_scheme option" where
  "arp_send_request dev frame_addr ip s =
     do { (arp_frame, s) \<leftarrow> arp_build_frame dev ARP_REQUEST NULL_MAC ip s;
          let s = s\<lparr>ram := store_bytes (ram s) frame_addr (arp_frame_image arp_frame)\<rparr>;
          ethernet_send dev BROADCAST_MAC TYPE_ARP frame_addr sizeof_arp_frame_t s }"

text \<open>\<^verbatim>\<open>start_pdu_encapsulation\<close>: the slot of the queue is read as an ethernet frame.\<close>

definition start_pdu_encapsulation ::
  "device \<Rightarrow> addr \<Rightarrow> nat \<Rightarrow> 's routing_state_scheme \<Rightarrow> 's routing_state_scheme option" where
  "start_pdu_encapsulation dev frame_addr buf s =
     (let frame = packet_data (recv_packet_queue s ! buf);
          (ether_type, s) = ntohs dev (get16 frame 12) s in
      if ether_type = TYPE_ARP then arp_receive dev frame_addr frame s else Some s)"

text \<open>One round of the endless loop of \<^verbatim>\<open>network_task_recv\<close>.\<close>

definition network_task_round :: "device \<Rightarrow> addr \<Rightarrow> 's routing_state_scheme \<Rightarrow> 's routing_state_scheme option" where
  "network_task_round dev frame_addr s =
     (if new_packet_available s then
        (case remove_packet s of
           (None, s) \<Rightarrow> None
         | (Some packet, s) \<Rightarrow> start_pdu_encapsulation dev frame_addr packet s)
      else Some s)"

section \<open>The packed layout\<close>

text \<open>What a protocol message is on the wire: every field in network byte order.\<close>

definition arp_payload :: "u16 \<Rightarrow> mac_address_t \<Rightarrow> u32 \<Rightarrow> mac_address_t \<Rightarrow> u32 \<Rightarrow> u8 list" where
  "arp_payload code src_hw src_ip dest_hw dest_ip =
     [0, 1, 8, 0, 6, 4] @ rev (octets16 code) @ rev src_hw @ rev (octets32 src_ip) @ rev dest_hw @ rev (octets32 dest_ip)"

text \<open>The structure that holds such a message on a little-endian processor.\<close>

definition arp_message :: "u16 \<Rightarrow> mac_address_t \<Rightarrow> u32 \<Rightarrow> mac_address_t \<Rightarrow> u32 \<Rightarrow> arp_frame_t" where
  "arp_message code src_hw src_ip dest_hw dest_ip =
     \<lparr>hardware_type = bswap16 HTYPE_ETHERNET, protocol_type = bswap16 TYPE_IPv4, hardware_addr_len = 6,
      protocol_addr_len = 4, opcode = bswap16 code, src_hardware_addr = rev src_hw, src_ip_address = bswap32 src_ip,
      dest_hardware_addr = rev dest_hw, dest_ip_address = bswap32 dest_ip\<rparr>"

lemma octets_bswap [simp]:
  "octets32 (bswap32 v) = rev (octets32 v)" "octets16 (bswap16 w) = rev (octets16 w)"
  using net32.octets_swap [of v] net16.octets_swap [of w] by (simp_all add: swap32_def swap16_def)

lemma arp_frame_image_message: "arp_frame_image (arp_message code src_hw src_ip dest_hw dest_ip) =
    arp_payload code src_hw src_ip dest_hw dest_ip"
proof -
  have "octets16 HTYPE_ETHERNET = [1, 0]" "octets16 TYPE_IPv4 = [0, 8]" by code_simp+
  then show ?thesis by (simp add: arp_frame_image_def arp_message_def arp_payload_def)
qed

lemma length_octets [simp]: "length (octets32 v) = 4" "length (octets16 w) = 2"
  by (simp_all add: octets32_def octets16_def)

lemma get_append: "get16 (pre @ bytes) (length pre + i) = get16 bytes i" "get32 (pre @ bytes) (length pre + i) = get32 bytes i"
  "get_mac (pre @ bytes) (length pre + i) = get_mac bytes i"
  by (simp_all add: get16_def get32_def get_mac_def nth_append add.assoc)

lemma get_octets: "get16 (octets16 w @ post) 0 = w" "get32 (octets32 v @ post) 0 = v"
proof -
  show "get16 (octets16 w @ post) 0 = w"
  proof (rule bit_word_eqI)
    fix n assume "n < LENGTH(16)"
    then show "bit (get16 (octets16 w @ post) 0) n = bit w n"
      by (cases "n < 8") (auto simp: get16_def octets16_def bit_simps bit_byte_of dest: bit_imp_le_length)
  qed
  show "get32 (octets32 v @ post) 0 = v"
  proof (rule bit_word_eqI)
    fix n assume "n < LENGTH(32)"
    then consider "n < 8" | "8 \<le> n" "n < 16" | "16 \<le> n" "n < 24" | "24 \<le> n" "n < 32" by force
    then show "bit (get32 (octets32 v @ post) 0) n = bit v n"
      by cases (auto simp: get32_def octets32_def bit_simps bit_byte_of dest: bit_imp_le_length)
  qed
qed

lemma arp_frame_at_image:
  assumes "length (src_hardware_addr f) = 6" "length (dest_hardware_addr f) = 6"
  shows "arp_frame_at (pre @ arp_frame_image f @ post) (length pre) = f"
proof -
  obtain a1 a2 a3 a4 a5 a6 where a: "src_hardware_addr f = [a1, a2, a3, a4, a5, a6]" using assms(1) list6_cases by metis
  obtain b1 b2 b3 b4 b5 b6 where b: "dest_hardware_addr f = [b1, b2, b3, b4, b5, b6]" using assms(2) list6_cases by metis
  note g = get_octets(1) [where post = "[]", unfolded get16_def octets16_def, simplified]
    get_octets(2) [where post = "[]", unfolded get32_def octets32_def, simplified]
  have "(pre @ r) ! (length pre + k) = r ! k" for r k by (simp add: nth_append)
  then have pre: "arp_frame_at (pre @ r) (length pre) = arp_frame_at r 0" for r
    using get_append [of pre r] get_append(1) [of pre r 0] by (simp add: arp_frame_at_def del: add_2_eq_Suc')
  have mac: "get_mac r i = [r ! i, r ! (i + 1), r ! (i + 2), r ! (i + 3), r ! (i + 4), r ! (i + 5)]" for r i
    by (simp add: get_mac_def upt_rec numeral_eq_Suc)
  show ?thesis
    unfolding pre using a b g
    by (cases f) (simp add: arp_frame_at_def mac arp_frame_image_def octets16_def octets32_def get16_def get32_def)
qed

section \<open>Sending\<close>

lemma length_arp_payload [simp]:
  "length src_hw = 6 \<Longrightarrow> length dest_hw = 6 \<Longrightarrow> length (arp_payload code src_hw src_ip dest_hw dest_ip) = 28"
  by (simp add: arp_payload_def)

lemma arp_build_frame_result:
  assumes "has_byte_order dev False" "e1000 s = Some n" "length (nic_mac n) = 6" "length dest_hw = 6"
  shows "\<exists>h. arp_build_frame dev code dest_hw dest_ip s =
    Some (arp_message code (nic_mac n) OWN_IPV4_ADDR dest_hw dest_ip, s\<lparr>io := h @ io s\<rparr>)"
proof -
  note c = conversions [OF assms(1), simplified swap32_def swap16_def swap_mac_def, simplified]
  obtain e1 where e1: "htons dev HTYPE_ETHERNET s = (bswap16 HTYPE_ETHERNET, s\<lparr>io := e1 # io s\<rparr>)" using c(3) by blast
  let ?s1 = "s\<lparr>io := e1 # io s\<rparr>"
  obtain e2 where e2: "htons dev TYPE_IPv4 ?s1 = (bswap16 TYPE_IPv4, ?s1\<lparr>io := e2 # io ?s1\<rparr>)" using c(3) by blast
  let ?s2 = "?s1\<lparr>io := e2 # io ?s1\<rparr>"
  obtain e3 where e3: "htons dev code ?s2 = (bswap16 code, ?s2\<lparr>io := e3 # io ?s2\<rparr>)" using c(3) by blast
  let ?s3 = "?s2\<lparr>io := e3 # io ?s2\<rparr>"
  obtain e4 where e4: "hton_mac dev (nic_mac n) ?s3 = (reverse_mac (nic_mac n), ?s3\<lparr>io := e4 # io ?s3\<rparr>)" using c(5) by blast
  let ?s4 = "?s3\<lparr>io := e4 # io ?s3\<rparr>"
  obtain e5 where e5: "htonl dev OWN_IPV4_ADDR ?s4 = (bswap32 OWN_IPV4_ADDR, ?s4\<lparr>io := e5 # io ?s4\<rparr>)" using c(1) by blast
  let ?s5 = "?s4\<lparr>io := e5 # io ?s4\<rparr>"
  obtain e6 where e6: "hton_mac dev dest_hw ?s5 = (reverse_mac dest_hw, ?s5\<lparr>io := e6 # io ?s5\<rparr>)" using c(5) by blast
  let ?s6 = "?s5\<lparr>io := e6 # io ?s5\<rparr>"
  obtain e7 where e7: "htonl dev dest_ip ?s6 = (bswap32 dest_ip, ?s6\<lparr>io := e7 # io ?s6\<rparr>)" using c(1) by blast
  have "arp_build_frame dev code dest_hw dest_ip s =
    Some (arp_message code (nic_mac n) OWN_IPV4_ADDR dest_hw dest_ip, s\<lparr>io := [e7, e6, e5, e4, e3, e2, e1] @ io s\<rparr>)"
    using e1 e2 e3 e4 e5 e6 e7 assms(2-4)
    by (simp add: arp_build_frame_def e1000_get_mac_def arp_message_def reverse_mac_rev)
  then show ?thesis by blast
qed

text \<open>The variable a frame is built in lies on a stack, outside the heap.\<close>

definition stack_slot :: "addr \<Rightarrow> nat \<Rightarrow> bool" where
  "stack_slot a n \<longleftrightarrow> (\<forall>i < n. \<not> heap_arena (a + of_nat i))"

lemma stack_slot_user: "stack_slot a n \<Longrightarrow> i < n \<Longrightarrow> user_byte bs fs m (a + of_nat i)"
  by (auto simp: stack_slot_def user_byte_def heap_arena_def)

text \<open>The outcome of sending one frame; the heap has room for another one of its length afterwards.\<close>

definition frame_sent ::
  "addr list \<Rightarrow> addr list \<Rightarrow> e1000_device_t \<Rightarrow> u8 list \<Rightarrow> 's e1000_state_scheme \<Rightarrow> 's e1000_state_scheme \<Rightarrow> bool" where
  "frame_sent bs fs n frame s s' \<longleftrightarrow> wire s' = wire s @ [frame] \<and>
     (\<exists>bs' fs'. heap_rep bs' fs' s' \<and> heap_object (bs', fs') s' = heap_object (bs, fs) s \<and>
       heap_room fs' (length frame) s') \<and>
     e1000 s' = Some (n\<lparr>tx_cur := (tx_cur n + 1) mod 8\<rparr>) \<and> net_only s s' \<and>
     unat (current_heap_address s') \<le> unat (current_heap_address s) + 1552"

lemma net_only_io_ram: "net_only (s\<lparr>io := h, ram := m\<rparr>) s' \<Longrightarrow> net_only s s'"
  unfolding net_only_def by simp

lemma length_ethernet_bytes [simp]:
  "length dest = 6 \<Longrightarrow> length src = 6 \<Longrightarrow> length (ethernet_bytes dest src type payload) = 14 + max 46 (length payload)"
  by (simp add: ethernet_bytes_def)

lemma send_local_frame:
  assumes ready: "net_ready dev s n" and rep: "heap_rep bs fs s" and room: "heap_room fs 60 s"
    and slot: "stack_slot frame_addr 28" and hw: "length hw = 6" and len: "length img = 28"
  shows "\<exists>s'. ethernet_send dev hw TYPE_ARP frame_addr 28
      (s\<lparr>io := h, ram := store_bytes (ram s) frame_addr img\<rparr>) = Some s' \<and>
    frame_sent bs fs n (ethernet_bytes hw (nic_mac n) TYPE_ARP img) s s' \<and>
    (\<forall>x. user_byte bs fs (ram s) x \<longrightarrow> \<not> in_range x frame_addr 28 \<longrightarrow> ram s' x = ram s x)"
proof -
  let ?m = "store_bytes (ram s) frame_addr img"
  let ?s = "s\<lparr>io := h, ram := ?m\<rparr>"
  have outside: "\<not> heap_arena x" if "in_range x frame_addr 28" for x
  proof -
    have "x = frame_addr + of_nat (unat (x - frame_addr))" "unat (x - frame_addr) < 28"
      using that by (simp_all add: in_range_def)
    then show ?thesis using slot unfolding stack_slot_def by metis
  qed
  have same: "?m x = ram s x" if "heap_arena x" for x
    using that outside [of x] len by (auto simp: store_bytes_apply)
  then have "?m x = ram s x" if "\<not> user_byte bs fs (ram s) x" for x
    using that by (auto simp: user_byte_def heap_arena_def)
  note keep = heap_rep_user_write [OF rep this]
  have bytes: "user_byte bs fs ?m x = user_byte bs fs (ram s) x" for x
    using keep(2) by (auto simp: user_byte_def live_def)
  have rep': "heap_rep bs fs ?s" using keep(1) by (simp add: heap_rep_def)
  have obj: "heap_object (bs, fs) ?s = heap_object (bs, fs) s"
    using keep(2) by (auto simp: heap_object_def fun_eq_iff live_def)
  have load: "load_bytes ?m frame_addr (unat (28 :: u32)) = img"
    using load_bytes_store_bytes_same [of img] len by simp
  have "\<forall>i < unat (28 :: u32). user_byte bs fs (ram ?s) (frame_addr + of_nat i)"
    using stack_slot_user [OF slot] by simp
  moreover have "heap_room fs 60 ?s"
    using room keep(2) rep by (auto simp: heap_room_def heap_rep_def subset_iff)
  moreover have "length (nic_mac n) = 6" using ready by (simp add: net_ready_def)
  ultimately obtain s' bs' fs' where "ethernet_send dev hw TYPE_ARP frame_addr 28 ?s = Some s'"
    "wire s' = wire s @ [ethernet_bytes hw (nic_mac n) TYPE_ARP img]"
    "heap_rep bs' fs' s'" "heap_object (bs', fs') s' = heap_object (bs, fs) s"
    "heap_room fs' (length (ethernet_bytes hw (nic_mac n) TYPE_ARP img)) s'"
    "e1000 s' = Some (n\<lparr>tx_cur := (tx_cur n + 1) mod 8\<rparr>)" "net_only ?s s'"
    "unat (current_heap_address s') \<le> unat (current_heap_address s) + 1552"
    "\<forall>x. user_byte bs fs ?m x \<longrightarrow> ram s' x = ?m x"
    using ethernet_send_result [OF _ rep' _ _ hw, of dev n 28 frame_addr TYPE_ARP] ready load obj hw len
    by (auto simp: net_ready_def)
  moreover have "?m x = ram s x" if "\<not> in_range x frame_addr 28" for x using that len by (simp add: store_bytes_apply)
  ultimately show ?thesis unfolding frame_sent_def bytes using net_only_io_ram by (intro exI conjI allI impI) (assumption | blast | simp)+
qed

section \<open>Receiving\<close>

text \<open>Every conversion reads the configuration register once; on a little-endian board it swaps the bytes.\<close>

definition poll :: "device \<Rightarrow> 's io_state_scheme \<Rightarrow> 's io_state_scheme" where
  "poll dev s = snd (is_big_endian dev s)"

lemma conversions_poll:
  assumes "has_byte_order dev False"
  shows "ntohs dev w s = (bswap16 w, poll dev s)" "ntohl dev v s = (bswap32 v, poll dev s)"
    "ntoh_mac dev mac s = (reverse_mac mac, poll dev s)"
  using is_big_endian_value [OF assms, of s]
  by (auto simp: ntohs_def ntohl_def ntoh_mac_def poll_def split_beta)

lemma poll_io: "poll dev s = s\<lparr>io := io (poll dev s)\<rparr>"
  by (simp add: poll_def is_big_endian_def read32_def bus_read_def split_beta Let_def)

lemma arp_io [frame_simps]:
  "arp_table_find ip (s\<lparr>io := h\<rparr>) = (fst (arp_table_find ip s), (snd (arp_table_find ip s))\<lparr>io := h\<rparr>)"
  "arp_table_update mac ip (s\<lparr>io := h\<rparr>) = (fst (arp_table_update mac ip s), (snd (arp_table_update mac ip s))\<lparr>io := h\<rparr>)"
  "arp_table_add_entry mac ip (s\<lparr>io := h\<rparr>) = (arp_table_add_entry mac ip s)\<lparr>io := h\<rparr>"
proof -
  show f: "arp_table_find ip (s\<lparr>io := h\<rparr>) = (fst (arp_table_find ip s), (snd (arp_table_find ip s))\<lparr>io := h\<rparr>)" for ip
    by (simp add: arp_table_find_def clock_seconds_def split_beta del: upt_rec_numeral split: option.split)
  show "arp_table_update mac ip (s\<lparr>io := h\<rparr>) = (fst (arp_table_update mac ip s), (snd (arp_table_update mac ip s))\<lparr>io := h\<rparr>)"
    by (simp add: arp_table_update_def f split_beta split: option.split)
  show "arp_table_add_entry mac ip (s\<lparr>io := h\<rparr>) = (arp_table_add_entry mac ip s)\<lparr>io := h\<rparr>"
    by (simp add: arp_table_add_entry_def clock_seconds_def Let_def del: upt_rec_numeral split: option.split)
qed

lemma poll_fields [simp]:
  "ram (poll dev s1) = ram s1" "clock (poll dev s2) = clock s2" "e1000 (poll dev s3) = e1000 s3" "wire (poll dev s3) = wire s3"
  "arp_entries (poll dev s4) = arp_entries s4" "recv_packet_queue (poll dev s5) = recv_packet_queue s5"
  by (simp_all add: poll_def is_big_endian_def read32_def bus_read_def split_beta Let_def)

text \<open>A frame as \<^verbatim>\<open>arp_receive\<close> gets it: header, message, and whatever follows.\<close>

definition carries ::
  "u8 list \<Rightarrow> u16 \<Rightarrow> mac_address_t \<Rightarrow> u32 \<Rightarrow> mac_address_t \<Rightarrow> u32 \<Rightarrow> bool" where
  "carries bytes code src_hw src_ip dest_hw dest_ip \<longleftrightarrow>
     length src_hw = 6 \<and> length dest_hw = 6 \<and>
     take 28 (drop 14 bytes) = arp_payload code src_hw src_ip dest_hw dest_ip"

lemma carries_frame:
  assumes "carries bytes code src_hw src_ip dest_hw dest_ip"
  shows "arp_frame_at bytes 14 = arp_message code src_hw src_ip dest_hw dest_ip"
proof -
  have m: "length src_hw = 6" "length dest_hw = 6"
    "take 28 (drop 14 bytes) = arp_payload code src_hw src_ip dest_hw dest_ip"
    using assms by (simp_all add: carries_def)
  have "length (take 28 (drop 14 bytes)) = 28" using m by simp
  then have pre: "length (take 14 bytes) = 14" by simp
  have "bytes = take 14 bytes @ take 28 (drop 14 bytes) @ drop 28 (drop 14 bytes)"
    by (metis append_take_drop_id)
  then have "bytes = take 14 bytes @ arp_frame_image (arp_message code src_hw src_ip dest_hw dest_ip) @ drop 28 (drop 14 bytes)"
    using m(3) by (simp add: arp_frame_image_message)
  then show ?thesis
    using arp_frame_at_image [of "arp_message code src_hw src_ip dest_hw dest_ip" "take 14 bytes" "drop 28 (drop 14 bytes)"]
      m(1,2) pre by (simp add: arp_message_def)
qed

text \<open>What is learned from a frame: update, and add when the frame is for this host.\<close>

definition arp_learn :: "bool \<Rightarrow> mac_address_t \<Rightarrow> u32 \<Rightarrow> 's routing_state_scheme \<Rightarrow> 's routing_state_scheme" where
  "arp_learn own mac ip s =
     (case arp_table_update mac ip s of (found, s1) \<Rightarrow> if own \<and> \<not> found then arp_table_add_entry mac ip s1 else s1)"

lemma arp_receive_message:
  assumes dev: "has_byte_order dev False" and hw: "length src_hw = 6"
    and f: "arp_frame_at bytes 14 = arp_message code src_hw src_ip dest_hw dest_ip"
  shows "\<exists>h. arp_receive dev frame_addr bytes s =
    (let s2 = (arp_learn (dest_ip = OWN_IPV4_ADDR) src_hw src_ip s)\<lparr>io := h\<rparr> in
     if dest_ip = OWN_IPV4_ADDR \<and> code = ARP_REQUEST
     then arp_handle_request dev frame_addr (arp_message code src_hw src_ip dest_hw dest_ip) s2 else Some s2)"
proof -
  have rev: "reverse_mac (rev src_hw) = src_hw" using hw by (simp add: reverse_mac_rev)
  define p where "p = (\<lambda>t :: 'a routing_state_scheme. io (poll dev t))"
  have p: "poll dev t = t\<lparr>io := p t\<rparr>" for t unfolding p_def by (rule poll_io)
  show ?thesis
    unfolding arp_receive_def f conversions_poll [OF dev] p
    by (simp add: arp_message_def rev arp_learn_def split_beta Let_def frame_simps cong: if_cong)
       (intro exI conjI impI; rule refl)
qed

lemma arp_receive_result:
  assumes "has_byte_order dev False" and "carries bytes code src_hw src_ip dest_hw dest_ip"
  shows "\<exists>h. arp_receive dev frame_addr bytes s =
    (let s2 = (arp_learn (dest_ip = OWN_IPV4_ADDR) src_hw src_ip s)\<lparr>io := h\<rparr> in
     if dest_ip = OWN_IPV4_ADDR \<and> code = ARP_REQUEST
     then arp_handle_request dev frame_addr (arp_message code src_hw src_ip dest_hw dest_ip) s2 else Some s2)"
proof -
  have "length src_hw = 6" using assms(2) by (simp add: carries_def)
  then show ?thesis using carries_frame [OF assms(2)] by (rule arp_receive_message [OF assms(1)])
qed

text \<open>The messages \<^verbatim>\<open>arp_receive\<close> looks at; a frame with another header is dropped.\<close>

definition arp_supported :: "arp_frame_t \<Rightarrow> bool" where
  "arp_supported f \<longleftrightarrow> hardware_type f = bswap16 1 \<and> hardware_addr_len f = 6 \<and>
     protocol_type f = bswap16 TYPE_IPv4 \<and> protocol_addr_len f = 4"

lemma arp_supported_message:
  assumes "arp_supported (arp_frame_at bytes i)"
  obtains code src_hw src_ip dest_hw dest_ip
  where "arp_frame_at bytes i = arp_message code src_hw src_ip dest_hw dest_ip" "length src_hw = 6" "length dest_hw = 6"
proof
  let ?f = "arp_frame_at bytes i"
  show "?f = arp_message (bswap16 (opcode ?f)) (rev (src_hardware_addr ?f)) (bswap32 (src_ip_address ?f))
      (rev (dest_hardware_addr ?f)) (bswap32 (dest_ip_address ?f))"
    using assms by (cases ?f) (simp add: arp_supported_def arp_message_def)
qed (simp_all add: arp_frame_at_def get_mac_def)

lemma arp_receive_unsupported:
  assumes "has_byte_order dev False" "\<not> arp_supported (arp_frame_at bytes 14)"
  shows "\<exists>h. arp_receive dev frame_addr bytes s = Some (s\<lparr>io := h\<rparr>)"
proof -
  define p where "p = (\<lambda>t :: 'a routing_state_scheme. io (poll dev t))"
  have p: "poll dev t = t\<lparr>io := p t\<rparr>" for t unfolding p_def by (rule poll_io)
  have sw: "bswap16 v = w \<longleftrightarrow> v = bswap16 w" for v w by (metis bswap16_bswap16)
  show ?thesis
    using assms(2) unfolding arp_receive_def conversions_poll [OF assms(1)] p
    by (auto simp: arp_supported_def sw Let_def intro: exI)
qed

lemma arp_learn_result:
  assumes "arp_ready s" "ip \<noteq> 0"
  shows "\<exists>t. arp_learn own mac ip s = s\<lparr>arp_entries := Some t\<rparr>" and "arp_ready (arp_learn own mac ip s)"
    and "own \<Longrightarrow> fresh (arp_learn own mac ip s) ip mac"
    and "\<not> own \<Longrightarrow> cache s ip = None \<Longrightarrow> cache (arp_learn own mac ip s) ip = None"
proof -
  obtain found s1 where u: "arp_table_update mac ip s = (found, s1)" by fastforce
  note r = arp_table_update_result [OF assms u]
  have s1: "arp_learn own mac ip s = (if own \<and> \<not> found then arp_table_add_entry mac ip s1 else s1)"
    by (simp add: arp_learn_def u)
  obtain t where t: "s1 = s\<lparr>arp_entries := Some t\<rparr>" using r(3) by blast
  then show "\<exists>t. arp_learn own mac ip s = s\<lparr>arp_entries := Some t\<rparr>"
    using arp_table_add_entry_result [OF r(2), of t mac ip] by (auto simp: s1)
  show "arp_ready (arp_learn own mac ip s)" using r(2) by (simp add: s1 add_entry_keeps)
  show "own \<Longrightarrow> fresh (arp_learn own mac ip s) ip mac"
    using arp.update_fresh [OF assms, of mac] arp.add_fresh [OF assms, of mac] by (cases found) (simp_all add: arp_learn_def u)
  show "cache (arp_learn own mac ip s) ip = None" if "\<not> own" "cache s ip = None"
  proof -
    have "\<forall>e \<in> set t. entry_ip e \<noteq> ip" using r(1,5) that(2) t by simp
    then show ?thesis using that(1) t by (simp add: arp_learn_def u cache_def arp_cache_None matches_def)
  qed
qed

lemma arp_learn_keeps:
  assumes "arp_ready s"
  shows "\<exists>t. arp_learn own mac ip s = s\<lparr>arp_entries := Some t\<rparr> \<and> length t = MAX_ARP_TABLE_ENTRIES"
proof -
  obtain t where t: "arp_entries s = Some t" "length t = MAX_ARP_TABLE_ENTRIES" using assms by (auto simp: arp_ready_def)
  note f = arp_table_find_result(1) [OF t, of ip]
  obtain found s1 where u: "arp_table_update mac ip s = (found, s1)" by fastforce
  obtain t1 where s1: "s1 = s\<lparr>arp_entries := Some t1\<rparr>" "length t1 = MAX_ARP_TABLE_ENTRIES"
    using u t by (auto simp: arp_table_update_def split_beta f split: if_splits)
  then have "arp_ready s1" "arp_entries s1 = Some t1" by (simp_all add: arp_ready_def)
  from arp_table_add_entry_result [OF this, of mac ip] s1
  obtain t2 where "arp_table_add_entry mac ip s1 = s\<lparr>arp_entries := Some t2\<rparr>" "length t2 = MAX_ARP_TABLE_ENTRIES" by auto
  then show ?thesis using s1 by (auto simp: arp_learn_def u)
qed

lemma arp_message_src:
  "src_hardware_addr (arp_message code src_hw src_ip dest_hw dest_ip) = rev src_hw"
  "src_ip_address (arp_message code src_hw src_ip dest_hw dest_ip) = bswap32 src_ip"
  by (simp_all add: arp_message_def)

lemma ram_io_swap: "s\<lparr>ram := m, io := h\<rparr> = s\<lparr>io := h, ram := m\<rparr>"
  by simp

lemma arp_handle_request_result:
  assumes ready: "net_ready dev s n" and rep: "heap_rep bs fs s"
    and room: "heap_room fs 60 s" and slot: "stack_slot frame_addr 28"
    and hw: "length src_hw = 6"
  shows "\<exists>s'. arp_handle_request dev frame_addr (arp_message code src_hw src_ip dest_hw dest_ip) s = Some s' \<and>
    frame_sent bs fs n (ethernet_bytes src_hw (nic_mac n) TYPE_ARP
      (arp_payload ARP_REPLY (nic_mac n) OWN_IPV4_ADDR src_hw src_ip)) s s'"
proof -
  have dev: "has_byte_order dev False" "e1000 s = Some n" "length (nic_mac n) = 6"
    using ready by (simp_all add: net_ready_def)
  define p where "p = (\<lambda>t :: 'a e1000_state_scheme. io (poll dev t))"
  have p: "poll dev t = t\<lparr>io := p t\<rparr>" for t unfolding p_def by (rule poll_io)
  let ?s = "poll dev (poll dev s)"
  obtain h where b: "arp_build_frame dev ARP_REPLY src_hw src_ip ?s =
      Some (arp_message ARP_REPLY (nic_mac n) OWN_IPV4_ADDR src_hw src_ip, ?s\<lparr>io := h @ io ?s\<rparr>)"
    using arp_build_frame_result [OF dev(1) _ dev(3) hw, of ?s ARP_REPLY src_ip] dev(2) by auto
  let ?pl = "arp_payload ARP_REPLY (nic_mac n) OWN_IPV4_ADDR src_hw src_ip"
  have "length ?pl = 28" using dev(3) hw by (rule length_arp_payload)
  note sent = send_local_frame [OF ready rep room slot hw this]
  have "\<exists>h. arp_handle_request dev frame_addr (arp_message code src_hw src_ip dest_hw dest_ip) s =
      ethernet_send dev src_hw TYPE_ARP frame_addr 28 (s\<lparr>io := h, ram := store_bytes (ram s) frame_addr ?pl\<rparr>)"
    unfolding arp_handle_request_def conversions_poll [OF dev(1)]
    using b hw by (simp add: arp_message_src reverse_mac_rev arp_frame_image_message p ram_io_swap) (intro exI, rule refl)
  then show ?thesis using sent by metis
qed

lemma net_only_arp: "net_only s s' \<Longrightarrow> arp_entries s' = arp_entries s" "net_only s s' \<Longrightarrow> clock s' = clock s"
proof -
  assume "net_only s s'"
  then have *: "s' = s\<lparr>io := io s', errno := errno s', ram := ram s',
     current_heap_address := current_heap_address s', free_block_list_head_next := free_block_list_head_next s',
     e1000 := e1000 s', wire := wire s'\<rparr>" by (simp only: net_only_def)
  from arg_cong [OF *, of arp_entries] arg_cong [OF *, of clock]
  show "arp_entries s' = arp_entries s" "clock s' = clock s" by simp_all
qed

lemma arp_frame [frame_simps]:
  "heap_object g (s\<lparr>arp_entries := t\<rparr>) = heap_object g s" "heap_rep bs fs (s\<lparr>arp_entries := t\<rparr>) = heap_rep bs fs s"
  "cache (s\<lparr>io := h\<rparr>) = cache s" "heap_room fs k (s\<lparr>arp_entries := t\<rparr>) = heap_room fs k s"
  by (simp_all add: heap_object_def heap_rep_def heap_room_def fun_eq_iff cache_def clock_seconds_def split: option.split)

lemma frame_sent_io: "frame_sent bs fs n frame (s\<lparr>io := h\<rparr>) s' = frame_sent bs fs n frame s s'"
  unfolding frame_sent_def net_only_def by (simp add: frame_simps)

lemma arp_request_result:
  assumes ready: "net_ready dev s n" and rep: "heap_rep bs fs s"
    and room: "heap_room fs 60 s" and slot: "stack_slot frame_addr 28"
    and arp: "arp_ready s" "src_ip \<noteq> 0"
    and c: "carries bytes ARP_REQUEST src_hw src_ip dest_hw OWN_IPV4_ADDR"
  shows "\<exists>s'. arp_receive dev frame_addr bytes s = Some s' \<and>
    frame_sent bs fs n (ethernet_bytes src_hw (nic_mac n) TYPE_ARP
      (arp_payload ARP_REPLY (nic_mac n) OWN_IPV4_ADDR src_hw src_ip)) (arp_learn True src_hw src_ip s) s' \<and>
    arp_ready s' \<and> fresh s' src_ip src_hw"
proof -
  let ?l = "arp_learn True src_hw src_ip s"
  have hw: "length src_hw = 6" and dev: "has_byte_order dev False"
    using c ready by (simp_all add: carries_def net_ready_def)
  note l = arp_learn_result [OF arp, of True src_hw]
  obtain t where t: "?l = s\<lparr>arp_entries := Some t\<rparr>" using l(1) by blast
  obtain h where r: "arp_receive dev frame_addr bytes s =
      arp_handle_request dev frame_addr (arp_message ARP_REQUEST src_hw src_ip dest_hw OWN_IPV4_ADDR) (?l\<lparr>io := h\<rparr>)"
    using arp_receive_result [OF dev c, of frame_addr s] by auto
  have "net_ready dev (?l\<lparr>io := h\<rparr>) n" "heap_rep bs fs (?l\<lparr>io := h\<rparr>)"
    "heap_room fs 60 (?l\<lparr>io := h\<rparr>)"
    using ready rep room by (simp_all add: t net_ready_def heap_rep_def heap_room_def)
  from arp_handle_request_result [OF this slot hw, of ARP_REQUEST src_ip dest_hw OWN_IPV4_ADDR] r
  obtain s' where s': "arp_receive dev frame_addr bytes s = Some s'"
    "frame_sent bs fs n (ethernet_bytes src_hw (nic_mac n) TYPE_ARP
      (arp_payload ARP_REPLY (nic_mac n) OWN_IPV4_ADDR src_hw src_ip)) (?l\<lparr>io := h\<rparr>) s'" by auto
  then have sent: "frame_sent bs fs n (ethernet_bytes src_hw (nic_mac n) TYPE_ARP
      (arp_payload ARP_REPLY (nic_mac n) OWN_IPV4_ADDR src_hw src_ip)) ?l s'"
    by (simp add: frame_sent_io)
  then have "arp_entries s' = arp_entries ?l" "clock s' = clock ?l" by (simp_all add: frame_sent_def net_only_arp)
  then have "arp_ready s'" "fresh s' src_ip src_hw"
    using l(2,3) by (simp_all add: arp_ready_def fresh_def clock_seconds_def)
  with s'(1) sent show ?thesis by blast
qed

text \<open>The answer to the bytes of a frame, as a specification: a reply to a request for the own address, else nothing.\<close>

definition arp_answer :: "mac_address_t \<Rightarrow> u8 list \<Rightarrow> u8 list option" where
  "arp_answer own bytes =
     (let f = arp_frame_at bytes 14; hw = rev (src_hardware_addr f) in
      if arp_supported f \<and> bswap32 (dest_ip_address f) = OWN_IPV4_ADDR \<and> bswap16 (opcode f) = ARP_REQUEST
      then Some (ethernet_bytes hw own TYPE_ARP
        (arp_payload ARP_REPLY own OWN_IPV4_ADDR hw (bswap32 (src_ip_address f))))
      else None)"

definition arp_outcome ::
  "addr list \<Rightarrow> addr list \<Rightarrow> e1000_device_t \<Rightarrow> u8 list option \<Rightarrow> 's routing_state_scheme \<Rightarrow> 's routing_state_scheme \<Rightarrow> bool" where
  "arp_outcome bs fs n answer s s' \<longleftrightarrow> (\<exists>t. length t = MAX_ARP_TABLE_ENTRIES \<and>
     (case answer of
        None \<Rightarrow> \<exists>h. s' = s\<lparr>arp_entries := Some t, io := h\<rparr>
      | Some frame \<Rightarrow> frame_sent bs fs n frame (s\<lparr>arp_entries := Some t\<rparr>) s'))"

lemma arp_receive_outcome:
  assumes ready: "net_ready dev s n" and rep: "heap_rep bs fs s"
    and room: "heap_room fs 60 s" and slot: "stack_slot frame_addr 28" and arp: "arp_ready s"
  shows "\<exists>s'. arp_receive dev frame_addr bytes s = Some s' \<and> arp_outcome bs fs n (arp_answer (nic_mac n) bytes) s s'"
proof -
  have dev: "has_byte_order dev False" using ready by (simp add: net_ready_def)
  show ?thesis
  proof (cases "arp_supported (arp_frame_at bytes 14)")
    case False
    obtain t where t: "arp_entries s = Some t" "length t = MAX_ARP_TABLE_ENTRIES" using arp by (auto simp: arp_ready_def)
    then have "s\<lparr>io := h\<rparr> = s\<lparr>arp_entries := Some t, io := h\<rparr>" for h by (cases s) simp
    then show ?thesis using arp_receive_unsupported [OF dev False, of frame_addr s] False t(2)
      by (fastforce simp: arp_answer_def arp_outcome_def)
  next
    case True
    then obtain code src_hw src_ip dest_hw dest_ip
      where f: "arp_frame_at bytes 14 = arp_message code src_hw src_ip dest_hw dest_ip" "length src_hw = 6" "length dest_hw = 6"
      by (rule arp_supported_message)
    have answer: "arp_answer (nic_mac n) bytes = (if dest_ip = OWN_IPV4_ADDR \<and> code = ARP_REQUEST then
        Some (ethernet_bytes src_hw (nic_mac n) TYPE_ARP (arp_payload ARP_REPLY (nic_mac n) OWN_IPV4_ADDR src_hw src_ip)) else None)"
      using True by (simp add: arp_answer_def f(1) Let_def) (simp add: arp_message_def)
    obtain t where t: "arp_learn (dest_ip = OWN_IPV4_ADDR) src_hw src_ip s = s\<lparr>arp_entries := Some t\<rparr>"
      "length t = MAX_ARP_TABLE_ENTRIES" using arp_learn_keeps [OF arp] by blast
    obtain h where r: "arp_receive dev frame_addr bytes s =
        (if dest_ip = OWN_IPV4_ADDR \<and> code = ARP_REQUEST
         then arp_handle_request dev frame_addr (arp_message code src_hw src_ip dest_hw dest_ip) (s\<lparr>arp_entries := Some t, io := h\<rparr>)
         else Some (s\<lparr>arp_entries := Some t, io := h\<rparr>))"
      using arp_receive_message [OF dev f(2,1), of frame_addr s] unfolding t(1) Let_def by blast
    let ?s = "s\<lparr>arp_entries := Some t, io := h\<rparr>"
    have "net_ready dev ?s n" "heap_rep bs fs ?s" "heap_room fs 60 ?s"
      using ready rep room by (simp_all add: net_ready_def frame_simps)
    from arp_handle_request_result [OF this slot f(2), of code src_ip dest_hw dest_ip] r t(2)
    show ?thesis unfolding answer arp_outcome_def by (auto simp: frame_sent_io)
  qed
qed

section \<open>Properties\<close>

text \<open>
  Property C8: an ARP request for the own address is answered. The one frame that leaves the card is the
  reply to the sender with the own hardware and IP address, the sender's pair of addresses is in the table
  with the current time, and the live heap objects are as before. It holds for a little-endian board, a
  card that reports, room in the heap and a local frame outside the heap.
\<close>

theorem arp_request_answered:
  assumes "net_ready dev s n" "heap_rep bs fs s" "unat (current_heap_address s) + 1552 \<le> heap_end"
    and "stack_slot frame_addr 28" "arp_ready s" "src_ip \<noteq> 0"
    and "carries bytes ARP_REQUEST src_hw src_ip dest_hw OWN_IPV4_ADDR"
  shows "\<exists>s' bs' fs'. arp_receive dev frame_addr bytes s = Some s' \<and>
    wire s' = wire s @ [ethernet_bytes src_hw (nic_mac n) TYPE_ARP
      (arp_payload ARP_REPLY (nic_mac n) OWN_IPV4_ADDR src_hw src_ip)] \<and>
    fst (arp_table_lookup src_ip s') = src_hw \<and>
    heap_rep bs' fs' s' \<and> heap_object (bs', fs') s' = heap_object (bs, fs) s"
proof -
  obtain t where t: "arp_learn True src_hw src_ip s = s\<lparr>arp_entries := Some t\<rparr>"
    using arp_learn_result(1) [OF assms(5,6)] by blast
  obtain s' where s': "arp_receive dev frame_addr bytes s = Some s'" "arp_ready s'" "fresh s' src_ip src_hw"
    "frame_sent bs fs n (ethernet_bytes src_hw (nic_mac n) TYPE_ARP
      (arp_payload ARP_REPLY (nic_mac n) OWN_IPV4_ADDR src_hw src_ip)) (s\<lparr>arp_entries := Some t\<rparr>) s'"
    using arp_request_result [OF assms(1,2) heap_room_top [OF _ assms(3)] assms(4-7)] t by auto
  have "cache s' src_ip = Some src_hw" using arp.fresh_view [OF s'(3), of s'] by (simp add: aged_def)
  then have "fst (arp_table_lookup src_ip s') = src_hw" using arp_table_lookup_value [OF s'(2)] by simp
  with s'(1,4) show ?thesis by (auto simp: frame_sent_def frame_simps)
qed

definition arp_request0 :: "u8 list" where
  "arp_request0 = rev BROADCAST_MAC @ rev [0x02, 0x02, 0x00, 0x0A, 0x55, 0x52] @ [8, 6] @
     arp_payload ARP_REQUEST [0x02, 0x02, 0x00, 0x0A, 0x55, 0x52] 0x0A000202 NULL_MAC OWN_IPV4_ADDR"

lemma arp_request0_carries:
  "carries arp_request0 ARP_REQUEST [0x02, 0x02, 0x00, 0x0A, 0x55, 0x52] 0x0A000202 NULL_MAC OWN_IPV4_ADDR"
  by (simp add: carries_def arp_request0_def)

lemma arp0_heap: "heap_rep [] [] arp0" "unat (current_heap_address arp0) + 1552 \<le> heap_end" "net_ready quick_card arp0 nic0"
  "wire arp0 = []"
  using card0_heap by (simp_all add: arp0_def e1000_state.defs heap_rep_def net_ready_def const_defs heap_end_eq)

lemma stack_slot0: "stack_slot 0x1000 28"
proof -
  have "unat (0x1000 + of_nat i :: addr) = 0x1000 + i" if "i < 28" for i :: nat
    using unat_add_small [of "0x1000" i] that by simp
  then show ?thesis by (auto simp: stack_slot_def heap_arena_def const_defs)
qed

theorem arp_request_answered_witness:
  "\<exists>s'. arp_receive quick_card 0x1000 arp_request0 arp0 = Some s' \<and>
    wire s' = [ethernet_bytes [0x02, 0x02, 0x00, 0x0A, 0x55, 0x52] (nic_mac nic0) TYPE_ARP
      (arp_payload ARP_REPLY (nic_mac nic0) OWN_IPV4_ADDR [0x02, 0x02, 0x00, 0x0A, 0x55, 0x52] 0x0A000202)]"
  using arp_request_answered [OF arp0_heap(3,1,2) stack_slot0 arp0_fields(2) _ arp_request0_carries] arp0_heap(4) by auto

text \<open>
  Property C31: a message for another host sends nothing and teaches nothing new. The table can only be
  updated for an address it already knows; the memory, the heap and the wire are untouched.
\<close>

theorem arp_other_host_silent:
  assumes "has_byte_order dev False" "arp_ready s" "src_ip \<noteq> 0" "dest_ip \<noteq> OWN_IPV4_ADDR"
    and "carries bytes code src_hw src_ip dest_hw dest_ip"
  shows "\<exists>s' t. arp_receive dev frame_addr bytes s = Some s' \<and> s' = s\<lparr>io := io s', arp_entries := Some t\<rparr> \<and>
    (cache s src_ip = None \<longrightarrow> fst (arp_table_lookup src_ip s') = NULL_MAC)"
proof -
  let ?l = "arp_learn False src_hw src_ip s"
  note l = arp_learn_result [OF assms(2,3), of False src_hw]
  obtain t where t: "?l = s\<lparr>arp_entries := Some t\<rparr>" using l(1) by blast
  obtain h where r: "arp_receive dev frame_addr bytes s = Some (?l\<lparr>io := h\<rparr>)"
    using arp_receive_result [OF assms(1,5), of frame_addr s] assms(4) by auto
  have "arp_ready (?l\<lparr>io := h\<rparr>)" "cache (?l\<lparr>io := h\<rparr>) = cache ?l"
    using l(2) by (simp_all add: arp_ready_def frame_simps)
  then have "fst (arp_table_lookup src_ip (?l\<lparr>io := h\<rparr>)) = NULL_MAC" if "cache s src_ip = None"
    using arp_table_lookup_value [of "?l\<lparr>io := h\<rparr>" src_ip] l(4) that by simp
  then show ?thesis using r by (intro exI [of _ "?l\<lparr>io := h\<rparr>"] exI [of _ t]) (simp add: t)
qed

theorem arp_other_host_silent_witness:
  "\<exists>s'. arp_receive quick_card 0x1000 (take 14 arp_request0 @ arp_payload ARP_REQUEST BROADCAST_MAC 7 NULL_MAC 9) arp0 = Some s' \<and>
     wire s' = []"
proof -
  have "carries (take 14 arp_request0 @ arp_payload ARP_REQUEST BROADCAST_MAC 7 NULL_MAC 9) ARP_REQUEST BROADCAST_MAC 7 NULL_MAC 9"
    by (simp add: carries_def arp_request0_def)
  from arp_other_host_silent [OF quick_card_reports(2) arp0_fields(2) _ _ this, of "0x1000"]
  obtain s' t where "arp_receive quick_card 0x1000 (take 14 arp_request0 @ arp_payload ARP_REQUEST BROADCAST_MAC 7 NULL_MAC 9) arp0 = Some s'"
    "s' = arp0\<lparr>io := io s', arp_entries := Some t\<rparr>" by (auto simp: OWN_IPV4_ADDR_def)
  moreover from arg_cong [OF this(2), of wire] have "wire s' = []" using arp0_heap(4) by simp
  ultimately show ?thesis by blast
qed

text \<open>
  Property: a message that is not ethernet with IPv4 (its types or its address lengths differ) is
  dropped: nothing changes but the log of bus accesses.
\<close>

theorem arp_unsupported_ignored:
  assumes "has_byte_order dev False" "f = arp_frame_at bytes 14"
    and "hardware_type f \<noteq> bswap16 1 \<or> hardware_addr_len f \<noteq> 6 \<or> protocol_type f \<noteq> bswap16 TYPE_IPv4 \<or> protocol_addr_len f \<noteq> 4"
  shows "\<exists>h. arp_receive dev frame_addr bytes s = Some (s\<lparr>io := h\<rparr>)"
  using assms by (intro arp_receive_unsupported) (auto simp: arp_supported_def)

theorem arp_unsupported_ignored_witness:
  "\<exists>h. arp_receive quick_card 0x1000 (replicate 60 0) arp0 = Some (arp0\<lparr>io := h\<rparr>)"
proof -
  have "hardware_addr_len (arp_frame_at (replicate 60 0) 14) \<noteq> 6" by (simp add: arp_frame_at_def)
  then show ?thesis using arp_unsupported_ignored [OF quick_card_reports(2) refl, of "replicate 60 0"] by blast
qed

end
