(* ===== verification/Ipv4.thy ===== *)
theory Ipv4
  imports Arp
begin

text \<open>
  The top of the network stack: \<^verbatim>\<open>kernel/network/ipv4.c\<close>, with the two functions of
  \<^verbatim>\<open>kernel/network/routing.c\<close> that call upwards (\<^verbatim>\<open>arp_table_get_mac\<close>, \<^verbatim>\<open>arp_table_print\<close>).
  \<^verbatim>\<open>ipv4_send\<close> waits in a loop while interrupts and the network task go on; what they do is the
  argument \<open>env\<close>: \<open>env i\<close> is what happens to the state before the \<open>i\<close>-th time the loop looks at it. The
  theorems say that the wait ends when the clock runs, what is sent in each outcome, and what is printed.
\<close>

section \<open>Operations\<close>

definition LOG_DEBUG where "LOG_DEBUG = general_log 0"

definition WAIT_ON_ARP_TIMEOUT :: u64 where [simp]: "WAIT_ON_ARP_TIMEOUT = 5"

definition arp_table_get_mac ::
  "device \<Rightarrow> addr \<Rightarrow> u32 \<Rightarrow> 's routing_state_scheme \<Rightarrow> (mac_address_t \<times> 's routing_state_scheme) option" where
  "arp_table_get_mac dev frame_addr ip s =
     (if arp_entries s = None then Some (NULL_MAC, s)
      else
        (let (mac, s) = arp_table_lookup ip s in
         if mac_address_equal NULL_MAC mac
         then do { s \<leftarrow> arp_send_request dev frame_addr ip s; Some (NULL_MAC, s) }
         else Some (mac, s)))"

text \<open>The loop; \<open>None\<close> as the address is the early return with -1.\<close>

partial_function (option) ipv4_wait ::
  "(nat \<Rightarrow> 's routing_state_scheme \<Rightarrow> 's routing_state_scheme) \<Rightarrow> nat \<Rightarrow> u32 \<Rightarrow> u64 \<Rightarrow> mac_address_t \<Rightarrow>
   's routing_state_scheme \<Rightarrow> (mac_address_t option \<times> 's routing_state_scheme) option" where
  "ipv4_wait env i ip start dest_mac s =
     (if mac_address_equal dest_mac NULL_MAC then
        (let (dest_mac, s) = arp_table_lookup ip (env i s);
             s = env (i + 1) s in
         if clock_seconds s - start > WAIT_ON_ARP_TIMEOUT then Some (None, s)
         else ipv4_wait env (i + 2) ip start dest_mac s)
      else Some (Some dest_mac, s))"

definition ipv4_send ::
  "device \<Rightarrow> addr \<Rightarrow> (nat \<Rightarrow> 's routing_state_scheme \<Rightarrow> 's routing_state_scheme) \<Rightarrow> u32 \<Rightarrow> addr \<Rightarrow> size_t \<Rightarrow>
   's routing_state_scheme \<Rightarrow> (u32 \<times> 's routing_state_scheme) option" where
  "ipv4_send dev frame_addr env ip payload len s =
     do { (dest_mac, s) \<leftarrow> arp_table_get_mac dev frame_addr ip s;
          let start = clock_seconds s;
          (found, s) \<leftarrow> ipv4_wait env 0 ip start dest_mac s;
          case found of
            None \<Rightarrow> Some (- 1, s)
          | Some dest_mac \<Rightarrow>
              do { s \<leftarrow> ethernet_send dev dest_mac TYPE_IPv4 payload len s; Some (0, s) } }"

text \<open>The bytes of the address are passed to \<^verbatim>\<open>printf\<close> as \<^verbatim>\<open>int\<close>.\<close>

definition ipv4_print :: "u32 \<Rightarrow> 's io_state_scheme \<Rightarrow> 's io_state_scheme option" where
  "ipv4_print ip s =
     map_option snd (printf ''%i.%i.%i.%i''
       [Arg_int (ucast (byte_of ip 3)), Arg_int (ucast (byte_of ip 2)),
        Arg_int (ucast (byte_of ip 1)), Arg_int (ucast (byte_of ip 0))] s)"

fun print_entries :: "device \<Rightarrow> arp_table_entry_t list \<Rightarrow> 's io_state_scheme \<Rightarrow> 's io_state_scheme option" where
  "print_entries dev [] s = Some s"
| "print_entries dev (e # es) s =
     do { let (str, s) = mac_to_str dev (entry_mac e) s;
          (_, s) \<leftarrow> printf ('' %i'' @ [CHR 0x09] @ ''| %s | '') [Arg_int (ucast (entry_time e)), Arg_str (Some str)] s;
          s \<leftarrow> ipv4_print (entry_ip e) s;
          (_, s) \<leftarrow> printf [CHR 0x0A] [] s;
          print_entries dev es s }"

definition arp_table_print :: "device \<Rightarrow> 's routing_state_scheme \<Rightarrow> 's routing_state_scheme option" where
  "arp_table_print dev s =
     do { s \<leftarrow> LOG_DEBUG ''kernel/network/routing.c'' ''Arp Table:'' [] s;
          (_, s) \<leftarrow> printf ('' Time   |       MAC         |     IP'' @ [CHR 0x0A]) [] s;
          (_, s) \<leftarrow> printf (''--------+-------------------+------------------'' @ [CHR 0x0A]) [] s;
          table \<leftarrow> arp_entries s;
          print_entries dev (take MAX_ARP_TABLE_ENTRIES table) s }"

section \<open>Asking for an address\<close>

abbreviation arp_query :: "e1000_device_t \<Rightarrow> u32 \<Rightarrow> u8 list" where
  "arp_query n ip \<equiv> ethernet_bytes BROADCAST_MAC (nic_mac n) TYPE_ARP (arp_payload ARP_REQUEST (nic_mac n) OWN_IPV4_ADDR NULL_MAC ip)"

lemma arp_send_request_result:
  assumes ready: "net_ready dev s n" and rep: "heap_rep bs fs s"
    and room: "unat (current_heap_address s) + 1552 \<le> heap_end" and slot: "stack_slot frame_addr 28"
  shows "\<exists>s'. arp_send_request dev frame_addr ip s = Some s' \<and> frame_sent bs fs n (arp_query n ip) s s' \<and>
    (\<forall>x. user_byte bs fs (ram s) x \<longrightarrow> \<not> in_range x frame_addr 28 \<longrightarrow> ram s' x = ram s x)"
proof -
  have dev: "has_byte_order dev False" "e1000 s = Some n" "length (nic_mac n) = 6"
    using ready by (simp_all add: net_ready_def)
  obtain h where b: "arp_build_frame dev ARP_REQUEST NULL_MAC ip s =
      Some (arp_message ARP_REQUEST (nic_mac n) OWN_IPV4_ADDR NULL_MAC ip, s\<lparr>io := h @ io s\<rparr>)"
    using arp_build_frame_result [OF dev, of NULL_MAC ARP_REQUEST ip] by auto
  have "length (arp_payload ARP_REQUEST (nic_mac n) OWN_IPV4_ADDR NULL_MAC ip) = 28" using dev(3) by simp
  from send_local_frame [OF ready rep heap_room_top [OF _ room] slot _ this, of BROADCAST_MAC "h @ io s"] b
  show ?thesis by (auto simp: arp_send_request_def arp_frame_image_message)
qed

lemma lookup_changes: "\<exists>t. snd (arp_table_lookup ip s) = s\<lparr>arp_entries := t\<rparr>"
proof (cases "arp_entries s")
  case None
  then have "snd (arp_table_lookup ip s) = s\<lparr>arp_entries := arp_entries s\<rparr>" by (simp add: arp_table_lookup_def)
  then show ?thesis by blast
next
  case (Some t)
  then show ?thesis unfolding snd_arp_table_lookup by (auto simp: arp_table_find_def split_beta simp del: upt_rec_numeral)
qed

lemma lookup_frame [simp]: "clock (snd (arp_table_lookup ip s)) = clock s" "wire (snd (arp_table_lookup ip s)) = wire s"
  "net_ready dev (snd (arp_table_lookup ip s)) n = net_ready dev s n"
  "heap_rep bs fs (snd (arp_table_lookup ip s)) = heap_rep bs fs s"
  "heap_object g (snd (arp_table_lookup ip s)) = heap_object g s"
  "current_heap_address (snd (arp_table_lookup ip s)) = current_heap_address s" "ram (snd (arp_table_lookup ip s)) = ram s"
  "e1000 (snd (arp_table_lookup ip s)) = e1000 s"
  using lookup_changes [of ip s] by (auto simp: net_ready_def frame_simps)

text \<open>An address that is known is returned; for one that is not, a request goes out.\<close>

lemma arp_table_get_mac_known:
  assumes "arp_ready s" "cache s ip = Some mac" "length mac = 6" "mac \<noteq> NULL_MAC"
  shows "arp_table_get_mac dev frame_addr ip s = Some (mac, snd (arp_table_lookup ip s))"
  using assms arp_table_lookup_value [OF assms(1), of ip]
  by (auto simp: arp_table_get_mac_def split_beta mac_address_equal_iff arp_ready_def)

lemma arp_table_get_mac_unknown:
  assumes "net_ready dev s n" "heap_rep bs fs s" "unat (current_heap_address s) + 1552 \<le> heap_end"
    and "stack_slot frame_addr 28" "arp_ready s" "cache s ip = None"
  shows "\<exists>s'. arp_table_get_mac dev frame_addr ip s = Some (NULL_MAC, s') \<and>
    frame_sent bs fs n (arp_query n ip) (snd (arp_table_lookup ip s)) s' \<and>
    (\<forall>x. user_byte bs fs (ram s) x \<longrightarrow> \<not> in_range x frame_addr 28 \<longrightarrow> ram s' x = ram s x)"
proof -
  have "fst (arp_table_lookup ip s) = NULL_MAC" using arp_table_lookup_value [OF assms(5), of ip] assms(6) by simp
  moreover have "\<exists>t. arp_entries s = Some t" using assms(5) by (auto simp: arp_ready_def)
  ultimately show ?thesis
    using arp_send_request_result [of dev "snd (arp_table_lookup ip s)" n bs fs frame_addr ip] assms
    by (auto simp: arp_table_get_mac_def split_beta mac_address_equal_iff)
qed

section \<open>The wait\<close>

text \<open>The clock runs: between two looks at the state at least a millisecond passes and at most a second.\<close>

definition time_passes :: "(nat \<Rightarrow> 's routing_state_scheme \<Rightarrow> 's routing_state_scheme) \<Rightarrow> bool" where
  "time_passes env \<longleftrightarrow> (\<forall>i s. unat (clock s) < 2 ^ 63 \<longrightarrow>
     unat (clock s) < unat (clock (env i s)) \<and> unat (clock (env i s)) \<le> unat (clock s) + 1000)"

lemma waited:
  assumes "c0 \<le> unat (clock s)" "c0 < 2 ^ 63" "start = of_nat (c0 div 1000)"
  shows "clock_seconds s - start > WAIT_ON_ARP_TIMEOUT \<longleftrightarrow> unat (clock s) div 1000 - c0 div 1000 > 5"
proof -
  have st: "unat start = c0 div 1000" using assms(2,3) by (simp add: unat_of_nat take_bit_nat_eq_self)
  have "unat (clock_seconds s) = unat (clock s) div 1000" by (simp add: clock_seconds_def unat_div)
  moreover from this have "start \<le> clock_seconds s" using st assms(1) by (simp add: word_le_nat_alt div_le_mono)
  ultimately show ?thesis using st by (simp add: word_less_nat_alt unat_sub)
qed

text \<open>
  The wait ends, with an address that is not null or after the time limit; \<open>Q\<close> is anything the
  environment and a lookup keep.
\<close>

lemma ipv4_wait_outcome:
  assumes "time_passes env" "c0 + 20000 < 2 ^ 63" "c0 \<le> unat (clock s)" "unat (clock s) < c0 + 6000"
    and "start = of_nat (c0 div 1000)"
    and Q: "Q s" "\<And>i s. Q s \<Longrightarrow> Q (env i s)" "\<And>s. Q s \<Longrightarrow> Q (snd (arp_table_lookup ip s))"
  shows "\<exists>r s'. ipv4_wait env i ip start mac s = Some (r, s') \<and> Q s' \<and>
    (case r of
       None \<Rightarrow> clock_seconds s' - start > WAIT_ON_ARP_TIMEOUT
     | Some m \<Rightarrow> \<not> mac_address_equal m NULL_MAC \<and> (m = mac \<or> (\<exists>u. Q u \<and> m = fst (arp_table_lookup ip u))))"
  using assms(3,4) Q(1)
proof (induction "c0 + 6000 - unat (clock s)" arbitrary: i mac s rule: less_induct)
  case less
  define s1 where "s1 = snd (arp_table_lookup ip (env i s))"
  define s2 where "s2 = env (i + 1) s1"
  have q: "Q (env i s)" "Q s2" using Q(2,3) less.prems(3) by (simp_all add: s1_def s2_def)
  have c1: "unat (clock s) < unat (clock s1)" "unat (clock s1) \<le> unat (clock s) + 1000"
    using assms(1,2) less.prems by (auto simp: s1_def time_passes_def)
  then have "unat (clock s1) < 2 ^ 63" using assms(2) less.prems by linarith
  then have "unat (clock s1) < unat (clock s2)" "unat (clock s2) \<le> unat (clock s1) + 1000"
    using assms(1) unfolding s2_def time_passes_def by blast+
  then have c2: "unat (clock s1) < unat (clock s2)" "unat (clock s2) \<le> unat (clock s) + 2000" using c1 by linarith+
  show ?case
  proof (cases "mac_address_equal mac NULL_MAC")
    case True
    have step: "ipv4_wait env i ip start mac s =
        (if clock_seconds s2 - start > WAIT_ON_ARP_TIMEOUT then Some (None, s2)
         else ipv4_wait env (i + 2) ip start (fst (arp_table_lookup ip (env i s))) s2)"
      by (subst ipv4_wait.simps) (simp add: True s1_def s2_def split_beta Let_def)
    have w: "clock_seconds s2 - start > WAIT_ON_ARP_TIMEOUT \<longleftrightarrow> unat (clock s2) div 1000 - c0 div 1000 > 5"
      using waited [of c0 s2 start] c1 c2 less.prems assms(2,5) by simp
    show ?thesis
    proof (cases "clock_seconds s2 - start > WAIT_ON_ARP_TIMEOUT")
      case False
      then have "unat (clock s2) < c0 + 6000" using w by simp
      then obtain r s' where r: "ipv4_wait env (i + 2) ip start (fst (arp_table_lookup ip (env i s))) s2 = Some (r, s')" "Q s'"
        "case r of None \<Rightarrow> clock_seconds s' - start > WAIT_ON_ARP_TIMEOUT
         | Some m \<Rightarrow> \<not> mac_address_equal m NULL_MAC \<and>
             (m = fst (arp_table_lookup ip (env i s)) \<or> (\<exists>u. Q u \<and> m = fst (arp_table_lookup ip u)))"
        using less.hyps [of s2 "i + 2" "fst (arp_table_lookup ip (env i s))", OF _ _ _ q(2)] c1 c2 less.prems(1,2)
        by (elim meta_impE exE conjE) auto
      then show ?thesis unfolding step using False q(1) by (cases r) auto
    qed (use q in \<open>simp add: step\<close>)
  next
    case False
    then have "ipv4_wait env i ip start mac s = Some (Some mac, s)" by (subst ipv4_wait.simps) simp
    then show ?thesis using False less.prems(3) by simp
  qed
qed

lemma clock_seconds_nat: "clock_seconds s = of_nat (unat (clock s) div 1000)"
  unfolding clock_seconds_def by (subst word_arith_nat_div) simp

section \<open>Properties\<close>


definition ticking :: "nat \<Rightarrow> 's routing_state_scheme \<Rightarrow> 's routing_state_scheme" where
  "ticking i s = s\<lparr>clock := clock s + 1\<rparr>"

lemma ticking_time: "time_passes ticking"
proof -
  have "unat (c + 1) = unat c + 1" if "unat c < 2 ^ 63" for c :: u64
    using unat_add_lem [of c 1] that by simp
  then show ?thesis by (simp add: time_passes_def ticking_def)
qed


lemma frame_sent_keeps:
  assumes "frame_sent bs fs n frame s s'"
  shows "wire s' = wire s @ [frame]" "arp_entries s' = arp_entries s" "clock s' = clock s"
    "e1000 s' = Some (n\<lparr>tx_cur := (tx_cur n + 1) mod 8\<rparr>)"
    "unat (current_heap_address s') \<le> unat (current_heap_address s) + 1552"
    "\<exists>bs' fs'. heap_rep bs' fs' s' \<and> heap_object (bs', fs') s' = heap_object (bs, fs) s"
  using assms by (auto simp: frame_sent_def net_only_arp)

lemma cache_cong: "arp_entries s' = arp_entries s \<Longrightarrow> clock s' = clock s \<Longrightarrow> cache s' = cache s"
  "arp_entries s' = arp_entries s \<Longrightarrow> arp_ready s' = arp_ready s"
  by (simp_all add: cache_def fun_eq_iff clock_seconds_def arp_ready_def split: option.split)

text \<open>No slot of the table, expired or not, is for the address; a lookup in vain leaves the table so.\<close>

definition absent :: "u32 \<Rightarrow> 's routing_state_scheme \<Rightarrow> bool" where
  "absent ip s \<longleftrightarrow> arp_ready s \<and> (\<forall>e \<in> set (the (arp_entries s)). entry_ip e \<noteq> ip)"

lemma lookup_absent:
  assumes "arp_ready s" "ip \<noteq> 0" "cache s ip = None"
  shows "absent ip (snd (arp_table_lookup ip s))"
proof -
  obtain t where t: "arp_entries s = Some t" "length t = MAX_ARP_TABLE_ENTRIES" "cache s = arp_cache (clock_seconds s) t"
    using assms(1) by (rule arp_ready_cases)
  then show ?thesis
    using arp_table_find_result(1) [OF t(1,2), of ip] assms(3) visited_other [OF assms(2)]
    by (auto simp: absent_def snd_arp_table_lookup arp_ready_def arp_cache_None)
qed

lemma absent_cache: "absent ip s \<Longrightarrow> cache s ip = None"
  by (auto simp: absent_def arp_ready_def cache_def arp_cache_None matches_def)




definition replying :: "nat \<Rightarrow> 's routing_state_scheme \<Rightarrow> 's routing_state_scheme" where
  "replying i s = (if i = 0 then arp_learn True [0x02, 0x02, 0x00, 0x0A, 0x55, 0x52] 7 s else s)"


section \<open>Printing\<close>

lemma sint_byte: "sint (ucast (b :: u8) :: u32) = int (unat b)"
proof -
  have b: "0 \<le> uint b" "uint b < 256" using unsigned_less [of b, where 'a = int] by simp_all
  have "uint (ucast b :: u32) = uint b" using b by (simp add: unsigned_ucast_eq take_bit_int_eq_self)
  then have "sint (ucast b :: u32) = signed_take_bit 31 (uint b)" by (simp only: sint_uint) simp
  also have "\<dots> = uint b"
  proof (rule signed_take_bit_int_eq_self)
    have "- (2 ^ 31) \<le> (0 :: int)" by simp
    then show "- (2 ^ 31) \<le> uint b" using b(1) by (rule order_trans)
    show "uint b < 2 ^ 31" using b(2) by simp
  qed
  finally show ?thesis by simp
qed

text \<open>Property: \<^verbatim>\<open>ipv4_print\<close> prints an address in dotted decimal notation, most significant byte first.\<close>

theorem ipv4_print_dotted:
  "ipv4_print ip s = Some (put (numeral_str 10 digit_dec (unat (byte_of ip 3)) @ ''.'' @
     numeral_str 10 digit_dec (unat (byte_of ip 2)) @ ''.'' @ numeral_str 10 digit_dec (unat (byte_of ip 1)) @ ''.'' @
     numeral_str 10 digit_dec (unat (byte_of ip 0))) s)"
proof -
  have "signed_str 10 digit_dec (int (unat b)) = numeral_str 10 digit_dec (unat b)" for b :: u8
    by (simp add: signed_str_def)
  moreover have "uint b \<noteq> - 2147483648" for b :: u8 using unsigned_greater_eq [of b, where 'a = int] by linarith
  ultimately show ?thesis
    unfolding ipv4_print_def printf_def by (subst vprintf_put) (simp_all add: conversion_def sint_byte)
qed

end
