(* ===== verification/Kernel.thy ===== *)
theory Kernel
  imports Ipv4 Syscall
begin

text \<open>
  The whole kernel: the interrupt dispatch of \<^verbatim>\<open>kernel/interrupt.c\<close>, the network task, and \<^verbatim>\<open>kernel_main\<close> with
  the demonstration tasks of \<^verbatim>\<open>kernel/main.c\<close>. Theorems follow a frame from the card through the interrupt
  handler, the receive queue and the protocol layers back to the wire.
\<close>

section \<open>Interrupts\<close>

definition PIC_IRQ_STATUS :: addr where [const_defs]: "PIC_IRQ_STATUS = PIC_BASE + 0x00"
definition PCI3_INTBIT :: u32 where [const_defs]: "PCI3_INTBIT = push_bit 30 1"

definition handle_interrupt :: "device \<Rightarrow> 's e1000_state_scheme \<Rightarrow> 's e1000_state_scheme option" where
  "handle_interrupt dev s =
     do { let (status, s) = read32 dev PIC_IRQ_STATUS s;
          s \<leftarrow> (if status AND PCI3_INTBIT \<noteq> 0 then e1000_irq_handler dev s else Some s);
          let s = (if status AND TIMER1_INTBIT \<noteq> 0 then irq_handler_timer s else s);
          Some (if status AND TIMER3_INTBIT \<noteq> 0 then irq_handler_clock s else s) }"

text \<open>The interrupt entry around it (\<^verbatim>\<open>irq_handler\<close>), with a handler that may fail.\<close>

definition kernel_irq :: "device \<Rightarrow> 's e1000_state_scheme \<Rightarrow> 's e1000_state_scheme option" where
  "kernel_irq dev s =
     do { s \<leftarrow> save_current_task_state (pc (cpu s) + 4) (cpsr (cpu s)) s;
          s \<leftarrow> handle_interrupt dev s;
          load_current_task_state s }"

section \<open>The network task\<close>

text \<open>
  \<^verbatim>\<open>network_task_recv\<close> never returns: \<^verbatim>\<open>routing_init\<close>, then one round after another. \<open>env i\<close> is what the
  interrupts and other tasks do before the \<open>i\<close>-th round; the state after \<open>k\<close> rounds.
\<close>

fun network_task_rounds ::
  "device \<Rightarrow> addr \<Rightarrow> (nat \<Rightarrow> 's routing_state_scheme \<Rightarrow> 's routing_state_scheme) \<Rightarrow> nat \<Rightarrow> 's routing_state_scheme \<Rightarrow>
   's routing_state_scheme option" where
  "network_task_rounds dev frame_addr env 0 s = Some s"
| "network_task_rounds dev frame_addr env (Suc k) s =
     do { s \<leftarrow> network_task_rounds dev frame_addr env k s; network_task_round dev frame_addr (env k s) }"

definition network_task_recv ::
  "device \<Rightarrow> addr \<Rightarrow> (nat \<Rightarrow> 's routing_state_scheme \<Rightarrow> 's routing_state_scheme) \<Rightarrow> nat \<Rightarrow> 's routing_state_scheme \<Rightarrow>
   's routing_state_scheme option" where
  "network_task_recv dev frame_addr env k s = do { s \<leftarrow> routing_init s; network_task_rounds dev frame_addr env k s }"

section \<open>kernel/main.c\<close>

text \<open>
  The endless loops of the demonstration tasks, one round each; \<open>n\<close> is the local counter. The delay loop
  over a volatile variable has no effect. \<^verbatim>\<open>task_d\<close> first adds \<^verbatim>\<open>task_c\<close>.
\<close>

definition task_round :: "char \<Rightarrow> u32 \<Rightarrow> 's io_state_scheme \<Rightarrow> (u32 \<times> 's io_state_scheme) option" where
  "task_round name n s =
     do { (_, s) \<leftarrow> printf (''  task '' @ [name] @ '': %i'' @ [CHR 0x0A]) [Arg_int n] s; Some (n + 1, s) }"

definition task_a where "task_a = task_round (CHR ''a'')"
definition task_b where "task_b = task_round (CHR ''b'')"
definition task_c where "task_c = task_round (CHR ''c'')"

definition task_d_start :: "u32 \<Rightarrow> 's sched_state_scheme \<Rightarrow> 's sched_state_scheme option" where
  "task_d_start task_c_addr s =
     (let (direct_call_result, s) = add_task task_c_addr s in
      if direct_call_result < 0
      then map_option snd (printf (''add task failed with errno %i '' @ [CHR 0x0A]) [Arg_int (errno s)] s)
      else Some s)"

definition task_d :: "u32 \<Rightarrow> 's sched_state_scheme \<Rightarrow> (u32 \<times> 's sched_state_scheme) option" where
  "task_d n s =
     do { (n, s) \<leftarrow> task_round (CHR ''d'') n s;
          if n > 5 then map_option (\<lambda>(_, s). (n, s)) (shutdown s) else Some (n, s) }"

definition syscall_test :: "addr \<Rightarrow> u32 \<Rightarrow> u32 \<Rightarrow> 's sched_state_scheme \<Rightarrow> 's sched_state_scheme option" where
  "syscall_test new_process task_a_addr task_b_addr s =
     do { (_, s) \<leftarrow> create_process new_process task_a_addr s;
          (_, s) \<leftarrow> create_process new_process task_b_addr s;
          Some s }"

definition shuriken :: string where
  "shuriken =
     concat (map (\<lambda>l. l @ [CHR 0x0A])
       [''                 /'' @ [CHR 0x5C],
        ''                /  '' @ [CHR 0x5C],
        ''                |  |'',
        ''              __/()'' @ [CHR 0x5C] @ ''__'',
        ''             /   /'' @ [CHR 0x5C] @ ''   '' @ [CHR 0x5C],
        ''            /___/  '' @ [CHR 0x5C] @ ''___'' @ [CHR 0x5C]])"

text \<open>
  \<^verbatim>\<open>kernel_main\<close>: with \<open>None\<close> as result when the scheduler has taken over and the call of \<^verbatim>\<open>start_scheduler\<close>
  does not return. The addresses of the handlers and of \<^verbatim>\<open>network_task_recv\<close> are the linker's.
\<close>

definition kernel_main ::
  "device \<Rightarrow> u32 \<Rightarrow> u32 \<Rightarrow> u32 \<Rightarrow> 's e1000_state_scheme \<Rightarrow> (int option \<times> 's e1000_state_scheme) option" where
  "kernel_main dev syscall_addr irq_addr network_task_addr s =
     do { let s = snd (puts ''This is ninjastorms OS'' s);
          let s = snd (puts ''  shuriken ready'' s);
          let s = snd (puts shuriken s);
          s \<leftarrow> pci_init dev s;
          s \<leftarrow> e1000_init dev s;
          let (_, s) = add_task network_task_addr s;
          let s = time_init dev s;
          let returns = isRunning s;
          s \<leftarrow> start_scheduler dev syscall_addr irq_addr s;
          if returns then Some (Some 0, snd (puts ''All done. ninjastorms out!'' s)) else Some (None, s) }"

section \<open>What the receive interrupt touches\<close>

text \<open>The console, the bus, the end of the receive queue with its slots, and the driver's receive index.\<close>

definition recv_only :: "'s e1000_state_scheme \<Rightarrow> 's e1000_state_scheme \<Rightarrow> bool" where
  "recv_only s s' \<longleftrightarrow> (\<exists>c h e q k. s' = s\<lparr>console := c, io := h, recv_queue_end := e, recv_packet_queue := q,
     e1000 := map_option (\<lambda>n. n\<lparr>rx_cur := k n\<rparr>) (e1000 s)\<rparr>)"

lemma recv_onlyI:
  "s' = s\<lparr>console := c, io := h, recv_queue_end := e, recv_packet_queue := q, e1000 := map_option (\<lambda>n. n\<lparr>rx_cur := k n\<rparr>) (e1000 s)\<rparr>
    \<Longrightarrow> recv_only s s'"
  unfolding recv_only_def by blast

lemma recv_only_refl: "recv_only s s"
  by (rule recv_onlyI [where c = "console s" and h = "io s" and e = "recv_queue_end s" and q = "recv_packet_queue s" and k = rx_cur])
    (cases "e1000 s"; cases s; simp)

lemma recv_only_trans:
  assumes "recv_only s t" "recv_only t u"
  shows "recv_only s u"
proof -
  obtain c h e q k where t: "t = s\<lparr>console := c, io := h, recv_queue_end := e, recv_packet_queue := q,
     e1000 := map_option (\<lambda>n. n\<lparr>rx_cur := k n\<rparr>) (e1000 s)\<rparr>" using assms(1) unfolding recv_only_def by blast
  obtain c' h' e' q' k' where u: "u = t\<lparr>console := c', io := h', recv_queue_end := e', recv_packet_queue := q',
     e1000 := map_option (\<lambda>n. n\<lparr>rx_cur := k' n\<rparr>) (e1000 t)\<rparr>" using assms(2) unfolding recv_only_def by blast
  show ?thesis
    by (rule recv_onlyI [where c = c' and h = h' and e = e' and q = q' and k = "\<lambda>n. k' (n\<lparr>rx_cur := k n\<rparr>)"])
      (simp add: u t option.map_comp o_def)
qed

lemma recv_only_io: "recv_only s (s\<lparr>io := h\<rparr>)"
proof -
  have "map_option (\<lambda>n. n\<lparr>rx_cur := rx_cur n\<rparr>) (e1000 s) = e1000 s" by (cases "e1000 s") simp_all
  then show ?thesis
    by (intro recv_onlyI [where c = "console s" and h = h and e = "recv_queue_end s" and q = "recv_packet_queue s" and k = rx_cur]) simp
qed

lemma recv_only_insert:
  assumes "insert_packet bytes s = Some s'"
  shows "recv_only s s'"
proof -
  from assms consider q e where "s' = s\<lparr>recv_packet_queue := q, recv_queue_end := e\<rparr>" | str where "s' = put str s"
    by (auto simp: insert_packet_def Let_def log_warn_full split: if_splits)
  then show ?thesis
  proof cases
    case (1 q e)
    then show ?thesis by (intro recv_onlyI [where c = "console s" and h = "io s" and e = e and q = q and k = rx_cur]) (simp add: option.map_ident)
  next
    case (2 str)
    then show ?thesis
      by (intro recv_onlyI [where c = "console s @ crlf str" and h = "io s" and e = "recv_queue_end s" and q = "recv_packet_queue s" and k = rx_cur])
        (simp add: option.map_ident put_def)
  qed
qed

lemma recv_only_index: "e1000 s = Some n \<Longrightarrow> recv_only s (s\<lparr>e1000 := Some (n\<lparr>rx_cur := k\<rparr>)\<rparr>)"
  by (rule recv_onlyI [where c = "console s" and h = "io s" and e = "recv_queue_end s" and q = "recv_packet_queue s" and k = "\<lambda>_. k"])
    simp

interpretation recv: receive_frame recv_only
  by standard (fact recv_only_refl recv_only_trans recv_only_io recv_only_insert recv_only_index)+

lemma recv_only_fields:
  assumes "recv_only s s'"
  shows "wire s' = wire s" "ram s' = ram s" "current_heap_address s' = current_heap_address s" "clock s' = clock s"
    "heap_rep bs fs s' = heap_rep bs fs s" "heap_object g s' = heap_object g s" "current_task s' = current_task s"
    "tasks s' = tasks s" "cpu s' = cpu s" "recv_queue_start s' = recv_queue_start s"
    "\<exists>k. e1000 s' = map_option (\<lambda>n. n\<lparr>rx_cur := k n\<rparr>) (e1000 s)"
  using assms by (auto simp: recv_only_def heap_rep_def heap_object_def fun_eq_iff)

lemma recv_only_arp: "recv_only s s' \<Longrightarrow> arp_entries s' = arp_entries s"
  by (auto simp: recv_only_def)

lemma recv_only_ready:
  assumes "recv_only s s'" "net_ready dev s n"
  shows "\<exists>k. net_ready dev s' (n\<lparr>rx_cur := k\<rparr>)"
proof -
  obtain k where "e1000 s' = map_option (\<lambda>n. n\<lparr>rx_cur := k n\<rparr>) (e1000 s)" using recv_only_fields(11) [OF assms(1)] by blast
  then show ?thesis using assms(2) by (auto simp: net_ready_def)
qed

section \<open>From the card to the queue\<close>

text \<open>
  The card has raised the interrupt of its slot, and nothing else is pending: the interrupt controller
  reports the line, the card reports the receive timer as the cause, and \<open>frames\<close> are ready.
\<close>

definition card_interrupt :: "device \<Rightarrow> 's e1000_state_scheme \<Rightarrow> u8 list list \<Rightarrow> bool" where
  "card_interrupt dev s frames \<longleftrightarrow> (\<exists>s1 s2 s3.
     read32 dev PIC_IRQ_STATUS s = (PCI3_INTBIT, s1) \<and> write_command dev REG_IMASK 1 s1 = Some s2 \<and>
     read_command dev (ucast REG_INT_CAUSE) s2 = Some (RXT0, s3) \<and> pending dev s3 frames)"

lemma read32_io: "\<exists>h. snd (read32 dev a s) = s\<lparr>io := h\<rparr>"
  by (simp add: read32_def bus_read_def Let_def split_beta) blast

lemma handle_interrupt_card:
  assumes "card_interrupt dev s frames" "queue_ok s" "e1000 s = Some n" "pci_device n \<noteq> None" "unat (rx_cur n) < 32"
    and "list_all (\<lambda>f. length f \<le> 8192) frames"
  shows "\<exists>s'. handle_interrupt dev s = Some s' \<and> queue_ok s' \<and> packets s' = take 127 (packets s @ frames) \<and> recv_only s s'"
proof -
  obtain s1 s2 s3 where d: "read32 dev PIC_IRQ_STATUS s = (PCI3_INTBIT, s1)" "write_command dev REG_IMASK 1 s1 = Some s2"
    "read_command dev (ucast REG_INT_CAUSE) s2 = Some (RXT0, s3)" "pending dev s3 frames"
    using assms(1) by (auto simp: card_interrupt_def)
  obtain h1 where s1: "s1 = s\<lparr>io := h1\<rparr>" using read32_io [of dev PIC_IRQ_STATUS s] d(1) by auto
  then have e1: "e1000 s1 = Some n" using assms(3) by simp
  then obtain h2 where s2: "s2 = s1\<lparr>io := h2\<rparr>" using write_command_io [OF e1, of dev REG_IMASK 1] d(2) by auto
  then have e2: "e1000 s2 = Some n" using e1 by simp
  then obtain h3 where s3: "s3 = s2\<lparr>io := h3\<rparr>" using read_command_io [OF e2, of dev "ucast REG_INT_CAUSE"] d(3) by auto
  have s3': "s3 = s\<lparr>io := h3\<rparr>" using s1 s2 s3 by simp
  then have q: "queue_ok s3" "packets s3 = packets s" "e1000 s3 = Some n" using assms(2,3) by (simp_all add: frame_simps)
  obtain s' where s': "receive_loop dev s3 = Some s'" "queue_ok s'" "packets s' = take 127 (packets s @ frames)"
    using receive_loop_queue [OF d(4) q(1,3) assms(5,6)] q(2) by auto
  have "receive_packet dev s3 = Some s'" using s'(1) q(3) assms(4) by (simp add: receive_packet_def e1000_is_available_def)
  moreover have "RXT0 AND LSC = 0" "RXT0 AND RXT0 \<noteq> 0" by (simp_all add: RXT0_def LSC_def)
  ultimately have "e1000_irq_handler dev s1 = Some s'" using d(2,3) by (simp add: e1000_irq_handler_def)
  then have "handle_interrupt dev s = Some s'" using d(1) by (simp add: handle_interrupt_def const_defs)
  moreover have "recv_only s s'" using recv.loop [OF s'(1)] recv_only_io [of s h3] s3' recv_only_trans by blast
  ultimately show ?thesis using s' by blast
qed

text \<open>The interrupt entry saves the interrupted context in its task and, without a switch, restores it.\<close>

lemma kernel_irq_card:
  assumes save: "save_current_task_state (pc (cpu s) + 4) (cpsr (cpu s)) s = Some t"
    and i: "current_task s = Some i" "i < length (tasks s)"
    and card: "card_interrupt dev t frames" "queue_ok s" "e1000 s = Some n" "pci_device n \<noteq> None" "unat (rx_cur n) < 32"
      "list_all (\<lambda>f. length f \<le> 8192) frames"
  shows "\<exists>s'. kernel_irq dev s = Some s' \<and> cpu s' = cpu s \<and> queue_ok s' \<and> packets s' = take 127 (packets s @ frames) \<and>
    recv_only (s\<lparr>tasks := (tasks s)[i := cpu s]\<rparr>) s'"
proof -
  have t: "t = s\<lparr>tasks := (tasks s)[i := cpu s]\<rparr>" using save i(1) by (cases "cpu s") (auto simp: save_current_task_state_def)
  have q: "queue_ok t" "packets t = packets s" "e1000 t = Some n"
    using card(2,3) by (simp_all add: t queue_ok_def packets_def)
  obtain u where u: "handle_interrupt dev t = Some u" "queue_ok u" "packets u = take 127 (packets t @ frames)" "recv_only t u"
    using handle_interrupt_card [OF card(1) q(1,3) card(4,5,6)] by blast
  note f = recv_only_fields [OF u(4)]
  have "load_current_task_state u = Some (u\<lparr>cpu := cpu s\<rparr>)"
    using f(7,8) i by (simp add: load_current_task_state_def t)
  moreover have "u\<lparr>cpu := cpu s\<rparr> = u" using f(9) by (simp add: t)
  ultimately have "kernel_irq dev s = Some u" using save u(1) by (simp add: kernel_irq_def)
  then show ?thesis using u q(2) f(9) by (auto simp: t)
qed

section \<open>From the queue to the wire\<close>

lemma carries_take:
  assumes "carries (take m data) code src_hw src_ip dest_hw dest_ip"
  shows "carries data code src_hw src_ip dest_hw dest_ip" "42 \<le> m"
proof -
  have c: "length src_hw = 6" "length dest_hw = 6"
    "take 28 (drop 14 (take m data)) = arp_payload code src_hw src_ip dest_hw dest_ip"
    using assms by (simp_all add: carries_def)
  then have "length (take 28 (drop 14 (take m data))) = 28" by simp
  then show m: "42 \<le> m" by (simp add: min_def split: if_splits)
  have "take 28 (drop 14 (take m data)) = take 28 (drop 14 data)" using m by (simp add: drop_take min_def)
  then show "carries data code src_hw src_ip dest_hw dest_ip" using c by (simp add: carries_def)
qed

lemma network_task_round_request:
  assumes q: "queue_ok s" "packets s = frame # rest"
    and type: "frame ! 12 = 8" "frame ! 13 = 6" and c: "carries frame code src_hw src_ip dest_hw dest_ip"
    and dev: "has_byte_order dev False"
  shows "\<exists>t h data. network_task_round dev frame_addr s = arp_receive dev frame_addr data (t\<lparr>io := h\<rparr>) \<and>
    carries data code src_hw src_ip dest_hw dest_ip \<and> queue_ok t \<and> packets t = rest \<and>
    t = s\<lparr>recv_queue_start := recv_queue_start t\<rparr>"
proof -
  obtain i t where r: "remove_packet s = (Some i, t)" "queue_ok t" "recv_packet_queue t = recv_packet_queue s"
    "packets s = packet_bytes (recv_packet_queue s ! i) # packets t"
    using remove_packet_queue [OF q(1)] q(2) by auto
  let ?data = "packet_data (recv_packet_queue s ! i)" and ?m = "unat (packet_length (recv_packet_queue s ! i))"
  have frame: "frame = take ?m ?data" "packets t = rest" using r(4) q(2) by (simp_all add: packet_bytes_def)
  note d = carries_take [OF c [unfolded frame(1)]]
  have "?data ! 12 = 8" "?data ! 13 = 6" using type d(2) frame(1) by simp_all
  then have "bswap16 (get16 ?data 12) = TYPE_ARP" by (simp add: get16_def) code_simp
  moreover have "new_packet_available s" using r(1) by (auto simp: new_packet_available_def remove_packet_def)
  ultimately have "network_task_round dev frame_addr s = arp_receive dev frame_addr ?data (poll dev t)"
    using r(1,3) by (simp add: network_task_round_def start_pdu_encapsulation_def conversions_poll [OF dev])
  moreover have "t = s\<lparr>recv_queue_start := recv_queue_start t\<rparr>" using r(1) by (auto simp: remove_packet_def split: if_splits)
  ultimately show ?thesis using d(1) r(2) frame(2) poll_io [of dev t] by metis
qed

lemma heap_queue_frame [frame_simps]:
  "heap_rep bs fs (s\<lparr>recv_queue_start := q\<rparr>) = heap_rep bs fs s" "heap_object g (s\<lparr>recv_queue_start := q\<rparr>) = heap_object g s"
  "heap_rep bs fs (r\<lparr>tasks := ts\<rparr>) = heap_rep bs fs r" "heap_object g (r\<lparr>tasks := ts\<rparr>) = heap_object g r"
  by (simp_all add: heap_rep_def heap_object_def fun_eq_iff)

section \<open>Properties\<close>

text \<open>
  Property C7: an ARP request on the cable is answered, from the card to the wire. When the card interrupts
  with a request for the own address, the interrupt entry returns to the interrupted task with its
  registers unchanged and the frame in the queue; the next round of the network task takes it out, sends
  the reply as the only frame, and knows the sender's hardware address from then on. No live heap object
  is lost.
\<close>

theorem arp_request_end_to_end:
  assumes task: "save_current_task_state (pc (cpu s) + 4) (cpsr (cpu s)) s = Some t" "current_task s = Some i" "i < length (tasks s)"
    and queue: "queue_ok s" "packets s = []"
    and card: "card_interrupt dev t [frame]" "net_ready dev s n" "unat (rx_cur n) < 32" "length frame \<le> 8192"
    and frame: "frame ! 12 = 8" "frame ! 13 = 6" "carries frame ARP_REQUEST src_hw src_ip dest_hw OWN_IPV4_ADDR" "src_ip \<noteq> 0"
    and heap: "heap_rep bs fs s" "unat (current_heap_address s) + 1552 \<le> heap_end" "stack_slot frame_addr 28"
    and arp: "arp_ready s"
  shows "\<exists>s1 s2 bs' fs'. kernel_irq dev s = Some s1 \<and> cpu s1 = cpu s \<and> packets s1 = [frame] \<and>
    network_task_round dev frame_addr s1 = Some s2 \<and>
    wire s2 = wire s @ [ethernet_bytes src_hw (nic_mac n) TYPE_ARP
      (arp_payload ARP_REPLY (nic_mac n) OWN_IPV4_ADDR src_hw src_ip)] \<and>
    fst (arp_table_lookup src_ip s2) = src_hw \<and>
    heap_rep bs' fs' s2 \<and> heap_object (bs', fs') s2 = heap_object (bs, fs) s"
proof -
  have nic: "e1000 s = Some n" "pci_device n \<noteq> None" "has_byte_order dev False" using card(2) by (simp_all add: net_ready_def)
  let ?t = "s\<lparr>tasks := (tasks s)[i := cpu s]\<rparr>"
  obtain s1 where s1: "kernel_irq dev s = Some s1" "cpu s1 = cpu s" "queue_ok s1" "packets s1 = [frame]" "recv_only ?t s1"
    using kernel_irq_card [OF task card(1) queue(1) nic(1,2) card(3)] card(4) queue(2) by auto
  note f = recv_only_fields [OF s1(5), simplified] recv_only_arp [OF s1(5), simplified]
  obtain u h data where u: "network_task_round dev frame_addr s1 = arp_receive dev frame_addr data (u\<lparr>io := h\<rparr>)"
    "carries data ARP_REQUEST src_hw src_ip dest_hw OWN_IPV4_ADDR" "u = s1\<lparr>recv_queue_start := recv_queue_start u\<rparr>"
    using network_task_round_request [OF s1(3,4) frame(1-3) nic(3), of frame_addr] by blast
  obtain k where k: "net_ready dev s1 (n\<lparr>rx_cur := k\<rparr>)"
    using recv_only_ready [OF s1(5), of dev n] card(2) by (auto simp: net_ready_def)
  obtain q where q: "u = s1\<lparr>recv_queue_start := q\<rparr>" using u(3) by metis
  let ?v = "u\<lparr>io := h\<rparr>"
  have v: "net_ready dev ?v (n\<lparr>rx_cur := k\<rparr>)" "heap_rep bs fs ?v" "unat (current_heap_address ?v) + 1552 \<le> heap_end"
    "arp_ready ?v" "wire ?v = wire s" "heap_object (bs, fs) ?v = heap_object (bs, fs) s"
    using k f heap arp by (simp_all add: q net_ready_def arp_ready_def frame_simps)
  obtain tb where tb: "arp_learn True src_hw src_ip ?v = ?v\<lparr>arp_entries := Some tb\<rparr>"
    using arp_learn_result(1) [OF v(4) frame(4)] by blast
  obtain s2 where s2: "arp_receive dev frame_addr data ?v = Some s2" "arp_ready s2" "fresh s2 src_ip src_hw"
    "frame_sent bs fs (n\<lparr>rx_cur := k\<rparr>) (ethernet_bytes src_hw (nic_mac n) TYPE_ARP
      (arp_payload ARP_REPLY (nic_mac n) OWN_IPV4_ADDR src_hw src_ip)) (?v\<lparr>arp_entries := Some tb\<rparr>) s2"
    using arp_request_result [OF v(1,2) heap_room_top [OF _ v(3)] heap(3) v(4) frame(4) u(2)] tb by auto
  have "cache s2 src_ip = Some src_hw" using arp.fresh_view [OF s2(3), of s2] by (simp add: aged_def)
  then have "fst (arp_table_lookup src_ip s2) = src_hw" using arp_table_lookup_value [OF s2(2)] by simp
  moreover have "wire s2 = wire s @ [ethernet_bytes src_hw (nic_mac n) TYPE_ARP
      (arp_payload ARP_REPLY (nic_mac n) OWN_IPV4_ADDR src_hw src_ip)]"
    "\<exists>bs' fs'. heap_rep bs' fs' s2 \<and> heap_object (bs', fs') s2 = heap_object (bs, fs) s"
    using s2(4) v(5,6) by (auto simp: frame_sent_def frame_simps)
  ultimately show ?thesis using s1(1,2,4) u(1) s2(1) by metis
qed

text \<open>
  A board whose card interrupts with one ARP request, in the buffer at 0x6000 of the first descriptor; the
  other receive descriptors stay empty, and the transmit descriptors behind them are always done.
\<close>

definition arp_card :: device where
  "arp_card h w a =
     (if w = 1 then
        (if in_range a 0x6000 42 then ucast (arp_request0 ! unat (a - 0x6000))
         else if a = 0x500001C \<or> 0x5000210 \<le> a then 1 else 0)
      else if w = 2 then 42
      else if w = 8 then 0x6000
      else if a = 0x10140000 then 0x40000000
      else if a = 0x500000C0 then 0x80 else 0)"

definition net0 :: routing_state where "net0 = arp0\<lparr>current_task := Some 0\<rparr>"

lemma length_arp_request0: "length arp_request0 = 42"
  by (simp add: arp_request0_def)

lemma arp_card_tx:
  assumes "i < 8"
  shows "0x5000210 \<le> tx_desc nic0 i + 12" "\<not> in_range (tx_desc nic0 i + 12) 0x6000 42"
proof -
  have "tx_desc nic0 i + 12 = 0x500021C + of_nat (16 * i)" by (simp add: tx_desc_def nic0_def)
  then have u: "unat (tx_desc nic0 i + 12) = 0x500021C + 16 * i" using unat_add_small [of "0x500021C" "16 * i"] assms by simp
  show "0x5000210 \<le> tx_desc nic0 i + 12" using u by (simp add: word_le_nat_alt)
  have "0x6000 \<le> tx_desc nic0 i + 12" using u by (simp add: word_le_nat_alt)
  then have "unat (tx_desc nic0 i + 12 - 0x6000) = unat (tx_desc nic0 i + 12) - unat (0x6000 :: addr)" by (rule unat_sub)
  moreover have "unat (0x6000 :: addr) = 0x6000" by simp
  ultimately have "42 \<le> unat (tx_desc nic0 i + 12 - 0x6000)" using u by linarith
  then show "\<not> in_range (tx_desc nic0 i + 12) 0x6000 42" unfolding in_range_def by linarith
qed

lemma arp_card_device: "card_reports arp_card nic0" "has_byte_order arp_card False"
  using arp_card_tx by (auto simp: card_reports_def arp_card_def has_byte_order_def const_defs Let_def intro: exI [of _ 0])

lemma arp_card_dma: "dma_bytes arp_card s 0x6000 42 = arp_request0"
proof (rule nth_equalityI)
  show "length (dma_bytes arp_card s 0x6000 42) = length arp_request0" by (simp add: dma_bytes_def length_arp_request0)
  fix i assume "i < length (dma_bytes arp_card s 0x6000 42)"
  then have i: "i < 42" by (simp add: dma_bytes_def)
  have "unat (0x6000 + of_nat i - 0x6000 :: addr) = i" using i by (simp add: unat_of_nat take_bit_nat_eq_self)
  moreover have "ucast (ucast b :: u64) = b" for b :: u8 by (rule bit_word_eqI) (auto simp: bit_simps)
  ultimately show "dma_bytes arp_card s 0x6000 42 ! i = arp_request0 ! i"
    using i by (simp add: dma_bytes_def arp_card_def in_range_def)
qed

lemma net0_fields: "e1000 net0 = Some nic0" "queue_ok net0" "packets net0 = []" "current_task net0 = Some 0" "length (tasks net0) = 16"
  "arp_ready net0" "heap_rep [] [] net0" "unat (current_heap_address net0) + 1552 \<le> heap_end" "net_ready arp_card net0 nic0" "wire net0 = []"
proof -
  have f: "e1000 arp0 = Some nic0" "queue_ok arp0" "packets arp0 = []" "length (tasks arp0) = 16"
    using card0_ok by (simp_all add: arp0_def e1000_state.defs queue_ok_def packets_def)
      (simp add: card0_def queue_state.defs queue0_def pci_state.defs pci0_def sched_state.defs sched0_def)
  show "e1000 net0 = Some nic0" "queue_ok net0" "packets net0 = []" "current_task net0 = Some 0" "length (tasks net0) = 16"
    "arp_ready net0" "heap_rep [] [] net0" "unat (current_heap_address net0) + 1552 \<le> heap_end" "wire net0 = []"
    using f arp0_fields arp0_heap by (simp_all add: net0_def queue_ok_def packets_def arp_ready_def heap_rep_def)
  then show "net_ready arp_card net0 nic0" using arp_card_device by (simp add: net_ready_def nic0_def)
qed

lemma arp_card_pending:
  assumes "e1000 s = Some (nic0\<lparr>rx_cur := 0, tx_cur := j\<rparr>)" "queue_ok s"
  shows "pending arp_card s [arp_request0]"
proof -
  let ?n = "nic0\<lparr>rx_cur := 0, tx_cur := j\<rparr>"
  obtain t where st: "rx_status arp_card s = Some (True, t)"
    using assms(1) by (simp add: rx_status_def bus_read_def Let_def rx_desc_def nic0_def arp_card_def in_range_def)
  then obtain h where t: "t = s\<lparr>io := h\<rparr>" using rx_status_io by blast
  then have e: "e1000 t = Some ?n" "queue_ok t" using assms by (simp_all add: frame_simps)
  have "unat (arp_card x 2 a) = 42" "ucast (arp_card x 8 a) = (0x6000 :: addr)" for x a by (simp_all add: arp_card_def)
  then have fr: "rx_frame arp_card ?n t = arp_request0"
    by (simp add: rx_frame_def bus_read_def Let_def arp_card_dma arp_card_def)
  obtain u where u: "receive_one arp_card t = Some u" "e1000 u = Some (?n\<lparr>rx_cur := (rx_cur ?n + 1) mod 32\<rparr>)"
    using receive_one_queue [OF e, of arp_card] fr length_arp_request0 by auto
  have "rx_status arp_card u \<noteq> None \<and> \<not> fst (the (rx_status arp_card u))"
    using u(2) by (simp add: rx_status_def bus_read_def Let_def rx_desc_def nic0_def arp_card_def in_range_def)
  then obtain v where "rx_status arp_card u = Some (False, v)" by (metis (full_types) option.collapse prod.collapse)
  then have "pending arp_card u []" by (rule pending.none)
  then have "pending arp_card s (rx_frame arp_card ?n t # [])" using pending.ready [OF st e(1)] u(1) by simp
  then show ?thesis by (simp add: fr)
qed

lemma arp_card_interrupt:
  assumes "e1000 s = Some nic0" "queue_ok s"
  shows "card_interrupt arp_card s [arp_request0]"
proof -
  obtain h1 where r: "read32 arp_card PIC_IRQ_STATUS s = (PCI3_INTBIT, s\<lparr>io := h1\<rparr>)"
    by (simp add: read32_def bus_read_def Let_def arp_card_def const_defs)
  obtain h2 where w: "write_command arp_card REG_IMASK 1 (s\<lparr>io := h1\<rparr>) = Some (s\<lparr>io := h2\<rparr>)"
    using write_command_io [of "s\<lparr>io := h1\<rparr>" nic0 arp_card REG_IMASK 1] assms(1) by auto
  obtain h3 where c: "read_command arp_card (ucast REG_INT_CAUSE) (s\<lparr>io := h2\<rparr>) = Some (RXT0, s\<lparr>io := h3\<rparr>)"
    using assms(1) by (simp add: read_command_def pci_read32_def REG_INT_CAUSE_def nic0_def bus_read_def Let_def arp_card_def RXT0_def)
  have "pending arp_card (s\<lparr>io := h3\<rparr>) [arp_request0]" using assms by (intro arp_card_pending [where j = 0]) (simp_all add: frame_simps nic0_def)
  with r w c show ?thesis unfolding card_interrupt_def by blast
qed

theorem arp_request_end_to_end_witness:
  "\<exists>s1 s2. kernel_irq arp_card net0 = Some s1 \<and> network_task_round arp_card 0x1000 s1 = Some s2 \<and>
    wire s2 = [ethernet_bytes [0x02, 0x02, 0x00, 0x0A, 0x55, 0x52] (nic_mac nic0) TYPE_ARP
      (arp_payload ARP_REPLY (nic_mac nic0) OWN_IPV4_ADDR [0x02, 0x02, 0x00, 0x0A, 0x55, 0x52] 0x0A000202)]"
proof -
  obtain t where t: "save_current_task_state (pc (cpu net0) + 4) (cpsr (cpu net0)) net0 = Some t"
    "e1000 t = Some nic0" "queue_ok t"
    using net0_fields by (simp add: save_current_task_state_def queue_ok_def)
  have fr: "arp_request0 ! 12 = 8" "arp_request0 ! 13 = 6" by (simp_all add: arp_request0_def BROADCAST_MAC_def numeral_eq_Suc)
  show ?thesis
    using arp_request_end_to_end [OF t(1) net0_fields(4) _ net0_fields(2,3) arp_card_interrupt [OF t(2,3)] net0_fields(9) _ _ fr
        arp_request0_carries _ net0_fields(7,8) stack_slot0 net0_fields(6)] net0_fields(5,10) length_arp_request0
    by (auto simp: nic0_def)
qed

end
