(* ===== verification/Pininfo.thy ===== *)
theory Pininfo
  imports Prelude
begin

text \<open>
  The table of \<^verbatim>\<open>kernel/drivers/pininfo.c\<close>: for every pin the register of the pin multiplexer, the mask that clears
  the field of the pin and the value that selects its function. The lemmas say that the entries of different
  GPIO pins have different fields and that a mode stays in its field.
\<close>

section \<open>The table\<close>

record pin_info =
  muxreg :: u32
  muxreg_mask :: u32
  muxreg_mode :: u32

abbreviation entry :: "u32 \<Rightarrow> u32 \<Rightarrow> u32 \<Rightarrow> pin_info" where
  "entry r m v \<equiv> \<lparr>muxreg = r, muxreg_mask = m, muxreg_mode = v\<rparr>"

text \<open>Nine banks of sixteen pins (eight entries to a pair of lines).\<close>

definition bank_pininfo :: "pin_info list" where
  "bank_pininfo =
  [entry 0 0x00000000 0x00000000, entry 1 0xF0FFFFFF 0x08000000, entry 1 0xFF0FFFFF 0x00800000, entry 1 0xFFF0FFFF 0x00080000,
   entry 1 0xFFFF0FFF 0x00008000, entry 1 0xFFFFF0FF 0x00000800, entry 1 0xFFFFFF0F 0x00000080, entry 1 0xFFFFFFF0 0x00000008,
   entry 0 0x00000000 0x00000000, entry 0 0x00000000 0x00000000, entry 0 0x00000000 0x00000000, entry 0 0xFFF0FFFF 0x00080000,
   entry 0 0xFFFF0FFF 0x00008000, entry 0 0xFFFFF0FF 0x00000800, entry 0 0xFFFFFF0F 0x00000080, entry 0 0xFFFFFFF0 0x00000008,
   entry 4 0x0FFFFFFF 0x80000000, entry 0 0x00000000 0x00000000, entry 0 0x00000000 0x00000000, entry 0 0x00000000 0x00000000,
   entry 0 0x00000000 0x00000000, entry 0 0x00000000 0x00000000, entry 0 0x00000000 0x00000000, entry 0 0x00000000 0x00000000,
   entry 3 0xFFFFFFF0 0x00000004, entry 2 0xF0FFFFFF 0x04000000, entry 2 0xFF0FFFFF 0x00400000, entry 2 0xFFF0FFFF 0x00040000,
   entry 2 0xFFFF0FFF 0x00004000, entry 2 0xFFFFF0FF 0x00000400, entry 2 0xFFFFFF0F 0x00000040, entry 2 0xFFFFFFF0 0x00000008,
   entry 6 0x0FFFFFFF 0x80000000, entry 6 0xF0FFFFFF 0x08000000, entry 6 0xFF0FFFFF 0x00800000, entry 6 0xFFF0FFFF 0x00080000,
   entry 6 0xFFFF0FFF 0x00008000, entry 6 0xFFFFF0FF 0x00000800, entry 6 0xFFFFFF0F 0x00000080, entry 6 0xFFFFFFF0 0x00000008,
   entry 5 0x0FFFFFFF 0x80000000, entry 5 0xF0FFFFFF 0x08000000, entry 5 0xFF0FFFFF 0x00800000, entry 5 0xFFF0FFFF 0x00080000,
   entry 5 0xFFFF0FFF 0x00008000, entry 5 0xFFFFF0FF 0x00000800, entry 0 0x00000000 0x00000000, entry 0 0x00000000 0x00000000,
   entry 8 0x0FFFFFFF 0x80000000, entry 8 0xF0FFFFFF 0x08000000, entry 8 0xFF0FFFFF 0x00800000, entry 8 0xFFF0FFFF 0x00080000,
   entry 8 0xFFFF0FFF 0x00008000, entry 8 0xFFFFF0FF 0x00000800, entry 8 0xFFFFFF0F 0x00000080, entry 8 0xFFFFFFF0 0x00000008,
   entry 7 0x0FFFFFFF 0x80000000, entry 7 0xF0FFFFFF 0x08000000, entry 7 0xFF0FFFFF 0x00800000, entry 7 0xFFF0FFFF 0x00080000,
   entry 7 0xFFFF0FFF 0x00008000, entry 7 0xFFFFF0FF 0x00000800, entry 7 0xFFFFFF0F 0x00000080, entry 7 0xFFFFFFF0 0x00000008,
   entry 0 0x00000000 0x00000000, entry 10 0xF0FFFFFF 0x08000000, entry 0 0x00000000 0x00000000, entry 0 0x00000000 0x00000000,
   entry 0 0x00000000 0x00000000, entry 0 0x00000000 0x00000000, entry 0 0x00000000 0x00000000, entry 0 0x00000000 0x00000000,
   entry 9 0x0FFFFFFF 0x80000000, entry 9 0xF0FFFFFF 0x08000000, entry 9 0xFF0FFFFF 0x00800000, entry 0 0x00000000 0x00000000,
   entry 9 0xFFFF0FFF 0x00008000, entry 0 0x00000000 0x00000000, entry 9 0xFFFFFF0F 0x00000080, entry 0 0x00000000 0x00000000,
   entry 12 0x0FFFFFFF 0x80000000, entry 12 0xF0FFFFFF 0x08000000, entry 12 0xFF0FFFFF 0x00800000, entry 12 0xFFF0FFFF 0x00080000,
   entry 12 0xFFFF0FFF 0x00008000, entry 12 0xFFFFF0FF 0x00000800, entry 12 0xFFFFFF0F 0x00000080, entry 12 0xFFFFFFF0 0x00000008,
   entry 11 0x0FFFFFFF 0x80000000, entry 11 0xF0FFFFFF 0x08000000, entry 11 0xFF0FFFFF 0x00800000, entry 11 0xFFF0FFFF 0x00080000,
   entry 11 0xFFFF0FFF 0x00008000, entry 11 0xFFFFF0FF 0x00000800, entry 11 0xFFFFFF0F 0x00000080, entry 11 0xFFFFFFF0 0x00000008,
   entry 19 0xF0FFFFFF 0x08000000, entry 19 0xFF0FFFFF 0x00800000, entry 19 0xFFF0FFFF 0x00080000, entry 19 0xFFFF0FFF 0x00008000,
   entry 19 0xFFFFF0FF 0x00000800, entry 16 0xFFFFFF0F 0x00000080, entry 14 0xFFFFFF0F 0x00000080, entry 14 0xFFFFFFF0 0x00000008,
   entry 13 0x0FFFFFFF 0x80000000, entry 13 0xF0FFFFFF 0x08000000, entry 13 0xFF0FFFFF 0x00800000, entry 13 0xFFF0FFFF 0x00080000,
   entry 13 0xFFFF0FFF 0x00008000, entry 13 0xFFFFF0FF 0x00000800, entry 13 0xFFFFFF0F 0x00000080, entry 13 0xFFFFFFF0 0x00000008,
   entry 0 0x00000000 0x00000000, entry 0 0x00000000 0x00000000, entry 0 0x00000000 0x00000000, entry 0 0x00000000 0x00000000,
   entry 17 0xFF0FFFFF 0x00800000, entry 0 0x00000000 0x00000000, entry 0 0x00000000 0x00000000, entry 0 0x00000000 0x00000000,
   entry 17 0xFFFFFF0F 0x00000080, entry 17 0xFFFFFFF0 0x00000008, entry 16 0x0FFFFFFF 0x80000000, entry 16 0xF0FFFFFF 0x08000000,
   entry 16 0xFF0FFFFF 0x00800000, entry 16 0xFFF0FFFF 0x00080000, entry 16 0xFFFF0FFF 0x00008000, entry 16 0xFFFFF0FF 0x00000800,
   entry 0 0x00000000 0x00000000, entry 0 0x00000000 0x00000000, entry 3 0xF0FFFFFF 0x04000000, entry 3 0xFF0FFFFF 0x00400000,
   entry 0 0x00000000 0x00000000, entry 3 0xFFFF0FFF 0x00004000, entry 3 0xFFFFF0FF 0x00000400, entry 0 0x00000000 0x00000000,
   entry 19 0xFFFFFF0F 0x00000080, entry 19 0xFFFFFFF0 0x00000008, entry 18 0x0FFFFFFF 0x80000000, entry 18 0xF0FFFFFF 0x08000000,
   entry 18 0xFF0FFFFF 0x00800000, entry 18 0xFFF0FFFF 0x00080000, entry 18 0xFFFF0FFF 0x00008000, entry 18 0xFFFFF0FF 0x00000800]"

text \<open>An empty entry, the UART pins, an empty entry, the SPI pins, an empty entry.\<close>

definition peripheral_pininfo :: "pin_info list" where
  "peripheral_pininfo =
  [entry 0 0x00000000 0x00000000, entry 3 0xFF0FFFFF 0x00200000, entry 3 0xFFF0FFFF 0x00020000, entry 4 0x0FFFFFFF 0x20000000,
   entry 0 0x00000000 0x00000000, entry 3 0xFFFF0FFF 0x00001000, entry 3 0xFFFFF0FF 0x00000100, entry 3 0xFFFFFFF0 0x00000001,
   entry 3 0xF0FFFFFF 0x01000000, entry 0 0x00000000 0x00000000]"

definition pininfo :: "pin_info list" where
  "pininfo = bank_pininfo @ peripheral_pininfo"

lemmas pininfo_table = pininfo_def bank_pininfo_def peripheral_pininfo_def

definition pininfo_size :: u32 where "pininfo_size = of_nat (length pininfo)"

section \<open>Fields of the multiplexer\<close>

text \<open>Every mask clears one of the eight fields of a register; \<open>mux_slot\<close> numbers the fields of all registers.\<close>

definition field_index :: "u32 \<Rightarrow> nat" where
  "field_index m =
     (if m = 0xFFFFFFF0 then 0 else if m = 0xFFFFFF0F then 1 else if m = 0xFFFFF0FF then 2 else if m = 0xFFFF0FFF then 3
      else if m = 0xFFF0FFFF then 4 else if m = 0xFF0FFFFF then 5 else if m = 0xF0FFFFFF then 6 else 7)"

definition mux_slot :: "pin_info \<Rightarrow> nat" where
  "mux_slot e = 8 * unat (muxreg e) + field_index (muxreg_mask e)"

lemma distinct_filter_nth:
  assumes "distinct (map f (filter P xs))" "i < length xs" "j < length xs" "P (xs ! i)" "P (xs ! j)" "i \<noteq> j"
  shows "f (xs ! i) \<noteq> f (xs ! j)"
  using assms
proof (induction xs arbitrary: i j)
  case (Cons x xs)
  have "f x \<noteq> f (xs ! k) \<and> f (xs ! k) \<noteq> f x" if "k < length xs" "P (xs ! k)" "P x" for k
    using Cons.prems(1) that by (auto simp: image_iff in_set_conv_nth)
  with Cons show ?case
    by (cases i; cases j) (auto split: if_splits)
qed simp

lemma length_pininfo [simp]: "length pininfo = 154"
  by (simp add: pininfo_table)

lemma pininfo_slots: "distinct (map mux_slot (filter (\<lambda>e. muxreg_mask e \<noteq> 0) (take 144 pininfo)))"
  by (simp add: pininfo_table mux_slot_def field_index_def)

lemma pininfo_entries:
  "list_all (\<lambda>e. muxreg_mask e \<noteq> 0 \<longrightarrow> muxreg e < 20 \<and> muxreg_mode e AND muxreg_mask e = 0 \<and>
     muxreg_mask e \<in> {0xFFFFFFF0, 0xFFFFFF0F, 0xFFFFF0FF, 0xFFFF0FFF, 0xFFF0FFFF, 0xFF0FFFFF, 0xF0FFFFFF, 0x0FFFFFFF})
   pininfo"
  by (simp add: pininfo_table)


text \<open>Entries with information; the first 144 entries are the pins of the nine banks.\<close>

definition has_info :: "u32 \<Rightarrow> bool" where
  "has_info p \<longleftrightarrow> unat p < length pininfo \<and> muxreg_mask (pininfo ! unat p) \<noteq> 0"

definition known :: "u32 \<Rightarrow> bool" where "known p \<longleftrightarrow> p < 144 \<and> muxreg_mask (pininfo ! unat p) \<noteq> 0"

lemma known_less: "known p \<Longrightarrow> p < 144" "known p \<Longrightarrow> unat p < 144"
  by (simp_all add: known_def word_less_nat_alt)

lemma known_mask: "known p \<Longrightarrow> muxreg_mask (pininfo ! unat p) \<noteq> 0"
  by (simp add: known_def)

lemma known_has_info: "known p \<Longrightarrow> has_info p"
  using known_less [of p] by (simp add: has_info_def known_mask)

lemma info_entry:
  assumes "has_info p"
  shows "muxreg (pininfo ! unat p) < 20"
    "muxreg_mode (pininfo ! unat p) AND muxreg_mask (pininfo ! unat p) = 0"
    "muxreg_mask (pininfo ! unat p) \<in> {0xFFFFFFF0, 0xFFFFFF0F, 0xFFFFF0FF, 0xFFFF0FFF, 0xFFF0FFFF, 0xFF0FFFFF, 0xF0FFFFFF, 0x0FFFFFFF}"
  using pininfo_entries assms by (auto simp: list_all_length has_info_def)

lemmas known_entry = info_entry [OF known_has_info]

text \<open>Two different pins have no bit of the multiplexer in common.\<close>

lemma known_disjoint:
  assumes "known p" "known q" "p \<noteq> q" and same: "muxreg (pininfo ! unat p) = muxreg (pininfo ! unat q)"
  shows "NOT (muxreg_mask (pininfo ! unat p)) AND NOT (muxreg_mask (pininfo ! unat q)) = 0"
proof -
  have "unat p \<noteq> unat q" using assms(3) by (simp add: unsigned_word_eqI word_unat_eq_iff)
  then have "mux_slot (take 144 pininfo ! unat p) \<noteq> mux_slot (take 144 pininfo ! unat q)"
    using known_less [OF assms(1)] known_less [OF assms(2)] known_mask [OF assms(1)] known_mask [OF assms(2)]
    by (intro distinct_filter_nth [OF pininfo_slots]) simp_all
  then have "field_index (muxreg_mask (pininfo ! unat p)) \<noteq> field_index (muxreg_mask (pininfo ! unat q))"
    using known_less [OF assms(1)] known_less [OF assms(2)] same by (simp add: mux_slot_def)
  then show ?thesis
    using known_entry(3) [OF assms(1)] known_entry(3) [OF assms(2)]
    by (elim insertE emptyE) (simp_all add: field_index_def)
qed

end
