(* ===== verification/Gpio.thy ===== *)
theory Gpio
  imports Pininfo Stdio "HOL-Library.Monad_Syntax"
begin

text \<open>
  The pin driver of the EV3, \<^verbatim>\<open>kernel/drivers/gpio.c\<close>. The hardware behind it has two parts, whose documented behaviour is the function
  \<open>reg\<close> on the bus history: the pin multiplexer, whose registers accept a write only while both kick registers
  hold their keys, and the direction registers of the GPIO banks; and the output latches (\<open>level\<close>), which
  writes to the set and clear registers of a bank change bit by bit. The abstraction \<open>pin_view\<close> gives for
  every known pin the selected function, the direction and the level; \<^verbatim>\<open>gpio_set\<close> is an update of it at one pin.
\<close>

section \<open>Constants of kernel/drivers/gpio.h and gpio.c\<close>

definition SYSCFG0_BASE :: addr where [const_defs]: "SYSCFG0_BASE = 0x01C14000"
definition SYSCFG1_BASE :: addr where [const_defs]: "SYSCFG1_BASE = 0x01E2C000"
definition GPIO_BASE :: addr where [const_defs]: "GPIO_BASE = 0x01E26000"

definition GPIO_PIN :: "u32 \<Rightarrow> u32 \<Rightarrow> u32" where [const_defs]: "GPIO_PIN B N = B * 0x10 + N"

definition GPIO_BANK :: "u32 \<Rightarrow> addr" where "GPIO_BANK N = GPIO_BASE + 0x10 + drop_bit 5 N * 0x28"
definition GPIO_MASK :: "u32 \<Rightarrow> u32" where "GPIO_MASK N = push_bit (unat (N AND 0x1F)) 1"
definition GPIO_DIR :: "u32 \<Rightarrow> addr" where "GPIO_DIR N = GPIO_BANK N + 0x00"
definition GPIO_SET :: "u32 \<Rightarrow> addr" where "GPIO_SET N = GPIO_BANK N + 0x08"
definition GPIO_CLR :: "u32 \<Rightarrow> addr" where "GPIO_CLR N = GPIO_BANK N + 0x0C"

definition SYSCFG_KICK :: "u32 \<Rightarrow> addr" where [const_defs]: "SYSCFG_KICK N = SYSCFG0_BASE + 0x38 + N * 0x4"
definition SYSCFG_PINMUX :: "u32 \<Rightarrow> addr" where [const_defs]: "SYSCFG_PINMUX N = SYSCFG0_BASE + 0x120 + N * 0x4"
definition KICK0_UNLOCK :: u32 where [const_defs]: "KICK0_UNLOCK = 0x83E70B13"
definition KICK1_UNLOCK :: u32 where [const_defs]: "KICK1_UNLOCK = 0x95A4F1E0"
definition KICK0_LOCK :: u32 where [const_defs]: "KICK0_LOCK = 0x0"
definition KICK1_LOCK :: u32 where [const_defs]: "KICK1_LOCK = 0x0"

section \<open>kernel/drivers/gpio.c\<close>

definition SYSCFG_UNLOCK :: "'s io_state_scheme \<Rightarrow> 's io_state_scheme" where
  "SYSCFG_UNLOCK s = write32 (SYSCFG_KICK 1) KICK1_UNLOCK (write32 (SYSCFG_KICK 0) KICK0_UNLOCK s)"

definition SYSCFG_LOCK :: "'s io_state_scheme \<Rightarrow> 's io_state_scheme" where
  "SYSCFG_LOCK s = write32 (SYSCFG_KICK 1) KICK1_LOCK (write32 (SYSCFG_KICK 0) KICK0_LOCK s)"

text \<open>The compound assignments \<^verbatim>\<open>&=\<close> and \<^verbatim>\<open>|=\<close> on a volatile register: one read, one write.\<close>

definition rmw32 :: "device \<Rightarrow> addr \<Rightarrow> (u32 \<Rightarrow> u32) \<Rightarrow> 's io_state_scheme \<Rightarrow> 's io_state_scheme" where
  "rmw32 dev a f s = (let (v, s) = read32 dev a s in write32 a (f v) s)"

text \<open>
  The table is read before the bound is checked; an access outside of it is undefined (\<open>None\<close>). For a pin
  without information a message is printed, and the routine goes on with the entry.
\<close>

definition gpio_init_pin :: "device \<Rightarrow> u32 \<Rightarrow> 's io_state_scheme \<Rightarrow> 's io_state_scheme option" where
  "gpio_init_pin dev pin s =
     do { let s = SYSCFG_UNLOCK s;
          pi \<leftarrow> (if unat pin < length pininfo then Some (pininfo ! unat pin) else None);
          (_, s) \<leftarrow> (if pininfo_size \<le> pin \<or> muxreg_mask pi = 0
                    then printf (''gpio: can not initialize pin %x - need init information in pin_info'' @ [CHR 0x0A])
                      [Arg_int pin] s
                    else Some (0, s));
          let s = rmw32 dev (SYSCFG_PINMUX (muxreg pi)) (\<lambda>v. v AND muxreg_mask pi) s;
          let s = rmw32 dev (SYSCFG_PINMUX (muxreg pi)) (\<lambda>v. v OR muxreg_mode pi) s;
          Some (SYSCFG_LOCK s) }"

definition gpio_init_outpin :: "device \<Rightarrow> u32 \<Rightarrow> 's io_state_scheme \<Rightarrow> 's io_state_scheme option" where
  "gpio_init_outpin dev pin s =
     do { let s = SYSCFG_UNLOCK s;
          s \<leftarrow> gpio_init_pin dev pin s;
          let s = write32 (GPIO_CLR pin) (GPIO_MASK pin) s;
          let s = rmw32 dev (GPIO_DIR pin) (\<lambda>v. v AND NOT (GPIO_MASK pin)) s;
          Some (SYSCFG_LOCK s) }"

definition gpio_init_inpin :: "device \<Rightarrow> u32 \<Rightarrow> 's io_state_scheme \<Rightarrow> 's io_state_scheme option" where
  "gpio_init_inpin dev pin s =
     do { let s = SYSCFG_UNLOCK s;
          s \<leftarrow> gpio_init_pin dev pin s;
          let s = rmw32 dev (GPIO_DIR pin) (\<lambda>v. v OR GPIO_MASK pin) s;
          Some (SYSCFG_LOCK s) }"

definition gpio_set :: "device \<Rightarrow> u32 \<Rightarrow> u32 \<Rightarrow> 's io_state_scheme \<Rightarrow> 's io_state_scheme option" where
  "gpio_set dev pin v s =
     do { s \<leftarrow> gpio_init_outpin dev pin s;
          Some (write32 (GPIO_BANK pin + 8 + (if v = 0 then 1 else 0) * 4) (GPIO_MASK pin) s) }"

definition gpio_get :: "device \<Rightarrow> u32 \<Rightarrow> 's io_state_scheme \<Rightarrow> (u32 \<times> 's io_state_scheme) option" where
  "gpio_get dev pin s =
     do { s \<leftarrow> gpio_init_inpin dev pin s;
          let (v, s) = read32 dev (GPIO_BANK pin + 0x10) s;
          Some (if v AND GPIO_MASK pin \<noteq> 0 then 1 else 0, s) }"

section \<open>The hardware\<close>

text \<open>
  The registers of the pin multiplexer and the direction registers after a bus history; \<open>init\<close> are their
  values at power-up.
\<close>

definition is_pinmux :: "addr \<Rightarrow> bool" where "is_pinmux a \<longleftrightarrow> a - SYSCFG_PINMUX 0 < 0x50"

fun reg :: "(addr \<Rightarrow> u32) \<Rightarrow> io_event list \<Rightarrow> addr \<Rightarrow> u32" where
  "reg init [] a = init a"
| "reg init (In w b v # h) a = reg init h a"
| "reg init (Out w b v # h) a =
     (if a = b \<and> (is_pinmux a \<longrightarrow>
        reg init h (SYSCFG_KICK 0) = KICK0_UNLOCK \<and> reg init h (SYSCFG_KICK 1) = KICK1_UNLOCK)
      then ucast v else reg init h a)"

text \<open>The output latch of a pin.\<close>

definition pin_bit :: "u32 \<Rightarrow> nat" where "pin_bit p = unat (p AND 0x1F)"

fun level :: "io_event list \<Rightarrow> u32 \<Rightarrow> bool" where
  "level [] p = False"
| "level (In w b v # h) p = level h p"
| "level (Out w b v # h) p =
     (if b = GPIO_SET p \<and> bit v (pin_bit p) then True
      else if b = GPIO_CLR p \<and> bit v (pin_bit p) then False else level h p)"

text \<open>A device that answers reads of these registers so.\<close>

definition config_reg :: "addr \<Rightarrow> bool" where "config_reg a \<longleftrightarrow> is_pinmux a \<or> (\<exists>p < 144. a = GPIO_DIR p)"

definition gpio_registers :: "(addr \<Rightarrow> u32) \<Rightarrow> device \<Rightarrow> bool" where
  "gpio_registers init dev \<longleftrightarrow> (\<forall>h a. config_reg a \<longrightarrow> dev h 4 a = ucast (reg init h a))"

record pin_state =
  selected :: u32
  is_output :: bool
  is_high :: bool

definition pin_view :: "(addr \<Rightarrow> u32) \<Rightarrow> io_event list \<Rightarrow> u32 \<Rightarrow> pin_state option" where
  "pin_view init h p =
     (if known p then
        Some \<lparr>selected = reg init h (SYSCFG_PINMUX (muxreg (pininfo ! unat p))) AND NOT (muxreg_mask (pininfo ! unat p)),
              is_output = (\<not> bit (reg init h (GPIO_DIR p)) (pin_bit p)),
              is_high = level h p\<rparr>
      else None)"

section \<open>Addresses\<close>

lemma pinmux_addr: "r < 20 \<Longrightarrow> is_pinmux (SYSCFG_PINMUX r)"
  by (simp add: is_pinmux_def SYSCFG_PINMUX_def word_less_nat_alt unat_word_ariths)

lemma pinmux_inj: "r < 20 \<Longrightarrow> q < 20 \<Longrightarrow> SYSCFG_PINMUX r = SYSCFG_PINMUX q \<Longrightarrow> r = q"
  by (simp add: SYSCFG_PINMUX_def SYSCFG0_BASE_def word_less_nat_alt word_unat_eq_iff unat_word_ariths)

lemma unat_drop5: "unat (drop_bit 5 (p :: u32)) = unat p div 32"
  by (simp add: unat_drop_bit_eq drop_bit_eq_div [where 'a = nat] del: drop_bit_numeral_minus_bit1)

lemma bank_number: "p < 144 \<Longrightarrow> unat (drop_bit 5 (p :: u32)) < 5"
  by (simp only: unat_drop5 word_less_nat_alt) (simp add: less_mult_imp_div_less)

lemma bank_cases:
  assumes "p < 144"
  shows "GPIO_BANK p \<in> {0x01E26010, 0x01E26038, 0x01E26060, 0x01E26088, 0x01E260B0}"
proof -
  have "unat (drop_bit 5 p) < 5" by (rule bank_number [OF assms])
  then have "drop_bit 5 p = 0 \<or> drop_bit 5 p = 1 \<or> drop_bit 5 p = 2 \<or> drop_bit 5 p = 3 \<or> drop_bit 5 p = 4"
    by (simp add: word_unat_eq_iff) arith
  then show ?thesis by (auto simp: GPIO_BANK_def GPIO_BASE_def)
qed

lemmas gpio_reg_defs = GPIO_DIR_def GPIO_SET_def GPIO_CLR_def

lemma gpio_not_syscfg:
  assumes "p < 144"
  shows "\<not> is_pinmux (GPIO_DIR p)" "\<not> is_pinmux (GPIO_SET p)" "\<not> is_pinmux (GPIO_CLR p)"
    "GPIO_DIR p \<noteq> SYSCFG_KICK 0" "GPIO_DIR p \<noteq> SYSCFG_KICK 1" "GPIO_SET p \<noteq> SYSCFG_KICK 0" "GPIO_SET p \<noteq> SYSCFG_KICK 1"
    "GPIO_CLR p \<noteq> SYSCFG_KICK 0" "GPIO_CLR p \<noteq> SYSCFG_KICK 1"
  using bank_cases [OF assms] by (auto simp: gpio_reg_defs is_pinmux_def const_defs)

lemma kick_not_pinmux: "\<not> is_pinmux (SYSCFG_KICK 0)" "\<not> is_pinmux (SYSCFG_KICK 1)" "SYSCFG_KICK 0 \<noteq> SYSCFG_KICK 1"
  by (simp_all add: is_pinmux_def const_defs)

lemma gpio_regs_differ:
  assumes "p < 144" "q < 144"
  shows "GPIO_DIR p \<noteq> GPIO_SET q" "GPIO_DIR p \<noteq> GPIO_CLR q" "GPIO_SET p \<noteq> GPIO_CLR q"
  using bank_cases [OF assms(1)] bank_cases [OF assms(2)] by (auto simp: gpio_reg_defs)

lemma pin_decompose: "unat p = 32 * unat (drop_bit 5 p) + pin_bit (p :: u32)"
proof -
  have "unat (p AND 0x1F) = unat p mod 32"
  proof -
    have "p AND 0x1F = take_bit 5 p" by (simp add: take_bit_eq_mask mask_eq_exp_minus_1)
    moreover have "unat (take_bit 5 p) = take_bit 5 (unat p)" by (rule unsigned_take_bit_eq)
    moreover have "take_bit 5 (unat p) = unat p mod 32" by (subst take_bit_eq_mod) simp
    ultimately show ?thesis by simp
  qed
  then show ?thesis by (simp only: pin_bit_def unat_drop5) simp
qed

text \<open>Pins that share their bank have different bits.\<close>

lemma bank_inj:
  assumes "p < 144" "q < 144" "GPIO_BANK p = GPIO_BANK q" "p \<noteq> q"
  shows "pin_bit p \<noteq> pin_bit q"
proof -
  have "unat (drop_bit 5 p * 0x28) = unat (drop_bit 5 q * 0x28)"
    using assms(3) by (simp add: GPIO_BANK_def)
  then have "unat (drop_bit 5 p) = unat (drop_bit 5 q)"
    using bank_number [OF assms(1)] bank_number [OF assms(2)] by (simp add: unat_word_ariths)
  then show ?thesis
    using assms(4) pin_decompose [of p] pin_decompose [of q] by (auto simp: word_unat_eq_iff)
qed

lemma pin_bit_less [simp]: "pin_bit p < 32"
proof -
  have "unat (p AND 0x1F) \<le> unat (0x1F :: u32)" by (rule word_and_le1 [THEN word_le_nat_alt [THEN iffD1]])
  then show ?thesis by (simp add: pin_bit_def)
qed

lemma bit_GPIO_MASK: "bit (GPIO_MASK p) n \<longleftrightarrow> n = pin_bit p"
  using pin_bit_less [of p] by (auto simp: GPIO_MASK_def bit_simps simp flip: pin_bit_def)

lemma known_addr: "known p \<Longrightarrow> config_reg (GPIO_DIR p)"
  using known_less by (auto simp: config_reg_def)

section \<open>Effect of single accesses\<close>

definition unlocked :: "(addr \<Rightarrow> u32) \<Rightarrow> bool" where
  "unlocked r \<longleftrightarrow> r (SYSCFG_KICK 0) = KICK0_UNLOCK \<and> r (SYSCFG_KICK 1) = KICK1_UNLOCK"

definition store_reg :: "addr \<Rightarrow> u32 \<Rightarrow> (addr \<Rightarrow> u32) \<Rightarrow> addr \<Rightarrow> u32" where
  "store_reg a v r = (if is_pinmux a \<and> \<not> unlocked r then r else r(a := v))"

lemma ucast_up_down: "ucast (ucast v :: u64) = (v :: u32)" "ucast (take_bit 32 (ucast v :: u64)) = (v :: u32)"
  by (rule bit_word_eqI, simp add: bit_simps)+

lemma reg_Out: "reg init (Out w b v # h) = store_reg b (ucast v) (reg init h)"
  by (auto simp: store_reg_def unlocked_def fun_eq_iff)

lemma reg_In: "reg init (In w b v # h) = reg init h"
  by (simp add: fun_eq_iff)

lemma write32_regs: "reg init (io (write32 a v s)) = store_reg a v (reg init (io s))"
  by (simp add: write32_def bus_write_def reg_Out ucast_up_down del: reg.simps)

lemma rmw32_regs:
  assumes "gpio_registers init dev" "config_reg a"
  shows "reg init (io (rmw32 dev a f s)) = store_reg a (f (reg init (io s) a)) (reg init (io s))"
  using assms
  by (simp add: rmw32_def read32_def bus_read_def write32_regs gpio_registers_def Let_def reg_In ucast_up_down del: reg.simps)

lemma write32_level:
  "level (io (write32 a v s)) p \<longleftrightarrow>
     (if a = GPIO_SET p \<and> bit v (pin_bit p) then True
      else if a = GPIO_CLR p \<and> bit v (pin_bit p) then False else level (io s) p)"
  using less_trans [OF pin_bit_less [of p], of 64] by (simp add: write32_def bus_write_def bit_simps)

lemma rmw32_level: "a \<noteq> GPIO_SET p \<Longrightarrow> a \<noteq> GPIO_CLR p \<Longrightarrow> level (io (rmw32 dev a f s)) p = level (io s) p"
  by (simp add: rmw32_def read32_def bus_read_def write32_level Let_def)

lemma write32_io_only: "write32 a v s = s\<lparr>io := io (write32 a v s)\<rparr>"
  by (simp add: write32_def bus_write_def)

lemma rmw32_io_only: "rmw32 dev a f s = s\<lparr>io := io (rmw32 dev a f s)\<rparr>"
  by (simp add: rmw32_def read32_def bus_read_def write32_def bus_write_def Let_def)

section \<open>Effect of the operations\<close>

lemma unlock_regs:
  "reg init (io (SYSCFG_UNLOCK s)) = (reg init (io s))(SYSCFG_KICK 0 := KICK0_UNLOCK, SYSCFG_KICK 1 := KICK1_UNLOCK)"
  by (simp add: SYSCFG_UNLOCK_def write32_regs store_reg_def kick_not_pinmux)

lemma lock_regs: "reg init (io (SYSCFG_LOCK s)) = (reg init (io s))(SYSCFG_KICK 0 := 0, SYSCFG_KICK 1 := 0)"
  by (simp add: SYSCFG_LOCK_def write32_regs store_reg_def kick_not_pinmux KICK0_LOCK_def KICK1_LOCK_def)

lemma kick_level:
  assumes "p < 144"
  shows "level (io (SYSCFG_UNLOCK s)) p = level (io s) p" "level (io (SYSCFG_LOCK s)) p = level (io s) p"
  using gpio_not_syscfg [OF assms] by (auto simp: SYSCFG_UNLOCK_def SYSCFG_LOCK_def write32_level)

lemma kick_io_only: "SYSCFG_UNLOCK s = s\<lparr>io := io (SYSCFG_UNLOCK s)\<rparr>" "SYSCFG_LOCK s = s\<lparr>io := io (SYSCFG_LOCK s)\<rparr>"
  by (simp_all add: SYSCFG_UNLOCK_def SYSCFG_LOCK_def write32_def bus_write_def)

text \<open>What an operation leaves besides the registers and the latches.\<close>

definition bus_only :: "'s io_state_scheme \<Rightarrow> 's io_state_scheme \<Rightarrow> bool" where
  "bus_only s s' \<longleftrightarrow> s' = s\<lparr>io := io s'\<rparr>"

lemma bus_only_refl [simp]: "bus_only s s"
  by (simp add: bus_only_def)

lemma bus_only_trans: "bus_only s t \<Longrightarrow> bus_only t u \<Longrightarrow> bus_only s u"
  unfolding bus_only_def by (metis io_state.surjective io_state.update_convs(2))

lemma bus_only_console: "bus_only s s' \<Longrightarrow> console s' = console s"
  unfolding bus_only_def by (metis io_state.select_convs(1) io_state.surjective io_state.update_convs(2))

lemma bus_only_each:
  "bus_only t (write32 a v t)" "bus_only t (rmw32 dev a f t)" "bus_only t (SYSCFG_UNLOCK t)" "bus_only t (SYSCFG_LOCK t)"
  unfolding bus_only_def by (rule write32_io_only rmw32_io_only kick_io_only)+

lemma bus_only_ops [simp]:
  "bus_only s t \<Longrightarrow> bus_only s (write32 a v t)" "bus_only s t \<Longrightarrow> bus_only s (rmw32 dev a f t)"
  "bus_only s t \<Longrightarrow> bus_only s (SYSCFG_UNLOCK t)" "bus_only s t \<Longrightarrow> bus_only s (SYSCFG_LOCK t)"
  by (erule bus_only_trans, rule bus_only_each)+

definition mux_of :: "u32 \<Rightarrow> addr" where "mux_of p = SYSCFG_PINMUX (muxreg (pininfo ! unat p))"

lemma mux_of_addr:
  assumes "has_info p"
  shows "is_pinmux (mux_of p)" "config_reg (mux_of p)" "mux_of p \<noteq> SYSCFG_KICK 0" "mux_of p \<noteq> SYSCFG_KICK 1"
    "q < 144 \<Longrightarrow> mux_of p \<noteq> GPIO_DIR q" "q < 144 \<Longrightarrow> mux_of p \<noteq> GPIO_SET q" "q < 144 \<Longrightarrow> mux_of p \<noteq> GPIO_CLR q"
  using pinmux_addr [OF info_entry(1) [OF assms]] kick_not_pinmux gpio_not_syscfg [of q]
  by (auto simp: mux_of_def config_reg_def)

definition select_pin :: "u32 \<Rightarrow> (addr \<Rightarrow> u32) \<Rightarrow> addr \<Rightarrow> u32" where
  "select_pin p r = r(mux_of p := (r (mux_of p) AND muxreg_mask (pininfo ! unat p)) OR muxreg_mode (pininfo ! unat p))"

lemma config_reg_not_kick: "config_reg a \<Longrightarrow> a \<noteq> SYSCFG_KICK 0 \<and> a \<noteq> SYSCFG_KICK 1"
  using kick_not_pinmux gpio_not_syscfg by (auto simp: config_reg_def)

lemma config_reg_not_latch: "config_reg a \<Longrightarrow> p < 144 \<Longrightarrow> a \<noteq> GPIO_SET p \<and> a \<noteq> GPIO_CLR p"
  using gpio_not_syscfg [of p] gpio_regs_differ [of _ p] by (auto simp: config_reg_def)

lemma gpio_init_pin_effect:
  assumes "has_info p" "gpio_registers init dev"
  shows "\<exists>s'. gpio_init_pin dev p s = Some s' \<and> bus_only s s' \<and>
    (\<forall>a. a \<noteq> SYSCFG_KICK 0 \<and> a \<noteq> SYSCFG_KICK 1 \<longrightarrow> reg init (io s') a = select_pin p (reg init (io s)) a) \<and>
    (\<forall>q < 144. level (io s') q = level (io s) q)"
proof -
  let ?e = "pininfo ! unat p" and ?P = "mux_of p"
  define s1 where "s1 = SYSCFG_UNLOCK s"
  define s2 where "s2 = rmw32 dev ?P (\<lambda>v. v AND muxreg_mask ?e) s1"
  define s3 where "s3 = rmw32 dev ?P (\<lambda>v. v OR muxreg_mode ?e) s2"
  have "\<not> pininfo_size \<le> p" using assms(1) by (simp add: has_info_def pininfo_size_def word_le_nat_alt)
  then have run: "gpio_init_pin dev p s = Some (SYSCFG_LOCK s3)"
    using assms(1) by (simp add: has_info_def gpio_init_pin_def Let_def s1_def s2_def s3_def mux_of_def)
  have only: "bus_only s (SYSCFG_LOCK s3)" by (simp add: s1_def s2_def s3_def)
  note mux = mux_of_addr [OF assms(1)]
  have r1: "reg init (io s1) = (reg init (io s))(SYSCFG_KICK 0 := KICK0_UNLOCK, SYSCFG_KICK 1 := KICK1_UNLOCK)"
    by (simp add: s1_def unlock_regs)
  have r2: "reg init (io s2) = (reg init (io s1))(?P := reg init (io s) ?P AND muxreg_mask ?e)"
    unfolding s2_def rmw32_regs [OF assms(2) mux(2)]
    using mux(1,3,4) kick_not_pinmux(3) by (simp add: r1 store_reg_def unlocked_def)
  have r3: "reg init (io s3) = (reg init (io s1))(?P := (reg init (io s) ?P AND muxreg_mask ?e) OR muxreg_mode ?e)"
    unfolding s3_def rmw32_regs [OF assms(2) mux(2)]
    using mux(1,3,4) kick_not_pinmux(3) by (simp add: r1 r2 store_reg_def unlocked_def)
  have regs: "reg init (io (SYSCFG_LOCK s3)) a = select_pin p (reg init (io s)) a" if "a \<noteq> SYSCFG_KICK 0 \<and> a \<noteq> SYSCFG_KICK 1" for a
    using that by (simp add: lock_regs r3 r1 select_pin_def)
  have "level (io (SYSCFG_LOCK s3)) q = level (io s) q" if "q < 144" for q
    using mux(6,7) [OF that] by (simp add: kick_level [OF that] s1_def s2_def s3_def rmw32_level)
  then show ?thesis using run only regs by blast
qed

lemma gpio_init_outpin_effect:
  assumes "known p" "gpio_registers init dev"
  shows "\<exists>s'. gpio_init_outpin dev p s = Some s' \<and> bus_only s s' \<and>
    (\<forall>a. config_reg a \<longrightarrow> reg init (io s') a =
      ((select_pin p (reg init (io s)))(GPIO_DIR p := reg init (io s) (GPIO_DIR p) AND NOT (GPIO_MASK p))) a) \<and>
    (\<forall>q < 144. level (io s') q \<longleftrightarrow> q \<noteq> p \<and> level (io s) q)"
proof -
  note p = known_less(1) [OF assms(1)] and dir = known_addr [OF assms(1)]
  note far = gpio_not_syscfg [OF known_less(1) [OF assms(1)]]
  obtain t where t: "gpio_init_pin dev p (SYSCFG_UNLOCK s) = Some t" "bus_only (SYSCFG_UNLOCK s) t"
      "\<And>a. config_reg a \<Longrightarrow> reg init (io t) a = select_pin p (reg init (io (SYSCFG_UNLOCK s))) a"
      "\<And>q. q < 144 \<Longrightarrow> level (io t) q = level (io (SYSCFG_UNLOCK s)) q"
    using gpio_init_pin_effect [OF known_has_info [OF assms(1)] assms(2), of "SYSCFG_UNLOCK s"] config_reg_not_kick by blast
  define u where "u = write32 (GPIO_CLR p) (GPIO_MASK p) t"
  define w where "w = rmw32 dev (GPIO_DIR p) (\<lambda>v. v AND NOT (GPIO_MASK p)) u"
  have run: "gpio_init_outpin dev p s = Some (SYSCFG_LOCK w)"
    by (simp add: gpio_init_outpin_def Let_def t(1) u_def w_def)
  have "bus_only s t" by (rule bus_only_trans [OF _ t(2)]) simp
  then have only: "bus_only s (SYSCFG_LOCK w)" by (simp add: u_def w_def)
  have rt: "reg init (io t) a = select_pin p (reg init (io s)) a" if "config_reg a" for a
    using config_reg_not_kick [OF that] mux_of_addr(3,4) [OF known_has_info [OF assms(1)]]
    by (simp add: t(3) [OF that] select_pin_def unlock_regs)
  have ru: "reg init (io u) a = select_pin p (reg init (io s)) a" if "config_reg a" for a
    using config_reg_not_latch [OF that p] by (simp add: u_def write32_regs store_reg_def rt [OF that])
  have "reg init (io (SYSCFG_LOCK w)) a =
      ((select_pin p (reg init (io s)))(GPIO_DIR p := reg init (io s) (GPIO_DIR p) AND NOT (GPIO_MASK p))) a"
    if "config_reg a" for a
    using config_reg_not_kick [OF that] far mux_of_addr(5) [OF known_has_info [OF assms(1)] p]
    by (simp add: lock_regs w_def rmw32_regs [OF assms(2) dir] store_reg_def ru [OF dir] ru [OF that] select_pin_def)
  moreover have "level (io (SYSCFG_LOCK w)) q \<longleftrightarrow> q \<noteq> p \<and> level (io s) q" if "q < 144" for q
    using gpio_regs_differ [OF p that] gpio_regs_differ [OF that p] bank_inj [OF that p]
    by (auto simp: kick_level [OF that] w_def rmw32_level u_def write32_level t(4) [OF that] bit_GPIO_MASK gpio_reg_defs)
  ultimately show ?thesis using run only by blast
qed

lemma gpio_init_inpin_effect:
  assumes "known p" "gpio_registers init dev"
  shows "\<exists>s'. gpio_init_inpin dev p s = Some s' \<and> bus_only s s' \<and>
    (\<forall>a. config_reg a \<longrightarrow> reg init (io s') a =
      ((select_pin p (reg init (io s)))(GPIO_DIR p := reg init (io s) (GPIO_DIR p) OR GPIO_MASK p)) a) \<and>
    (\<forall>q < 144. level (io s') q \<longleftrightarrow> level (io s) q)"
proof -
  note p = known_less(1) [OF assms(1)] and dir = known_addr [OF assms(1)]
  note far = gpio_not_syscfg [OF known_less(1) [OF assms(1)]]
  obtain t where t: "gpio_init_pin dev p (SYSCFG_UNLOCK s) = Some t" "bus_only (SYSCFG_UNLOCK s) t"
      "\<And>a. config_reg a \<Longrightarrow> reg init (io t) a = select_pin p (reg init (io (SYSCFG_UNLOCK s))) a"
      "\<And>q. q < 144 \<Longrightarrow> level (io t) q = level (io (SYSCFG_UNLOCK s)) q"
    using gpio_init_pin_effect [OF known_has_info [OF assms(1)] assms(2), of "SYSCFG_UNLOCK s"] config_reg_not_kick by blast
  define w where "w = rmw32 dev (GPIO_DIR p) (\<lambda>v. v OR GPIO_MASK p) t"
  have run: "gpio_init_inpin dev p s = Some (SYSCFG_LOCK w)"
    by (simp add: gpio_init_inpin_def Let_def t(1) w_def)
  have "bus_only s t" by (rule bus_only_trans [OF _ t(2)]) simp
  then have only: "bus_only s (SYSCFG_LOCK w)" by (simp add: w_def)
  have rt: "reg init (io t) a = select_pin p (reg init (io s)) a" if "config_reg a" for a
    using config_reg_not_kick [OF that] mux_of_addr(3,4) [OF known_has_info [OF assms(1)]]
    by (simp add: t(3) [OF that] select_pin_def unlock_regs)
  have "reg init (io (SYSCFG_LOCK w)) a =
      ((select_pin p (reg init (io s)))(GPIO_DIR p := reg init (io s) (GPIO_DIR p) OR GPIO_MASK p)) a"
    if "config_reg a" for a
    using config_reg_not_kick [OF that] far mux_of_addr(5) [OF known_has_info [OF assms(1)] p]
    by (simp add: lock_regs w_def rmw32_regs [OF assms(2) dir] store_reg_def rt [OF dir] rt [OF that] select_pin_def)
  moreover have "level (io (SYSCFG_LOCK w)) q \<longleftrightarrow> level (io s) q" if "q < 144" for q
    using gpio_regs_differ [OF p that] by (simp add: kick_level [OF that] w_def rmw32_level t(4) [OF that])
  ultimately show ?thesis using run only by blast
qed

section \<open>Pins as the abstract state\<close>

lemma disjoint_bits: "(a :: u32) AND b = 0 \<Longrightarrow> bit a n \<Longrightarrow> \<not> bit b n"
  by (metis bit_0_eq bit_and_iff bot_apply bot_bool_def)

lemma field_selected: "(mode :: u32) AND m = 0 \<Longrightarrow> ((v AND m) OR mode) AND NOT m = mode"
  by (rule bit_word_eqI) (auto simp: bit_simps dest: disjoint_bits)

lemma field_other:
  assumes "(mode :: u32) AND m = 0" "NOT m AND NOT m' = 0"
  shows "((v AND m) OR mode) AND NOT m' = v AND NOT m'"
proof (rule bit_word_eqI)
  fix n assume "n < LENGTH(32)"
  then have "bit m n \<or> bit m' n" using disjoint_bits [OF assms(2), of n] by (auto simp: bit_simps)
  then show "bit (((v AND m) OR mode) AND NOT m') n = bit (v AND NOT m') n"
    using disjoint_bits [OF assms(1), of n] by (auto simp: bit_simps)
qed

lemma select_pin_field:
  assumes "known p" "known q"
  shows "select_pin p r (mux_of q) AND NOT (muxreg_mask (pininfo ! unat q)) =
    (if q = p then muxreg_mode (pininfo ! unat p) else r (mux_of q) AND NOT (muxreg_mask (pininfo ! unat q)))"
proof (cases "q = p")
  case True
  then show ?thesis by (simp add: select_pin_def field_selected known_entry(2) [OF assms(1)])
next
  case False
  show ?thesis
  proof (cases "mux_of p = mux_of q")
    case True
    then have "muxreg (pininfo ! unat p) = muxreg (pininfo ! unat q)"
      using pinmux_inj known_entry(1) [OF assms(1)] known_entry(1) [OF assms(2)] by (simp add: mux_of_def)
    from known_disjoint [OF assms _ this] False True show ?thesis
      by (simp add: select_pin_def field_other known_entry(2) [OF assms(1)])
  qed (use False in \<open>auto simp: select_pin_def\<close>)
qed

lemma pin_view_update:
  assumes p: "known p"
    and regs: "\<forall>a. config_reg a \<longrightarrow> reg init h' a = ((select_pin p (reg init h))(GPIO_DIR p := d)) a"
    and dir: "\<And>n. bit d n \<longleftrightarrow> (if n = pin_bit p then \<not> b else bit (reg init h (GPIO_DIR p)) n)"
    and lev: "\<forall>q < 144. level h' q \<longleftrightarrow> (if q = p then l else level h q)"
  shows "pin_view init h' =
    (pin_view init h)(p \<mapsto> \<lparr>selected = muxreg_mode (pininfo ! unat p), is_output = b, is_high = l\<rparr>)"
proof
  fix q
  show "pin_view init h' q =
    ((pin_view init h)(p \<mapsto> \<lparr>selected = muxreg_mode (pininfo ! unat p), is_output = b, is_high = l\<rparr>)) q"
  proof (cases "known q")
    case True
    note q = known_less(1) [OF True]
    have sel: "reg init h' (mux_of q) AND NOT (muxreg_mask (pininfo ! unat q)) =
        (if q = p then muxreg_mode (pininfo ! unat p) else reg init h (mux_of q) AND NOT (muxreg_mask (pininfo ! unat q)))"
      using regs mux_of_addr(2) [OF known_has_info [OF True]] mux_of_addr(5) [OF known_has_info [OF True] known_less(1) [OF p]] select_pin_field [OF p True] by simp
    have "bit (reg init h' (GPIO_DIR q)) (pin_bit q) \<longleftrightarrow> (if q = p then \<not> b else bit (reg init h (GPIO_DIR q)) (pin_bit q))"
      using regs known_addr [OF True] dir mux_of_addr(5) [OF known_has_info [OF p] q] bank_inj [OF q known_less(1) [OF p]]
      by (auto simp: select_pin_def GPIO_DIR_def)
    then show ?thesis using sel lev q True by (simp add: pin_view_def mux_of_def)
  qed (use p in \<open>auto simp: pin_view_def\<close>)
qed

lemma gpio_init_outpin_view:
  assumes "known p" "gpio_registers init dev"
  shows "\<exists>s'. gpio_init_outpin dev p s = Some s' \<and> bus_only s s' \<and> pin_view init (io s') =
    (pin_view init (io s))(p \<mapsto> \<lparr>selected = muxreg_mode (pininfo ! unat p), is_output = True, is_high = False\<rparr>)"
proof -
  obtain s' where s': "gpio_init_outpin dev p s = Some s'" "bus_only s s'"
      "\<forall>a. config_reg a \<longrightarrow> reg init (io s') a =
        ((select_pin p (reg init (io s)))(GPIO_DIR p := reg init (io s) (GPIO_DIR p) AND NOT (GPIO_MASK p))) a"
      "\<forall>q < 144. level (io s') q \<longleftrightarrow> q \<noteq> p \<and> level (io s) q"
    using gpio_init_outpin_effect [OF assms] by blast
  have "bit (reg init (io s) (GPIO_DIR p) AND NOT (GPIO_MASK p)) n \<longleftrightarrow>
      (if n = pin_bit p then \<not> True else bit (reg init (io s) (GPIO_DIR p)) n)" for n
    by (auto simp: bit_simps bit_GPIO_MASK dest: bit_imp_le_length)
  from pin_view_update [OF assms(1) s'(3) this, of False] s' show ?thesis by auto
qed

lemma gpio_init_inpin_view:
  assumes "known p" "gpio_registers init dev"
  shows "\<exists>s'. gpio_init_inpin dev p s = Some s' \<and> bus_only s s' \<and> pin_view init (io s') =
    (pin_view init (io s))(p \<mapsto> \<lparr>selected = muxreg_mode (pininfo ! unat p), is_output = False, is_high = level (io s) p\<rparr>)"
proof -
  obtain s' where s': "gpio_init_inpin dev p s = Some s'" "bus_only s s'"
      "\<forall>a. config_reg a \<longrightarrow> reg init (io s') a =
        ((select_pin p (reg init (io s)))(GPIO_DIR p := reg init (io s) (GPIO_DIR p) OR GPIO_MASK p)) a"
      "\<forall>q < 144. level (io s') q \<longleftrightarrow> level (io s) q"
    using gpio_init_inpin_effect [OF assms] by blast
  have "bit (reg init (io s) (GPIO_DIR p) OR GPIO_MASK p) n \<longleftrightarrow>
      (if n = pin_bit p then \<not> False else bit (reg init (io s) (GPIO_DIR p)) n)" for n
    by (auto simp: bit_simps bit_GPIO_MASK)
  from pin_view_update [OF assms(1) s'(3) this, of "level (io s) p"] s' show ?thesis by auto
qed

lemma gpio_set_view:
  assumes "known p" "gpio_registers init dev"
  shows "\<exists>s'. gpio_set dev p v s = Some s' \<and> bus_only s s' \<and> pin_view init (io s') =
    (pin_view init (io s))(p \<mapsto> \<lparr>selected = muxreg_mode (pininfo ! unat p), is_output = True, is_high = (v \<noteq> 0)\<rparr>)"
proof -
  note p = known_less(1) [OF assms(1)]
  obtain t where t: "gpio_init_outpin dev p s = Some t" "bus_only s t"
      "\<forall>a. config_reg a \<longrightarrow> reg init (io t) a =
        ((select_pin p (reg init (io s)))(GPIO_DIR p := reg init (io s) (GPIO_DIR p) AND NOT (GPIO_MASK p))) a"
      "\<And>q. q < 144 \<Longrightarrow> level (io t) q \<longleftrightarrow> q \<noteq> p \<and> level (io s) q"
    using gpio_init_outpin_effect [OF assms] by blast
  define a where "a = (if v = 0 then GPIO_CLR p else GPIO_SET p)"
  define s' where "s' = write32 a (GPIO_MASK p) t"
  have "gpio_set dev p v s = Some s'"
    by (simp add: gpio_set_def t(1) s'_def a_def gpio_reg_defs add.commute)
  moreover have "bus_only s s'" using t(2) by (simp add: s'_def)
  moreover have "\<forall>b. config_reg b \<longrightarrow> reg init (io s') b =
      ((select_pin p (reg init (io s)))(GPIO_DIR p := reg init (io s) (GPIO_DIR p) AND NOT (GPIO_MASK p))) b"
    using t(3) config_reg_not_latch [OF _ p] by (simp add: s'_def a_def write32_regs store_reg_def)
  moreover have "bit (reg init (io s) (GPIO_DIR p) AND NOT (GPIO_MASK p)) n \<longleftrightarrow>
      (if n = pin_bit p then \<not> True else bit (reg init (io s) (GPIO_DIR p)) n)" for n
    by (auto simp: bit_simps bit_GPIO_MASK dest: bit_imp_le_length)
  moreover have "level (io s') q \<longleftrightarrow> (if q = p then v \<noteq> 0 else level (io s) q)" if "q < 144" for q
    using gpio_regs_differ [OF p that] gpio_regs_differ [OF that p] bank_inj [OF that p] t(4) [OF that]
    by (auto simp: s'_def a_def write32_level bit_GPIO_MASK gpio_reg_defs)
  ultimately show ?thesis using pin_view_update [OF assms(1), of init "io s'" "io s"] by blast
qed

text \<open>Accesses to other devices leave the pins alone.\<close>

definition off_gpio :: "addr \<Rightarrow> bool" where "off_gpio a \<longleftrightarrow> \<not> is_pinmux a \<and> 0x1000 \<le> a - GPIO_BASE"

lemma off_gpio_addr:
  assumes "off_gpio a" "q < 144"
  shows "a \<noteq> GPIO_DIR q" "a \<noteq> GPIO_SET q" "a \<noteq> GPIO_CLR q"
  using assms(1) bank_cases [OF assms(2)] by (auto simp: off_gpio_def gpio_reg_defs GPIO_BASE_def)

lemma Out_view: "off_gpio a \<Longrightarrow> pin_view init (Out w a v # h) = pin_view init h"
proof
  fix q assume a: "off_gpio a"
  show "pin_view init (Out w a v # h) q = pin_view init h q"
  proof (cases "known q")
    case True
    note q = known_less(1) [OF True] and m = mux_of_addr [OF known_has_info [OF True]]
    have "mux_of q \<noteq> a" using m(1) a by (auto simp: off_gpio_def)
    then show ?thesis
      using off_gpio_addr [OF a q] True by (simp add: pin_view_def flip: mux_of_def)
  qed (simp add: pin_view_def)
qed

lemma In_view: "pin_view init (In w a v # h) = pin_view init h"
  by (simp add: fun_eq_iff pin_view_def)

lemma write32_view: "off_gpio a \<Longrightarrow> pin_view init (io (write32 a v s)) = pin_view init (io s)"
  by (simp add: write32_def bus_write_def Out_view)

lemma rmw32_view: "off_gpio a \<Longrightarrow> pin_view init (io (rmw32 dev a f s)) = pin_view init (io s)"
  by (simp add: rmw32_def read32_def bus_read_def Let_def write32_view In_view)

section \<open>Routines that work on pins\<close>

text \<open>
  A routine that always returns, uses only the bus and updates the pins by \<open>F\<close>; such routines compose, which is
  how the drivers on top of this one are verified.
\<close>

type_synonym pins = "u32 \<Rightarrow> pin_state option"

definition pin_op :: "(addr \<Rightarrow> u32) \<Rightarrow> ('s io_state_scheme \<Rightarrow> 's io_state_scheme option) \<Rightarrow> (pins \<Rightarrow> pins) \<Rightarrow> bool" where
  "pin_op init f F \<longleftrightarrow>
     (\<forall>s. \<exists>s'. f s = Some s' \<and> bus_only s s' \<and> pin_view init (io s') = F (pin_view init (io s)))"

definition out_pin :: "u32 \<Rightarrow> bool \<Rightarrow> pin_state" where
  "out_pin p l = \<lparr>selected = muxreg_mode (pininfo ! unat p), is_output = True, is_high = l\<rparr>"

definition in_pin :: "u32 \<Rightarrow> bool \<Rightarrow> pin_state" where
  "in_pin p l = \<lparr>selected = muxreg_mode (pininfo ! unat p), is_output = False, is_high = l\<rparr>"

lemma pin_opD:
  "pin_op init f F \<Longrightarrow> \<exists>s'. f s = Some s' \<and> bus_only s s' \<and> pin_view init (io s') = F (pin_view init (io s))"
  by (simp add: pin_op_def)

lemma pin_op_Some: "pin_op init Some (\<lambda>V. V)"
  by (simp add: pin_op_def)

lemma pin_op_bind: "pin_op init f F \<Longrightarrow> pin_op init g G \<Longrightarrow> pin_op init (\<lambda>s. f s \<bind> g) (\<lambda>V. G (F V))"
  unfolding pin_op_def by (metis bind.bind_lunit bus_only_trans)

lemma pin_op_gpio_set:
  assumes "known p" "gpio_registers init dev"
  shows "pin_op init (gpio_set dev p v) (\<lambda>V. V(p \<mapsto> out_pin p (v \<noteq> 0)))"
  unfolding pin_op_def out_pin_def by (intro allI gpio_set_view assms)

lemma pin_op_outpin:
  assumes "known p" "gpio_registers init dev"
  shows "pin_op init (gpio_init_outpin dev p) (\<lambda>V. V(p \<mapsto> out_pin p False))"
  unfolding pin_op_def out_pin_def by (intro allI gpio_init_outpin_view assms)

lemma pin_op_inpin:
  assumes "known p" "gpio_registers init dev"
  shows "pin_op init (gpio_init_inpin dev p) (\<lambda>V. V(p \<mapsto> in_pin p (is_high (the (V p)))))"
proof -
  have "is_high (the (pin_view init h p)) = level h p" for h using assms(1) by (simp add: pin_view_def)
  then show ?thesis
    unfolding pin_op_def in_pin_def by (simp only:) (intro allI gpio_init_inpin_view assms)
qed

lemma pin_op_init_pin:
  assumes "known p" "gpio_registers init dev"
  shows "pin_op init (gpio_init_pin dev p) (\<lambda>V. V(p \<mapsto> (the (V p))\<lparr>selected := muxreg_mode (pininfo ! unat p)\<rparr>))"
  unfolding pin_op_def
proof
  fix s :: "'a io_state_scheme"
  obtain s' where s': "gpio_init_pin dev p s = Some s'" "bus_only s s'"
      "\<forall>a. a \<noteq> SYSCFG_KICK 0 \<and> a \<noteq> SYSCFG_KICK 1 \<longrightarrow> reg init (io s') a = select_pin p (reg init (io s)) a"
      "\<forall>q < 144. level (io s') q = level (io s) q"
    using gpio_init_pin_effect [OF known_has_info [OF assms(1)] assms(2)] by blast
  have dir: "mux_of p \<noteq> GPIO_DIR p" by (rule mux_of_addr(5) [OF known_has_info [OF assms(1)] known_less(1) [OF assms(1)]])
  have "pin_view init (io s') = (pin_view init (io s))(p \<mapsto> \<lparr>selected = muxreg_mode (pininfo ! unat p),
      is_output = (\<not> bit (reg init (io s) (GPIO_DIR p)) (pin_bit p)), is_high = level (io s) p\<rparr>)"
    using s'(3,4) config_reg_not_kick dir
    by (intro pin_view_update [where d = "reg init (io s) (GPIO_DIR p)"] assms(1)) (auto simp: select_pin_def)
  then show "\<exists>s'. gpio_init_pin dev p s = Some s' \<and> bus_only s s' \<and> pin_view init (io s') =
      (pin_view init (io s))(p \<mapsto> (the (pin_view init (io s) p))\<lparr>selected := muxreg_mode (pininfo ! unat p)\<rparr>)"
    using s'(1,2) assms(1) by (simp add: pin_view_def)
qed

lemma pin_op_rmw32: "off_gpio a \<Longrightarrow> pin_op init (\<lambda>s. Some (rmw32 dev a f s)) (\<lambda>V. V)"
  by (simp add: pin_op_def rmw32_view)

lemma gpio_get_view:
  assumes "known pin" "gpio_registers init dev"
  shows "\<exists>s' h w. gpio_get dev pin s = Some (if bit (dev h 4 (GPIO_BANK pin + 0x10)) (pin_bit pin) then 1 else 0, s') \<and>
    io s' = In 4 (GPIO_BANK pin + 0x10) w # h \<and> console s' = console s \<and>
    pin_view init h = (pin_view init (io s))(pin \<mapsto> in_pin pin (level (io s) pin))"
proof -
  obtain t where t: "gpio_init_inpin dev pin s = Some t" "bus_only s t"
      "pin_view init (io t) = (pin_view init (io s))(pin \<mapsto> in_pin pin (level (io s) pin))"
    using gpio_init_inpin_view [OF assms] unfolding in_pin_def by blast
  have "((ucast (take_bit 32 v) :: u32) AND GPIO_MASK pin \<noteq> 0) = bit v (pin_bit pin)" for v :: u64
    using pin_bit_less [of pin] by (simp add: GPIO_MASK_def and_exp_eq_0_iff_not_bit bit_simps flip: pin_bit_def)
  with t bus_only_console [OF t(2)] show ?thesis
    by (auto simp: gpio_get_def read32_def bus_read_def Let_def)
qed

text \<open>The pins other drivers name are known; the first argument of \<^const>\<open>GPIO_PIN\<close> is the bank.\<close>

lemma known_pin: "unat p < 144 \<Longrightarrow> muxreg_mask (pininfo ! unat p) \<noteq> 0 \<Longrightarrow> known p"
  by (simp add: known_def word_less_nat_alt)

text \<open>
  Property C22: setting a pin is one update of the abstract pin state. \<^verbatim>\<open>gpio_set\<close> returns, the pin is switched to its
  GPIO function, is an output and has the level of the value; function, direction and level of every other pin
  are as they were, and nothing is printed.
\<close>

theorem gpio_set_refines:
  assumes "known pin" "gpio_registers init dev"
  shows "\<exists>s'. gpio_set dev pin v s = Some s' \<and> console s' = console s \<and> pin_view init (io s') =
    (pin_view init (io s))(pin \<mapsto>
      \<lparr>selected = muxreg_mode (pininfo ! unat pin), is_output = True, is_high = (v \<noteq> 0)\<rparr>)"
  using gpio_set_view [OF assms, of v s] bus_only_console by blast

definition reg_device :: device where "reg_device h w a = ucast (reg (\<lambda>_. 0) h a)"

lemma reg_device_registers: "gpio_registers (\<lambda>_. 0) reg_device"
  by (simp add: gpio_registers_def reg_device_def)

theorem gpio_set_refines_witness:
  "\<exists>s'. gpio_set reg_device (GPIO_PIN 6 13) 1 io0 = Some s' \<and>
     pin_view (\<lambda>_. 0) (io s') 0x6D = Some \<lparr>selected = 0x00000800, is_output = True, is_high = True\<rparr>"
proof -
  have k: "known (GPIO_PIN 6 13)" by (rule known_pin) (simp_all add: GPIO_PIN_def pininfo_table)
  from gpio_set_refines [OF k reg_device_registers, of 1 io0] show ?thesis
    by (auto simp: GPIO_PIN_def pininfo_table)
qed

text \<open>
  Property: reading a pin. \<^verbatim>\<open>gpio_get\<close> returns 1 when the bit of the pin in the input register of its bank is set
  and 0 otherwise, where the read is the last access on the bus and at that time the pin is an input with its
  GPIO function selected, and the other pins are as they were.
\<close>

theorem gpio_get_samples:
  assumes "known pin" "gpio_registers init dev"
  shows "\<exists>s' h w. gpio_get dev pin s = Some (if bit (dev h 4 (GPIO_BANK pin + 0x10)) (pin_bit pin) then 1 else 0, s') \<and>
    io s' = In 4 (GPIO_BANK pin + 0x10) w # h \<and> console s' = console s \<and> pin_view init h =
    (pin_view init (io s))(pin \<mapsto>
      \<lparr>selected = muxreg_mode (pininfo ! unat pin), is_output = False, is_high = level (io s) pin\<rparr>)"
  using gpio_get_view [OF assms, of s] unfolding in_pin_def .

theorem gpio_get_samples_witness:
  "\<exists>s' h w. gpio_get reg_device (GPIO_PIN 6 6) io0 =
     Some (if bit (reg_device h 4 (GPIO_BANK (GPIO_PIN 6 6) + 0x10)) (pin_bit (GPIO_PIN 6 6)) then 1 else 0, s') \<and>
     io s' = In 4 (GPIO_BANK (GPIO_PIN 6 6) + 0x10) w # h"
proof -
  have k: "known (GPIO_PIN 6 6)" by (rule known_pin) (simp_all add: GPIO_PIN_def pininfo_table)
  from gpio_get_samples [OF k reg_device_registers, of io0] show ?thesis by blast
qed

lemma pininfo_unknown: "list_all (\<lambda>e. muxreg_mask e = 0 \<longrightarrow> muxreg e = 0 \<and> muxreg_mode e = 0) pininfo"
  by (simp add: pininfo_table)

text \<open>
  Property C37: a pin without information. The message goes out, and \<^verbatim>\<open>gpio_init_pin\<close> goes on: the empty entry clears
  the whole first register of the pin multiplexer, so that every pin controlled by it loses its function.
\<close>

theorem gpio_init_pin_unknown_clears:
  assumes "unat pin < length pininfo" "muxreg_mask (pininfo ! unat pin) = 0" "gpio_registers init dev"
  shows "\<exists>s'. gpio_init_pin dev pin s = Some s' \<and>
    console s' = console s @ crlf (''gpio: can not initialize pin '' @ numeral_str 16 digit_hex_lower (unat pin) @
      '' - need init information in pin_info'' @ [CHR 0x0A]) \<and>
    (\<forall>q. known q \<and> muxreg (pininfo ! unat q) = 0 \<longrightarrow> (\<exists>o' l. pin_view init (io s') q = Some \<lparr>selected = 0, is_output = o', is_high = l\<rparr>))"
proof -
  let ?P = "SYSCFG_PINMUX 0"
  let ?msg = "''gpio: can not initialize pin '' @ numeral_str 16 digit_hex_lower (unat pin) @
      '' - need init information in pin_info'' @ [CHR 0x0A]"
  have e: "muxreg (pininfo ! unat pin) = 0" "muxreg_mode (pininfo ! unat pin) = 0"
    using pininfo_unknown assms(1,2) by (auto simp: list_all_length)
  define s1 where "s1 = put ?msg (SYSCFG_UNLOCK s)"
  define s2 where "s2 = rmw32 dev ?P (\<lambda>v. v AND 0) s1"
  define s3 where "s3 = rmw32 dev ?P (\<lambda>v. v OR 0) s2"
  have "render (''gpio: can not initialize pin %x - need init information in pin_info'' @ [CHR 0x0A]) [Arg_int pin] = Some ?msg"
    by (simp add: conversion_def)
  from vprintf_put [OF this, of "SYSCFG_UNLOCK s"] have run: "gpio_init_pin dev pin s = Some (SYSCFG_LOCK s3)"
    using assms(1,2) by (simp add: gpio_init_pin_def Let_def e printf_def s1_def s2_def s3_def)
  have mux: "is_pinmux ?P" "config_reg ?P" "?P \<noteq> SYSCFG_KICK 0" "?P \<noteq> SYSCFG_KICK 1"
    using pinmux_addr [of 0] by (simp_all add: config_reg_def const_defs)
  have u: "unlocked (reg init (io s1))"
    using kick_not_pinmux(3) by (simp add: s1_def put_def unlock_regs unlocked_def)
  have "reg init (io s2) = (reg init (io s1))(?P := 0)"
    using u by (simp add: s2_def rmw32_regs [OF assms(3) mux(2)] store_reg_def)
  then have "reg init (io (SYSCFG_LOCK s3)) ?P = 0"
    using mux by (simp add: lock_regs s3_def rmw32_regs [OF assms(3) mux(2)] store_reg_def)
  moreover have "console (SYSCFG_LOCK s3) = console s @ crlf ?msg"
    using bus_only_console [of s1 "SYSCFG_LOCK s3"] bus_only_console [of s "SYSCFG_UNLOCK s"]
    by (simp add: s2_def s3_def) (simp add: s1_def put_def)
  ultimately show ?thesis using run by (auto simp: pin_view_def)
qed

theorem gpio_init_pin_unknown_clears_witness:
  "\<exists>s'. gpio_init_pin reg_device (GPIO_PIN 1 1) io0 = Some s' \<and>
     console s' = ''gpio: can not initialize pin 11 - need init information in pin_info'' @ [CHR 0x0D, CHR 0x0A]"
proof -
  have "unat (GPIO_PIN 1 1) < length pininfo" "muxreg_mask (pininfo ! unat (GPIO_PIN 1 1)) = 0"
    by (simp_all add: GPIO_PIN_def pininfo_table)
  moreover have "crlf (''gpio: can not initialize pin '' @ numeral_str 16 digit_hex_lower 17 @
      '' - need init information in pin_info'' @ [CHR 0x0A]) =
      ''gpio: can not initialize pin 11 - need init information in pin_info'' @ [CHR 0x0D, CHR 0x0A]" by code_simp
  ultimately show ?thesis
    using gpio_init_pin_unknown_clears [OF _ _ reg_device_registers, of "GPIO_PIN 1 1" io0]
    by (auto simp: GPIO_PIN_def io0_def)
qed

end
