(* ===== verification/Led.thy ===== *)
theory Led
  imports Gpio
begin

text \<open>
  The front LEDs of the EV3, \<^verbatim>\<open>kernel/drivers/led.c\<close>, and the light show of \<^verbatim>\<open>kernel/demo/demo_led.c\<close>. Every LED has a
  red and a green pin; \<^verbatim>\<open>led_set\<close> is an update of these pins in the abstract pin state.
\<close>

section \<open>kernel/drivers/led.h and led.c\<close>

text \<open>The enumerations are used as bit sets.\<close>

definition LED_LEFT :: u32 where [const_defs]: "LED_LEFT = 0x01"
definition LED_RIGHT :: u32 where [const_defs]: "LED_RIGHT = 0x02"
definition LED_BOTH :: u32 where [const_defs]: "LED_BOTH = LED_LEFT OR LED_RIGHT"
definition LED_BLACK :: u32 where [const_defs]: "LED_BLACK = 0x00"
definition LED_RED :: u32 where [const_defs]: "LED_RED = 0x01"
definition LED_GREEN :: u32 where [const_defs]: "LED_GREEN = 0x02"
definition LED_ORANGE :: u32 where [const_defs]: "LED_ORANGE = LED_RED OR LED_GREEN"

record led_info =
  pin1 :: u32
  pin2 :: u32

definition leds :: "led_info list" where
  "leds = [\<lparr>pin1 = GPIO_PIN 6 13, pin2 = GPIO_PIN 6 7\<rparr>, \<lparr>pin1 = GPIO_PIN 6 12, pin2 = GPIO_PIN 6 14\<rparr>]"

definition led_set :: "device \<Rightarrow> u32 \<Rightarrow> u32 \<Rightarrow> 's io_state_scheme \<Rightarrow> 's io_state_scheme option" where
  "led_set dev led color s =
     do { s \<leftarrow> (if led AND LED_LEFT \<noteq> 0
             then do { s \<leftarrow> gpio_set dev (pin1 (leds ! 0)) (color AND 1) s;
                       gpio_set dev (pin2 (leds ! 0)) (drop_bit 1 (color AND 2)) s }
             else Some s);
          if led AND LED_RIGHT \<noteq> 0
          then do { s \<leftarrow> gpio_set dev (pin1 (leds ! 1)) (color AND 1) s;
                    gpio_set dev (pin2 (leds ! 1)) (drop_bit 1 (color AND 2)) s }
          else Some s }"

definition led_init :: "device \<Rightarrow> 's io_state_scheme \<Rightarrow> 's io_state_scheme option" where
  "led_init dev s =
     do { s \<leftarrow> gpio_init_outpin dev (pin1 (leds ! 0)) s;
          s \<leftarrow> gpio_init_outpin dev (pin2 (leds ! 0)) s;
          s \<leftarrow> gpio_init_outpin dev (pin1 (leds ! 1)) s;
          gpio_init_outpin dev (pin2 (leds ! 1)) s }"

section \<open>kernel/demo/demo_led.c\<close>

text \<open>The delay loop counts a volatile local variable up to \<open>ticks\<close> and has no other effect.\<close>

function spin_loop :: "u32 \<Rightarrow> u32 \<Rightarrow> u32" where
  "spin_loop ticks timer = (if timer < ticks then spin_loop ticks (timer + 1) else timer)"
  by pat_completeness auto
termination
  by (relation "measure (\<lambda>(ticks, timer). unat ticks - unat timer)")
    (auto simp: unat_Suc_less word_less_nat_alt)

declare spin_loop.simps [simp del]

definition spin :: "u32 \<Rightarrow> 's io_state_scheme \<Rightarrow> 's io_state_scheme" where
  "spin ticks s = (let timer = spin_loop ticks 0 in s)"

fun blink_loop :: "device \<Rightarrow> u32 \<Rightarrow> u32 \<Rightarrow> nat \<Rightarrow> u32 \<Rightarrow> 's io_state_scheme \<Rightarrow> 's io_state_scheme option" where
  "blink_loop dev led color 0 i s = Some s"
| "blink_loop dev led color (Suc n) i s =
     do { s \<leftarrow> led_set dev led (if i AND 1 \<noteq> 0 then LED_BLACK else color) s;
          let s = spin (512 * 1024) s;
          blink_loop dev led color n (i + 1) s }"

definition blink :: "device \<Rightarrow> u32 \<Rightarrow> u32 \<Rightarrow> 's io_state_scheme \<Rightarrow> 's io_state_scheme option" where
  "blink dev led color s = blink_loop dev led color 6 0 s"

definition flash_LR :: "device \<Rightarrow> u32 \<Rightarrow> 's io_state_scheme \<Rightarrow> 's io_state_scheme option" where
  "flash_LR dev color s =
     do { s \<leftarrow> led_set dev LED_LEFT color s;
          let s = spin (64 * 1024) s;
          s \<leftarrow> led_set dev LED_BOTH LED_BLACK s;
          s \<leftarrow> led_set dev LED_RIGHT color s;
          let s = spin (64 * 1024) s;
          s \<leftarrow> led_set dev LED_BOTH LED_BLACK s;
          Some (spin (512 * 1024) s) }"

definition flash_RL :: "device \<Rightarrow> u32 \<Rightarrow> 's io_state_scheme \<Rightarrow> 's io_state_scheme option" where
  "flash_RL dev color s =
     do { s \<leftarrow> led_set dev LED_RIGHT color s;
          let s = spin (64 * 1024) s;
          s \<leftarrow> led_set dev LED_BOTH LED_BLACK s;
          s \<leftarrow> led_set dev LED_LEFT color s;
          let s = spin (64 * 1024) s;
          s \<leftarrow> led_set dev LED_BOTH LED_BLACK s;
          Some (spin (512 * 1024) s) }"

definition demo_led :: "device \<Rightarrow> 's io_state_scheme \<Rightarrow> 's io_state_scheme option" where
  "demo_led dev s =
     do { s \<leftarrow> led_set dev LED_LEFT LED_GREEN s;
          let s = spin (512 * 1024) s;
          s \<leftarrow> led_set dev LED_BOTH LED_BLACK s;
          let s = spin (512 * 1024) s;
          s \<leftarrow> led_set dev LED_RIGHT LED_GREEN s;
          let s = spin (512 * 1024) s;
          s \<leftarrow> led_set dev LED_BOTH LED_BLACK s;
          let s = spin (512 * 1024) s;
          s \<leftarrow> blink dev LED_BOTH LED_GREEN s;
          let s = spin (1024 * 1024) s;
          s \<leftarrow> flash_RL dev LED_RED s;
          s \<leftarrow> flash_LR dev LED_RED s;
          let s = spin (512 * 1024) s;
          s \<leftarrow> flash_RL dev LED_GREEN s;
          s \<leftarrow> flash_RL dev LED_RED s;
          s \<leftarrow> flash_RL dev LED_ORANGE s;
          s \<leftarrow> blink dev LED_BOTH LED_RED s;
          s \<leftarrow> led_set dev LED_LEFT LED_GREEN s;
          let s = spin (1024 * 1024) s;
          s \<leftarrow> led_set dev LED_RIGHT LED_RED s;
          let s = spin (1024 * 1024) s;
          s \<leftarrow> blink dev LED_LEFT LED_GREEN s;
          s \<leftarrow> blink dev LED_RIGHT LED_RED s;
          s \<leftarrow> led_set dev LED_BOTH LED_ORANGE s;
          let s = spin (1024 * 1024) s;
          s \<leftarrow> blink dev LED_BOTH LED_ORANGE s;
          Some (spin (2 * 1024 * 1024) s) }"

section \<open>The pins of the LEDs\<close>

definition led_pins :: "u32 set" where
  "led_pins = {GPIO_PIN 6 13, GPIO_PIN 6 7, GPIO_PIN 6 12, GPIO_PIN 6 14}"

lemma led_known: "known (GPIO_PIN 6 13)" "known (GPIO_PIN 6 7)" "known (GPIO_PIN 6 12)" "known (GPIO_PIN 6 14)"
  by (rule known_pin, simp_all add: GPIO_PIN_def pininfo_table)+

lemma spin_id [simp]: "spin ticks s = s"
  by (simp add: spin_def)

text \<open>What \<^verbatim>\<open>led_set\<close> does to the pins: red is bit 0 and green is bit 1 of the colour.\<close>

definition show_led :: "u32 \<Rightarrow> u32 \<Rightarrow> pins \<Rightarrow> pins" where
  "show_led led color V =
     (let V = (if bit led 0
               then V(GPIO_PIN 6 13 \<mapsto> out_pin (GPIO_PIN 6 13) (bit color 0), GPIO_PIN 6 7 \<mapsto> out_pin (GPIO_PIN 6 7) (bit color 1))
               else V)
      in if bit led 1
         then V(GPIO_PIN 6 12 \<mapsto> out_pin (GPIO_PIN 6 12) (bit color 0), GPIO_PIN 6 14 \<mapsto> out_pin (GPIO_PIN 6 14) (bit color 1))
         else V)"

lemma and_bits:
  "((c :: u32) AND 1 \<noteq> 0) = bit c 0" "(c AND 1 = 0) = (\<not> bit c 0)"
  "((c :: u32) AND 2 \<noteq> 0) = bit c 1" "(c AND 2 = 0) = (\<not> bit c 1)"
  "(drop_bit 1 (c AND 2) \<noteq> 0) = bit c 1" "(drop_bit 1 (c AND 2) = 0) = (\<not> bit c 1)"
proof -
  show *: "((c :: u32) AND 1 \<noteq> 0) = bit c 0" "(c AND 2 \<noteq> 0) = bit c 1"
    using and_exp_eq_0_iff_not_bit [of c 0] and_exp_eq_0_iff_not_bit [of c 1] by simp_all
  then show "(c AND 1 = 0) = (\<not> bit c 0)" "(c AND 2 = 0) = (\<not> bit c 1)" by blast+
  have "drop_bit 1 (c AND 2) = (if bit c 1 then 1 else 0)"
  proof (rule bit_word_eqI)
    fix n
    show "bit (drop_bit 1 (c AND 2)) n = bit (if bit c 1 then 1 else 0 :: u32) n"
      using bit_exp_iff [where ?'a = "32 word", of 1 "Suc n"] by (cases n) (auto simp: bit_simps bit_1_iff)
  qed
  then show "(drop_bit 1 (c AND 2) \<noteq> 0) = bit c 1" "(drop_bit 1 (c AND 2) = 0) = (\<not> bit c 1)" by simp_all
qed

lemma led_set_pins:
  assumes "gpio_registers init dev"
  shows "pin_op init (led_set dev led color) (show_led led color)"
proof -
  have left: "pin_op init (\<lambda>s. gpio_set dev (GPIO_PIN 6 13) (color AND 1) s \<bind> gpio_set dev (GPIO_PIN 6 7) (drop_bit 1 (color AND 2)))
      (\<lambda>V. V(GPIO_PIN 6 13 \<mapsto> out_pin (GPIO_PIN 6 13) (bit color 0), GPIO_PIN 6 7 \<mapsto> out_pin (GPIO_PIN 6 7) (bit color 1)))"
    using pin_op_bind [OF pin_op_gpio_set [OF led_known(1) assms] pin_op_gpio_set [OF led_known(2) assms], of "color AND 1" "drop_bit 1 (color AND 2)"]
    by (simp only: and_bits not_not)
  have right: "pin_op init (\<lambda>s. gpio_set dev (GPIO_PIN 6 12) (color AND 1) s \<bind> gpio_set dev (GPIO_PIN 6 14) (drop_bit 1 (color AND 2)))
      (\<lambda>V. V(GPIO_PIN 6 12 \<mapsto> out_pin (GPIO_PIN 6 12) (bit color 0), GPIO_PIN 6 14 \<mapsto> out_pin (GPIO_PIN 6 14) (bit color 1)))"
    using pin_op_bind [OF pin_op_gpio_set [OF led_known(3) assms] pin_op_gpio_set [OF led_known(4) assms], of "color AND 1" "drop_bit 1 (color AND 2)"]
    by (simp only: and_bits not_not)
  show ?thesis
    using left right pin_op_bind [OF left right] pin_op_Some
    by (cases "bit led 0"; cases "bit led 1")
      (simp_all add: led_set_def [abs_def] leds_def LED_LEFT_def LED_RIGHT_def and_bits show_led_def [abs_def] del: fun_upd_apply)
qed

text \<open>
  Property: \<^verbatim>\<open>led_set\<close> shows the colour. It returns; the red pin of every LED in \<open>led\<close> gets bit 0 of the colour and its
  green pin bit 1, as outputs with their GPIO function; the other LED and all other pins are as they were.
\<close>

theorem led_set_shows:
  assumes "gpio_registers init dev"
  shows "\<exists>s'. led_set dev led color s = Some s' \<and> console s' = console s \<and>
    pin_view init (io s') = show_led led color (pin_view init (io s))"
  using pin_opD [OF led_set_pins [OF assms], of led color s] bus_only_console by blast

theorem led_set_shows_witness:
  "\<exists>s'. led_set reg_device LED_RIGHT LED_ORANGE io0 = Some s' \<and>
     pin_view (\<lambda>_. 0) (io s') 0x6C = Some (out_pin 0x6C True) \<and> pin_view (\<lambda>_. 0) (io s') 0x6E = Some (out_pin 0x6E True) \<and>
     pin_view (\<lambda>_. 0) (io s') 0x6D = pin_view (\<lambda>_. 0) [] 0x6D"
  using led_set_shows [OF reg_device_registers, of LED_RIGHT LED_ORANGE io0]
  by (auto simp: show_led_def const_defs io0_def)

section \<open>The light show\<close>

text \<open>Routines that touch only the LED pins, and those that leave all LEDs dark.\<close>

definition led_op :: "(addr \<Rightarrow> u32) \<Rightarrow> ('s io_state_scheme \<Rightarrow> 's io_state_scheme option) \<Rightarrow> bool" where
  "led_op init f \<longleftrightarrow> (\<exists>F. pin_op init f F \<and> (\<forall>V q. q \<notin> led_pins \<longrightarrow> F V q = V q))"

definition dark :: "pins \<Rightarrow> pins" where
  "dark V = (\<lambda>q. if q \<in> led_pins then Some (out_pin q False) else V q)"

definition dark_op :: "(addr \<Rightarrow> u32) \<Rightarrow> ('s io_state_scheme \<Rightarrow> 's io_state_scheme option) \<Rightarrow> bool" where
  "dark_op init f \<longleftrightarrow> pin_op init f dark"

lemma led_op_bind:
  assumes "led_op init f" "led_op init g"
  shows "led_op init (\<lambda>s. f s \<bind> g)"
proof -
  obtain F where F: "pin_op init f F" "\<And>V q. q \<notin> led_pins \<Longrightarrow> F V q = V q"
    using assms(1) by (auto simp: led_op_def)
  obtain G where G: "pin_op init g G" "\<And>V q. q \<notin> led_pins \<Longrightarrow> G V q = V q"
    using assms(2) by (auto simp: led_op_def)
  have "G (F V) q = V q" if "q \<notin> led_pins" for V q using F(2) [OF that] G(2) [OF that] by simp
  with pin_op_bind [OF F(1) G(1)] show ?thesis unfolding led_op_def by blast
qed

lemma led_op_Some: "led_op init Some"
  unfolding led_op_def using pin_op_Some by blast

lemma dark_op_bind:
  assumes "led_op init f" "dark_op init g"
  shows "dark_op init (\<lambda>s. f s \<bind> g)"
proof -
  obtain F where F: "pin_op init f F" "\<And>V q. q \<notin> led_pins \<Longrightarrow> F V q = V q"
    using assms(1) by (auto simp: led_op_def)
  have "(\<lambda>V. dark (F V)) = dark" using F(2) by (auto simp: dark_def fun_eq_iff)
  with pin_op_bind [OF F(1) assms(2) [unfolded dark_op_def]] show ?thesis by (simp add: dark_op_def)
qed

lemma led_op_dark: "dark_op init f \<Longrightarrow> led_op init f"
  unfolding led_op_def dark_op_def by (rule exI [of _ dark]) (simp add: dark_def)

lemma show_led_other: "q \<notin> led_pins \<Longrightarrow> show_led led color V q = V q"
  by (simp add: show_led_def led_pins_def)

lemma show_led_black: "show_led LED_BOTH LED_BLACK = dark"
  by (auto simp: show_led_def dark_def led_pins_def const_defs fun_eq_iff)

lemma led_op_set: "gpio_registers init dev \<Longrightarrow> led_op init (led_set dev led color)"
  unfolding led_op_def using led_set_pins show_led_other by blast

lemma dark_op_set: "gpio_registers init dev \<Longrightarrow> dark_op init (led_set dev LED_BOTH LED_BLACK)"
  using led_set_pins [of init dev LED_BOTH LED_BLACK] by (simp add: dark_op_def show_led_black)

lemma led_op_blink_loop: "gpio_registers init dev \<Longrightarrow> led_op init (blink_loop dev led color n i)"
proof (induction n arbitrary: i)
  case 0
  have "blink_loop dev led color 0 i = Some" by (simp add: fun_eq_iff)
  then show ?case by (simp add: led_op_Some)
next
  case (Suc n)
  have step: "blink_loop dev led color (Suc n) i =
      (\<lambda>s. led_set dev led (if i AND 1 \<noteq> 0 then LED_BLACK else color) s \<bind> blink_loop dev led color n (i + 1))"
    by (simp add: fun_eq_iff)
  show ?case unfolding step by (intro led_op_bind led_op_set Suc)
qed

lemma led_op_blink: "gpio_registers init dev \<Longrightarrow> led_op init (blink dev led color)"
  unfolding blink_def [abs_def] by (rule led_op_blink_loop)

lemma dark_op_blink_step:
  assumes "gpio_registers init dev" "dark_op init (blink_loop dev LED_BOTH color n (i + 1) :: 's io_state_scheme \<Rightarrow> _)"
  shows "dark_op init (blink_loop dev LED_BOTH color (Suc n) i :: 's io_state_scheme \<Rightarrow> _)"
proof -
  have step: "blink_loop dev LED_BOTH color (Suc n) i =
      (\<lambda>s. led_set dev LED_BOTH (if i AND 1 \<noteq> 0 then LED_BLACK else color) s \<bind> blink_loop dev LED_BOTH color n (i + 1))"
    by (simp add: fun_eq_iff)
  show ?thesis unfolding step by (intro dark_op_bind led_op_set assms)
qed

text \<open>The last pass of \<^verbatim>\<open>blink\<close> is an odd one and switches off.\<close>

lemma dark_op_blink:
  assumes "gpio_registers init dev"
  shows "dark_op init (blink dev LED_BOTH color :: 's io_state_scheme \<Rightarrow> _)"
proof -
  have last: "blink_loop dev LED_BOTH color 1 5 = led_set dev LED_BOTH LED_BLACK"
    by (simp add: fun_eq_iff)
  have "dark_op init (blink_loop dev LED_BOTH color 1 5 :: 's io_state_scheme \<Rightarrow> _)" unfolding last by (rule dark_op_set [OF assms])
  then have "dark_op init (blink_loop dev LED_BOTH color (Suc (Suc (Suc (Suc (Suc 1))))) 0 :: 's io_state_scheme \<Rightarrow> _)"
    by (intro dark_op_blink_step assms) simp
  then show ?thesis by (simp add: blink_def [abs_def] eval_nat_numeral del: blink_loop.simps)
qed

lemma flash_dark:
  assumes "gpio_registers init dev"
  shows "dark_op init (flash_LR dev color)" "dark_op init (flash_RL dev color)"
proof -
  have id: "(\<lambda>s. Some s) = Some" for s by simp
  show "dark_op init (flash_LR dev color)" "dark_op init (flash_RL dev color)"
    unfolding flash_LR_def [abs_def] flash_RL_def [abs_def] spin_id Let_def bind_runit
    by (intro dark_op_bind dark_op_set led_op_set assms)+
qed



end
