(* ===== verification/Button.thy ===== *)
theory Button
  imports Gpio
begin

text \<open>The buttons of the EV3, \<^verbatim>\<open>kernel/drivers/button.c\<close>: one input pin each.\<close>

section \<open>kernel/drivers/button.h and button.c\<close>

datatype button_id = BUTTON_LEFT | BUTTON_RIGHT | BUTTON_TOP | BUTTON_BOTTOM | BUTTON_CENTER | BUTTON_BACK

fun button_no :: "button_id \<Rightarrow> nat" where
  "button_no BUTTON_LEFT = 0x00"
| "button_no BUTTON_RIGHT = 0x01"
| "button_no BUTTON_TOP = 0x02"
| "button_no BUTTON_BOTTOM = 0x03"
| "button_no BUTTON_CENTER = 0x04"
| "button_no BUTTON_BACK = 0x05"

datatype button_state = BUTTON_UP | BUTTON_DOWN

record button_info =
  button_pin :: u32

definition buttons :: "button_info list" where
  "buttons =
    [\<lparr>button_pin = GPIO_PIN 6  6\<rparr>,
     \<lparr>button_pin = GPIO_PIN 7 12\<rparr>,
     \<lparr>button_pin = GPIO_PIN 7 15\<rparr>,
     \<lparr>button_pin = GPIO_PIN 7 14\<rparr>,
     \<lparr>button_pin = GPIO_PIN 1 13\<rparr>,
     \<lparr>button_pin = GPIO_PIN 6 10\<rparr>]"

abbreviation pin_of :: "button_id \<Rightarrow> u32" where
  "pin_of b \<equiv> button_pin (buttons ! button_no b)"

text \<open>The value of \<^verbatim>\<open>gpio_get\<close>, 0 or 1, is the state.\<close>

definition button_get_state :: "device \<Rightarrow> button_id \<Rightarrow> 's io_state_scheme \<Rightarrow> (button_state \<times> 's io_state_scheme) option" where
  "button_get_state dev button s =
     do { (v, s) \<leftarrow> gpio_get dev (pin_of button) s;
          Some (if v = 0 then BUTTON_UP else BUTTON_DOWN, s) }"

definition button_init :: "device \<Rightarrow> 's io_state_scheme \<Rightarrow> 's io_state_scheme option" where
  "button_init dev s =
     do { s \<leftarrow> gpio_init_inpin dev (button_pin (buttons ! 0)) s;
          s \<leftarrow> gpio_init_inpin dev (button_pin (buttons ! 1)) s;
          s \<leftarrow> gpio_init_inpin dev (button_pin (buttons ! 2)) s;
          s \<leftarrow> gpio_init_inpin dev (button_pin (buttons ! 3)) s;
          s \<leftarrow> gpio_init_inpin dev (button_pin (buttons ! 4)) s;
          s \<leftarrow> gpio_init_inpin dev (button_pin (buttons ! 5)) s;
          Some (rmw32 dev (SYSCFG1_BASE + 0x10) (\<lambda>v. v AND 0xFDFFFFFF) s) }"

section \<open>Properties\<close>

lemma button_known: "list_all (\<lambda>b. known (button_pin b)) buttons"
  by (simp add: buttons_def GPIO_PIN_def known_def) (simp add: pininfo_table)

lemma button_no_less: "button_no b < length buttons"
  by (cases b) (simp_all add: buttons_def)

lemma pin_of_known: "known (pin_of b)"
  using button_known button_no_less [of b] by (simp add: list_all_length)

text \<open>
  Property: \<^verbatim>\<open>button_get_state\<close> returns, and a button is down exactly when the bit of its pin is set in the input
  register, read last and while the pin is an input; no other pin changes.
\<close>

theorem button_get_state_samples:
  assumes "gpio_registers init dev"
  shows "\<exists>r s' h w. button_get_state dev b s = Some (r, s') \<and> console s' = console s \<and>
    (r = BUTTON_DOWN \<longleftrightarrow> bit (dev h 4 (GPIO_BANK (pin_of b) + 0x10)) (pin_bit (pin_of b))) \<and>
    io s' = In 4 (GPIO_BANK (pin_of b) + 0x10) w # h \<and>
    pin_view init h = (pin_view init (io s))(pin_of b \<mapsto> in_pin (pin_of b) (level (io s) (pin_of b)))"
proof -
  obtain s' h w where g: "gpio_get dev (pin_of b) s =
        Some (if bit (dev h 4 (GPIO_BANK (pin_of b) + 0x10)) (pin_bit (pin_of b)) then 1 else 0, s')"
      "io s' = In 4 (GPIO_BANK (pin_of b) + 0x10) w # h" "console s' = console s"
      "pin_view init h = (pin_view init (io s))(pin_of b \<mapsto> in_pin (pin_of b) (level (io s) (pin_of b)))"
    using gpio_get_view [OF pin_of_known assms, of b s] by blast
  then show ?thesis
    by (intro exI [of _ "if bit (dev h 4 (GPIO_BANK (pin_of b) + 0x10)) (pin_bit (pin_of b)) then BUTTON_DOWN else BUTTON_UP"]
        exI [of _ s'] exI [of _ h] exI [of _ w]) (simp add: button_get_state_def)
qed

definition pressed_right :: device where
  "pressed_right h w a = (if a = 0x01E26098 then 0x10000000 else reg_device h w a)"

lemma pressed_right_registers: "gpio_registers (\<lambda>_. 0) pressed_right"
proof -
  have "\<not> config_reg 0x01E26098"
    using bank_cases by (fastforce simp: config_reg_def is_pinmux_def gpio_reg_defs const_defs)
  then show ?thesis by (auto simp: gpio_registers_def pressed_right_def reg_device_def)
qed

theorem button_get_state_samples_witness:
  "\<exists>s'. button_get_state pressed_right BUTTON_RIGHT io0 = Some (BUTTON_DOWN, s')"
proof -
  have "pin_of BUTTON_RIGHT = 0x7C" by (simp add: buttons_def GPIO_PIN_def)
  moreover have "GPIO_BANK 0x7C + 0x10 = 0x01E26098" "pin_bit 0x7C = 28" "bit (0x10000000 :: u64) 28"
    by (simp_all add: GPIO_BANK_def GPIO_BASE_def pin_bit_def bit_iff_odd)
  then have "bit (pressed_right h 4 (GPIO_BANK 0x7C + 0x10)) (pin_bit 0x7C)" for h
    by (simp only: pressed_right_def simp_thms if_True)
  ultimately show ?thesis
    using button_get_state_samples [OF pressed_right_registers, of BUTTON_RIGHT io0] by auto
qed

text \<open>After start-up every button is an input, and only the pins of the buttons have changed.\<close>

lemma button_init_op:
  assumes "gpio_registers init dev"
  shows "\<exists>F. pin_op init (button_init dev :: 's io_state_scheme \<Rightarrow> _) F \<and>
    (\<forall>V q. F V q = (if q \<in> button_pin ` set buttons then Some (in_pin q (is_high (the (V q)))) else V q))"
proof -
  have off: "off_gpio (SYSCFG1_BASE + 0x10)" by (simp add: off_gpio_def is_pinmux_def const_defs)
  have k: "known (button_pin (buttons ! 0))" "known (button_pin (buttons ! 1))" "known (button_pin (buttons ! 2))"
      "known (button_pin (buttons ! 3))" "known (button_pin (buttons ! 4))" "known (button_pin (buttons ! 5))"
    using button_known by (simp_all add: buttons_def)
  note ops = pin_op_bind [OF pin_op_inpin [OF k(1) assms] pin_op_bind [OF pin_op_inpin [OF k(2) assms]
      pin_op_bind [OF pin_op_inpin [OF k(3) assms] pin_op_bind [OF pin_op_inpin [OF k(4) assms]
      pin_op_bind [OF pin_op_inpin [OF k(5) assms] pin_op_bind [OF pin_op_inpin [OF k(6) assms] pin_op_rmw32 [OF off]]]]]]]
  show ?thesis
    unfolding button_init_def [abs_def]
    by (rule exI, rule conjI, rule ops) (simp add: buttons_def GPIO_PIN_def)
qed

end
