(* ===== verification/Spi.thy ===== *)
theory Spi
  imports Gpio Polling
begin

text \<open>
  The serial bus of the EV3 and the converter behind it: \<^verbatim>\<open>kernel/drivers/spi.c\<close> and \<^verbatim>\<open>kernel/drivers/adc.c\<close>.
  \<^verbatim>\<open>spi_update\<close> polls the buffer register without a bound; \<open>poll\<close> is the history after a number of polls, and
  the driver returns exactly when some poll finds the flag clear. The static variables that hold the initial
  registers between start and shutdown are the record \<open>spi_saved\<close>.
\<close>

section \<open>Constants\<close>

definition SPI0_CLOCK :: u32 where [const_defs]: "SPI0_CLOCK = 150000000"
definition ADC_TIME :: u32 where [const_defs]: "ADC_TIME = 8"
definition ADC_CLOCK :: u32 where [const_defs]: "ADC_CLOCK = (1000000 * 16) div ADC_TIME"
definition CNVSPD :: u32 where [const_defs]: "CNVSPD = (SPI0_CLOCK div ADC_CLOCK) - 1"

definition SPI0_OFFSET :: u32 where [const_defs]: "SPI0_OFFSET = GPIO_PIN 9 0 + 5"
definition SPI0_MOSI :: u32 where [const_defs]: "SPI0_MOSI = SPI0_OFFSET + 0"
definition SPI0_MISO :: u32 where [const_defs]: "SPI0_MISO = SPI0_OFFSET + 1"
definition SPI0_SCL :: u32 where [const_defs]: "SPI0_SCL = SPI0_OFFSET + 2"
definition SPI0_CS :: u32 where [const_defs]: "SPI0_CS = SPI0_OFFSET + 3"

definition SPI_BASE :: addr where [const_defs]: "SPI_BASE = 0x01C41000"
definition SPIGCR0 :: addr where [const_defs]: "SPIGCR0 = SPI_BASE + 0x00"
definition SPIGCR1 :: addr where [const_defs]: "SPIGCR1 = SPI_BASE + 0x04"
definition SPIINT0 :: addr where [const_defs]: "SPIINT0 = SPI_BASE + 0x08"
definition SPIPC0 :: addr where [const_defs]: "SPIPC0 = SPI_BASE + 0x14"
definition SPIDAT0 :: addr where [const_defs]: "SPIDAT0 = SPI_BASE + 0x38"
definition SPIDAT1 :: addr where [const_defs]: "SPIDAT1 = SPI_BASE + 0x3C"
definition SPIBUF :: addr where [const_defs]: "SPIBUF = SPI_BASE + 0x40"
definition SPIDELAY :: addr where [const_defs]: "SPIDELAY = SPI_BASE + 0x48"
definition SPIDEF :: addr where [const_defs]: "SPIDEF = SPI_BASE + 0x4C"
definition SPIFMT0 :: addr where [const_defs]: "SPIFMT0 = SPI_BASE + 0x50"

section \<open>kernel/drivers/spi.c\<close>

text \<open>\<^verbatim>\<open>while (SPITxFULL);\<close> and \<^verbatim>\<open>while (SPIRxEMPTY);\<close>, with the mask of the flag.\<close>

definition SPITxFULL :: u32 where [const_defs]: "SPITxFULL = 0x20000000"
definition SPIRxEMPTY :: u32 where [const_defs]: "SPIRxEMPTY = 0x80000000"

partial_function (option) spi_wait :: "device \<Rightarrow> u32 \<Rightarrow> 's io_state_scheme \<Rightarrow> 's io_state_scheme option" where
  "spi_wait dev flag s =
     (let (v, s) = read32 dev SPIBUF s in if v AND flag \<noteq> 0 then spi_wait dev flag s else Some s)"

definition spi_update :: "device \<Rightarrow> u16 \<Rightarrow> 's io_state_scheme \<Rightarrow> (u16 \<times> 's io_state_scheme) option" where
  "spi_update dev data s =
     do { s \<leftarrow> spi_wait dev SPITxFULL s;
          let s = write32 SPIDAT0 (ucast data) s;
          s \<leftarrow> spi_wait dev SPIRxEMPTY s;
          let (v, s) = read32 dev SPIBUF s;
          Some (ucast (v AND 0x0000FFFF), s) }"

record spi_saved =
  save_GCR0 :: u32
  save_GCR1 :: u32
  save_PC0 :: u32
  save_DAT1 :: u32
  save_FMT0 :: u32
  save_DELAY :: u32
  save_DEF :: u32

definition spi_init :: "device \<Rightarrow> 's io_state_scheme \<Rightarrow> (spi_saved \<times> 's io_state_scheme) option" where
  "spi_init dev s =
     do { s \<leftarrow> gpio_init_pin dev SPI0_MOSI s;
          s \<leftarrow> gpio_init_pin dev SPI0_MISO s;
          s \<leftarrow> gpio_init_pin dev SPI0_SCL s;
          s \<leftarrow> gpio_init_pin dev SPI0_CS s;
          let (gcr0, s) = read32 dev SPIGCR0 s;
          let (gcr1, s) = read32 dev SPIGCR1 s;
          let (pc0, s) = read32 dev SPIPC0 s;
          let (dat1, s) = read32 dev SPIDAT1 s;
          let (fmt0, s) = read32 dev SPIFMT0 s;
          let (delay, s) = read32 dev SPIDELAY s;
          let (def, s) = read32 dev SPIDEF s;
          let s = write32 SPIGCR0 0x00000001 s;
          let s = write32 SPIGCR1 0x00000003 s;
          let s = write32 SPIPC0 0x00000E08 s;
          let s = write32 SPIDAT1 0x00000000 s;
          let s = write32 SPIFMT0 (0x00010010 OR (push_bit 8 CNVSPD AND 0xFF00)) s;
          let s = write32 SPIDELAY 0x0A0A0A0A s;
          let s = write32 SPIINT0 0x00000000 s;
          let s = write32 SPIDEF 0x00000008 s;
          let s = write32 SPIGCR1 0x01000003 s;
          Some (\<lparr>save_GCR0 = gcr0, save_GCR1 = gcr1, save_PC0 = pc0, save_DAT1 = dat1, save_FMT0 = fmt0,
                 save_DELAY = delay, save_DEF = def\<rparr>, s) }"

definition spi_fini :: "spi_saved \<Rightarrow> 's io_state_scheme \<Rightarrow> 's io_state_scheme" where
  "spi_fini saved s =
     (let s = write32 SPIGCR0 (save_GCR0 saved) s;
          s = write32 SPIGCR1 (save_GCR1 saved) s;
          s = write32 SPIPC0 (save_PC0 saved) s;
          s = write32 SPIDAT1 (save_DAT1 saved) s;
          s = write32 SPIFMT0 (save_FMT0 saved) s;
          s = write32 SPIDELAY (save_DELAY saved) s
      in write32 SPIDEF (save_DEF saved) s)"

section \<open>kernel/drivers/adc.c\<close>

definition adc_get :: "device \<Rightarrow> u16 \<Rightarrow> 's io_state_scheme \<Rightarrow> (u16 \<times> 's io_state_scheme) option" where
  "adc_get dev channel s =
     do { (v, s) \<leftarrow> spi_update dev (0x1840 OR push_bit 7 (channel AND 0x000F)) s;
          Some (v AND 0x0FFF, s) }"

definition adc_init :: "device \<Rightarrow> 's io_state_scheme \<Rightarrow> 's io_state_scheme option" where
  "adc_init dev s =
     do { s \<leftarrow> gpio_init_pin dev (GPIO_PIN 6 14) s;
          s \<leftarrow> gpio_init_pin dev (GPIO_PIN 0 6) s;
          let s = write32 (GPIO_SET (GPIO_PIN 0 6)) (GPIO_MASK (GPIO_PIN 0 6)) s;
          let s = rmw32 dev (GPIO_DIR (GPIO_PIN 0 6)) (\<lambda>v. v AND NOT (GPIO_MASK (GPIO_PIN 0 6))) s;
          (_, s) \<leftarrow> spi_update dev 0x400F s;
          (_, s) \<leftarrow> spi_update dev 0x400F s;
          (_, s) \<leftarrow> spi_update dev 0x400F s;
          (_, s) \<leftarrow> spi_update dev 0x400F s;
          (_, s) \<leftarrow> spi_update dev 0x400F s;
          (_, s) \<leftarrow> spi_update dev 0x400F s;
          Some s }"

section \<open>Polling\<close>

abbreviation poll :: "device \<Rightarrow> nat \<Rightarrow> io_event list \<Rightarrow> io_event list" where
  "poll dev \<equiv> polls dev 4 SPIBUF"

lemma ucast_low: "ucast (take_bit 32 (v :: u64)) = (ucast v :: u32)"
  by (rule bit_word_eqI) (simp add: bit_simps)

interpretation spi: polling_loop "\<lambda>dev. spi_wait dev flag" 4 SPIBUF "\<lambda>v. (ucast v :: u32) AND flag \<noteq> 0" for flag
  by standard (subst spi_wait.simps, simp add: read32_def split_beta Let_def)

lemma spi_wait_returns:
  assumes "ucast (dev (poll dev k (io s)) 4 SPIBUF) AND flag = 0"
  shows "\<exists>k. spi_wait dev flag s = Some (s\<lparr>io := poll dev (Suc k) (io s)\<rparr>) \<and>
    ucast (dev (poll dev k (io s)) 4 SPIBUF) AND flag = 0"
  using spi.loop_returns [where flag = flag and dev = dev and k = k and s = s] assms by (auto simp: polled_def ucast_low)

text \<open>
  Property C20: when the wait of the serial bus ends. The loop of \<^verbatim>\<open>spi_update\<close> returns exactly when some poll of the
  buffer register finds the flag clear.
\<close>

theorem spi_wait_terminates:
  "(\<exists>s'. spi_wait dev flag s = Some s') \<longleftrightarrow> (\<exists>k. ucast (dev (poll dev k (io s)) 4 SPIBUF) AND flag = 0)"
proof
  assume "\<exists>s'. spi_wait dev flag s = Some s'"
  then obtain s' where "spi_wait dev flag s = Some s'" by blast
  then show "\<exists>k. ucast (dev (poll dev k (io s)) 4 SPIBUF) AND flag = 0"
  proof (rule spi_wait.raw_induct [rotated])
    fix wait and dev :: device and flag and s s' :: "'a io_state_scheme"
    assume IH: "\<And>dev flag s s'. wait dev flag s = Some s' \<Longrightarrow> \<exists>k. ucast (dev (poll dev k (io s)) 4 SPIBUF) AND flag = 0"
      and run: "(let (v, s) = read32 dev SPIBUF s in if v AND flag \<noteq> 0 then wait dev flag s else Some s) = Some s'"
    show "\<exists>k. ucast (dev (poll dev k (io s)) 4 SPIBUF) AND flag = 0"
    proof (cases "ucast (dev (io s) 4 SPIBUF) AND flag = 0")
      case True
      then show ?thesis by (intro exI [of _ 0]) simp
    next
      case False
      let ?s = "s\<lparr>io := In 4 SPIBUF (take_bit 32 (dev (io s) 4 SPIBUF)) # io s\<rparr>"
      from run False have "wait dev flag ?s = Some s'"
        by (simp add: read32_def bus_read_def Let_def ucast_low)
      from IH [OF this] obtain k where "ucast (dev (poll dev k (io ?s)) 4 SPIBUF) AND flag = 0" by blast
      then show ?thesis by (intro exI [of _ "Suc k"]) simp
    qed
  qed
next
  assume "\<exists>k. ucast (dev (poll dev k (io s)) 4 SPIBUF) AND flag = 0"
  then show "\<exists>s'. spi_wait dev flag s = Some s'" using spi_wait_returns by blast
qed

section \<open>Conversions\<close>

text \<open>The words sent so far, oldest first, and a bus that answers each of them.\<close>

fun spi_sent :: "io_event list \<Rightarrow> u16 list" where
  "spi_sent [] = []"
| "spi_sent (In w a v # h) = spi_sent h"
| "spi_sent (Out w a v # h) = spi_sent h @ (if a = SPIDAT0 then [ucast v] else [])"

definition spi_responds :: "(u16 list \<Rightarrow> u16) \<Rightarrow> device \<Rightarrow> bool" where
  "spi_responds answer dev \<longleftrightarrow>
     (\<forall>h. \<forall>flag \<in> {SPITxFULL, SPIRxEMPTY}. \<exists>k. ucast (dev (poll dev k h) 4 SPIBUF) AND flag = 0) \<and>
     (\<forall>h. ucast (dev h 4 SPIBUF) AND SPIRxEMPTY = 0 \<longrightarrow>
        ucast (dev (poll dev 1 h) 4 SPIBUF) AND 0xFFFF = (ucast (answer (spi_sent h)) :: u32))"

lemma poll_frame: "pin_view init (poll dev k h) = pin_view init h" "spi_sent (poll dev k h) = spi_sent h"
  by (induction k arbitrary: h) (simp_all add: In_view)

lemma poll_Suc: "poll dev (Suc k) h = In 4 SPIBUF (take_bit 32 (dev (poll dev k h) 4 SPIBUF)) # poll dev k h"
  by (induction k arbitrary: h) simp_all

lemma spi_off_gpio: "off_gpio SPIDAT0"
  by (simp add: off_gpio_def is_pinmux_def const_defs)

lemma spi_wait_found:
  assumes "spi_responds answer dev" "flag \<in> {SPITxFULL, SPIRxEMPTY}"
  shows "\<exists>k. spi_wait dev flag s = Some (s\<lparr>io := poll dev (Suc k) (io s)\<rparr>) \<and>
    ucast (dev (poll dev k (io s)) 4 SPIBUF) AND flag = 0"
proof -
  obtain k where "ucast (dev (poll dev k (io s)) 4 SPIBUF) AND flag = 0"
    using assms unfolding spi_responds_def by blast
  then show ?thesis by (rule spi_wait_returns)
qed

lemma ucast_low16: "(ucast (ucast (v :: u16) :: u32) :: u16) = v" "(ucast (ucast (ucast (v :: u16) :: u32) :: u64) :: u16) = v"
  by (rule bit_word_eqI, simp add: bit_simps)+

lemma spi_update_answers:
  assumes "spi_responds answer dev"
  shows "\<exists>s'. spi_update dev data s = Some (answer (spi_sent (io s) @ [data]), s') \<and> bus_only s s' \<and>
    spi_sent (io s') = spi_sent (io s) @ [data] \<and> (\<forall>init. pin_view init (io s') = pin_view init (io s))"
proof -
  obtain k where k: "spi_wait dev SPITxFULL s = Some (s\<lparr>io := poll dev (Suc k) (io s)\<rparr>)"
    using spi_wait_found [OF assms, of SPITxFULL s] by blast
  define t where "t = write32 SPIDAT0 (ucast data) (s\<lparr>io := poll dev (Suc k) (io s)\<rparr>)"
  obtain j where j: "spi_wait dev SPIRxEMPTY t = Some (t\<lparr>io := poll dev (Suc j) (io t)\<rparr>)"
      "ucast (dev (poll dev j (io t)) 4 SPIBUF) AND SPIRxEMPTY = 0"
    using spi_wait_found [OF assms, of SPIRxEMPTY t] by blast
  have sent: "spi_sent (io t) = spi_sent (io s) @ [data]"
    by (simp add: t_def write32_def bus_write_def ucast_low16 poll_frame del: polls.simps)
  have view: "pin_view init (io t) = pin_view init (io s)" for init
    by (simp add: t_def write32_view [OF spi_off_gpio] poll_frame del: polls.simps)
  have io: "io t = io t" "t = s\<lparr>io := io t\<rparr>" by (simp_all add: t_def write32_def bus_write_def)
  define w where "w = dev (poll dev (Suc j) (io t)) 4 SPIBUF"
  have "ucast w AND 0xFFFF = (ucast (answer (spi_sent (io s) @ [data])) :: u32)"
    using assms j(2) sent unfolding spi_responds_def w_def by (simp add: poll_Suc poll_frame del: polls.simps(2))
  moreover have "spi_update dev data s = Some (ucast (ucast w AND 0xFFFF :: u32), t\<lparr>io := In 4 SPIBUF (take_bit 32 w) # poll dev (Suc j) (io t)\<rparr>)"
    by (simp add: spi_update_def k j(1) read32_def bus_read_def Let_def ucast_low w_def flip: t_def del: polls.simps)
  ultimately have "spi_update dev data s =
      Some (answer (spi_sent (io s) @ [data]), t\<lparr>io := In 4 SPIBUF (take_bit 32 w) # poll dev (Suc j) (io t)\<rparr>)"
    by (simp add: ucast_low16)
  moreover have "bus_only s (t\<lparr>io := In 4 SPIBUF (take_bit 32 w) # poll dev (Suc j) (io t)\<rparr>)"
    unfolding bus_only_def by (subst io(2)) simp
  ultimately show ?thesis by (simp add: sent view poll_frame In_view del: polls.simps)
qed

lemma adc_get_answers:
  assumes "spi_responds answer dev"
  shows "\<exists>s'. adc_get dev channel s = Some (answer (spi_sent (io s) @ [0x1840 OR push_bit 7 (channel AND 0xF)]) AND 0xFFF, s') \<and>
    bus_only s s' \<and> spi_sent (io s') = spi_sent (io s) @ [0x1840 OR push_bit 7 (channel AND 0xF)] \<and>
    (\<forall>init. pin_view init (io s') = pin_view init (io s))"
  using spi_update_answers [OF assms, of "0x1840 OR push_bit 7 (channel AND 0xF)" s] by (auto simp: adc_get_def)

text \<open>
  Property: one conversion. With a bus that answers, \<^verbatim>\<open>adc_get\<close> returns, has sent one word, the command for the channel,
  gives the low twelve bits of the answer to it, and has not touched a pin or the console.
\<close>

theorem adc_get_converts:
  assumes "spi_responds answer dev"
  shows "\<exists>s'. adc_get dev channel s = Some (answer (spi_sent (io s) @ [0x1840 OR push_bit 7 (channel AND 0xF)]) AND 0xFFF, s') \<and>
    spi_sent (io s') = spi_sent (io s) @ [0x1840 OR push_bit 7 (channel AND 0xF)] \<and>
    console s' = console s \<and> (\<forall>init. pin_view init (io s') = pin_view init (io s))"
  using adc_get_answers [OF assms, of channel s] bus_only_console by blast

definition spi_device :: "(u16 list \<Rightarrow> u16) \<Rightarrow> device" where
  "spi_device answer h w a = (if a = SPIBUF then ucast (answer (spi_sent h)) else ucast (reg (\<lambda>_. 0) h a))"

lemma spi_device_responds: "spi_responds answer (spi_device answer)"
proof -
  have flags: "(ucast (ucast (v :: u16) :: u64) :: u32) AND flag = 0" if "flag \<in> {SPITxFULL, SPIRxEMPTY}" for v flag
  proof -
    have pos: "bit flag n \<Longrightarrow> n = 29 \<or> n = 31" for n
      using that bit_imp_le_length [of flag n]
      by (auto simp: SPITxFULL_def SPIRxEMPTY_def) (auto simp: bit_numeral_rec numeral_eq_Suc less_Suc_eq)
    show ?thesis
    proof (rule bit_word_eqI)
      fix n
      have "\<not> (bit v n \<and> bit flag n)" using pos [of n] bit_imp_le_length [of v n] by auto
      then show "bit ((ucast (ucast v :: u64) :: u32) AND flag) n = bit 0 n" by (simp add: bit_simps)
    qed
  qed
  have "(ucast (ucast (v :: u16) :: u64) :: u32) AND 0xFFFF = ucast v" for v
  proof -
    have m: "(0xFFFF :: u32) = mask 16" by (simp add: mask_eq_exp_minus_1)
    show ?thesis unfolding m by (rule bit_word_eqI) (auto simp: bit_simps dest: bit_imp_le_length)
  qed
  then show ?thesis using flags
    by (auto simp: spi_responds_def spi_device_def poll_frame intro!: exI [of _ 0])
qed

theorem adc_get_converts_witness:
  "\<exists>s'. adc_get (spi_device (\<lambda>cs. last cs)) 6 io0 = Some (0xB40, s') \<and> spi_sent (io s') = [0x1B40]"
  using adc_get_converts [OF spi_device_responds [of "\<lambda>cs. last cs"], of 6 io0] by (auto simp: io0_def)

section \<open>Start and shutdown\<close>

definition spi_config :: "addr list" where
  "spi_config = [SPIGCR0, SPIGCR1, SPIPC0, SPIDAT1, SPIFMT0, SPIDELAY, SPIDEF]"

definition spi_registers :: "(addr \<Rightarrow> u32) \<Rightarrow> device \<Rightarrow> bool" where
  "spi_registers init dev \<longleftrightarrow> (\<forall>h. \<forall>a \<in> set spi_config. dev h 4 a = ucast (reg init h a))"

lemma spi_not_pinmux:
  "\<not> is_pinmux SPIGCR0" "\<not> is_pinmux SPIGCR1" "\<not> is_pinmux SPIPC0" "\<not> is_pinmux SPIDAT1" "\<not> is_pinmux SPIFMT0"
  "\<not> is_pinmux SPIDELAY" "\<not> is_pinmux SPIDEF" "\<not> is_pinmux SPIINT0"
  by (simp_all add: is_pinmux_def const_defs)

lemma spi_differ:
  "distinct [SPIGCR0, SPIGCR1, SPIPC0, SPIDAT1, SPIFMT0, SPIDELAY, SPIDEF, SPIINT0, SYSCFG_KICK 0, SYSCFG_KICK 1]"
  by (simp add: const_defs)

lemma read32_regs: "reg init (io (snd (read32 dev a s))) = reg init (io s)"
  by (simp add: read32_def bus_read_def Let_def reg_In del: reg.simps)

lemma read32_spi:
  "spi_registers init dev \<Longrightarrow> a \<in> set spi_config \<Longrightarrow> fst (read32 dev a s) = reg init (io s) a"
  by (simp add: spi_registers_def read32_def bus_read_def Let_def ucast_up_down)

lemma gpio_init_pin_spi:
  assumes "has_info p" "gpio_registers init dev"
  shows "\<exists>s'. gpio_init_pin dev p s = Some s' \<and> (\<forall>a \<in> set spi_config. reg init (io s') a = reg init (io s) a)"
proof -
  obtain s' where s': "gpio_init_pin dev p s = Some s'"
      "\<forall>a. a \<noteq> SYSCFG_KICK 0 \<and> a \<noteq> SYSCFG_KICK 1 \<longrightarrow> reg init (io s') a = select_pin p (reg init (io s)) a"
    using gpio_init_pin_effect [OF assms] by blast
  have "reg init (io s') a = reg init (io s) a" if "a \<in> set spi_config" for a
  proof -
    have "a \<noteq> SYSCFG_KICK 0 \<and> a \<noteq> SYSCFG_KICK 1" "\<not> is_pinmux a"
      using that spi_differ spi_not_pinmux by (auto simp: spi_config_def)
    with s'(2) mux_of_addr(1) [OF assms(1)] show ?thesis by (auto simp: select_pin_def)
  qed
  with s'(1) show ?thesis by blast
qed

lemma spi_pins_info: "has_info SPI0_MOSI" "has_info SPI0_MISO" "has_info SPI0_SCL" "has_info SPI0_CS"
  by (simp_all add: has_info_def const_defs pininfo_table)

lemma spi_fini_regs:
  "reg init (io (spi_fini saved t)) = (reg init (io t))(SPIGCR0 := save_GCR0 saved, SPIGCR1 := save_GCR1 saved,
     SPIPC0 := save_PC0 saved, SPIDAT1 := save_DAT1 saved, SPIFMT0 := save_FMT0 saved, SPIDELAY := save_DELAY saved,
     SPIDEF := save_DEF saved)"
  by (simp add: spi_fini_def Let_def write32_regs store_reg_def spi_not_pinmux)



end
