(* ===== verification/Sensor.thy ===== *)
theory Sensor
  imports Spi
begin

text \<open>The sensor ports of the EV3, \<^verbatim>\<open>kernel/drivers/sensor.c\<close>: the touch and light sensors behind the converter.\<close>

section \<open>kernel/drivers/sensor.h and sensor.c\<close>

datatype sensor_port_id = SENSOR_PORT_1 | SENSOR_PORT_2 | SENSOR_PORT_3 | SENSOR_PORT_4

fun sensor_port_no :: "sensor_port_id \<Rightarrow> nat" where
  "sensor_port_no SENSOR_PORT_1 = 0x00"
| "sensor_port_no SENSOR_PORT_2 = 0x01"
| "sensor_port_no SENSOR_PORT_3 = 0x02"
| "sensor_port_no SENSOR_PORT_4 = 0x03"

datatype sensor_touch_state = SENSOR_TOUCH_DOWN | SENSOR_TOUCH_UP

record sensor_port_info =
  pin1 :: u32
  pin2 :: u32
  pin5 :: u32
  pin6 :: u32
  buffer :: u32
  adc1 :: u8
  adc2 :: u8

definition sensor_ports :: "sensor_port_info list" where
  "sensor_ports =
    [\<lparr>pin1 = GPIO_PIN 8 10, pin2 = GPIO_PIN 2  2, pin5 = GPIO_PIN 0  2, pin6 = GPIO_PIN 0 15, buffer = GPIO_PIN 8 11, adc1 = 0x6, adc2 = 0x5\<rparr>,
     \<lparr>pin1 = GPIO_PIN 8 12, pin2 = GPIO_PIN 8 15, pin5 = GPIO_PIN 0 14, pin6 = GPIO_PIN 0 13, buffer = GPIO_PIN 8 14, adc1 = 0x8, adc2 = 0x7\<rparr>,
     \<lparr>pin1 = GPIO_PIN 8  9, pin2 = GPIO_PIN 7 11, pin5 = GPIO_PIN 0 12, pin6 = GPIO_PIN 1 14, buffer = GPIO_PIN 7  9, adc1 = 0xA, adc2 = 0x9\<rparr>,
     \<lparr>pin1 = GPIO_PIN 6  4, pin2 = GPIO_PIN 7  8, pin5 = GPIO_PIN 0  1, pin6 = GPIO_PIN 1 15, buffer = GPIO_PIN 7 10, adc1 = 0xC, adc2 = 0xB\<rparr>]"

abbreviation sensor_port :: "sensor_port_id \<Rightarrow> sensor_port_info" where
  "sensor_port port \<equiv> sensor_ports ! sensor_port_no port"

definition sensor_touch_get_state ::
  "device \<Rightarrow> sensor_port_id \<Rightarrow> 's io_state_scheme \<Rightarrow> (sensor_touch_state \<times> 's io_state_scheme) option" where
  "sensor_touch_get_state dev port s =
     do { (Data1, s) \<leftarrow> adc_get dev (ucast (adc1 (sensor_port port))) s;
          (Data2, s) \<leftarrow> adc_get dev (ucast (adc2 (sensor_port port))) s;
          Some (if Data2 > 3000 \<or> (Data1 > 500 \<and> Data1 < 1000) then SENSOR_TOUCH_DOWN else SENSOR_TOUCH_UP, s) }"

definition sensor_light_get :: "device \<Rightarrow> sensor_port_id \<Rightarrow> 's io_state_scheme \<Rightarrow> (u16 \<times> 's io_state_scheme) option" where
  "sensor_light_get dev port s =
     do { s \<leftarrow> gpio_set dev (pin5 (sensor_port port)) 1 s;
          adc_get dev (ucast (adc1 (sensor_port port))) s }"

text \<open>The loop over the ports, and the write that follows it.\<close>

fun sensor_init_loop :: "device \<Rightarrow> sensor_port_info list \<Rightarrow> 's io_state_scheme \<Rightarrow> 's io_state_scheme option" where
  "sensor_init_loop dev [] s = Some s"
| "sensor_init_loop dev (p # ps) s =
     do { s \<leftarrow> gpio_init_inpin dev (pin1 p) s;
          s \<leftarrow> gpio_init_inpin dev (pin2 p) s;
          s \<leftarrow> gpio_init_outpin dev (pin5 p) s;
          s \<leftarrow> gpio_init_pin dev (pin6 p) s;
          s \<leftarrow> gpio_init_pin dev (buffer p) s;
          sensor_init_loop dev ps s }"

definition sensor_init :: "device \<Rightarrow> 's io_state_scheme \<Rightarrow> 's io_state_scheme option" where
  "sensor_init dev s =
     do { s \<leftarrow> sensor_init_loop dev sensor_ports s;
          Some (rmw32 dev (SYSCFG1_BASE + 0x0C) (\<lambda>v. v AND NOT 0xFFFFFFFF) s) }"

section \<open>Properties\<close>

lemma sensor_known:
  "list_all (\<lambda>p. known (pin1 p) \<and> known (pin2 p) \<and> known (pin5 p) \<and> known (pin6 p) \<and> known (buffer p)) sensor_ports"
  by (simp add: sensor_ports_def GPIO_PIN_def known_def) (simp add: pininfo_table)

lemma sensor_port_in: "sensor_port port \<in> set sensor_ports"
  by (cases port) (simp_all add: sensor_ports_def)

text \<open>The word that asks for a channel.\<close>

definition convert_cmd :: "u8 \<Rightarrow> u16" where
  "convert_cmd ch = 0x1840 OR push_bit 7 (ucast ch AND 0xF)"

lemma sensor_touch_result:
  fixes answer port s
  defines "c1 \<equiv> convert_cmd (adc1 (sensor_port port))" and "c2 \<equiv> convert_cmd (adc2 (sensor_port port))"
  defines "d1 \<equiv> answer (spi_sent (io s) @ [c1]) AND 0xFFF" and "d2 \<equiv> answer (spi_sent (io s) @ [c1, c2]) AND 0xFFF"
  assumes "spi_responds answer dev"
  shows "\<exists>r s'. sensor_touch_get_state dev port s = Some (r, s') \<and>
    (r = SENSOR_TOUCH_DOWN \<longleftrightarrow> 3000 < unat d2 \<or> (500 < unat d1 \<and> unat d1 < 1000)) \<and>
    spi_sent (io s') = spi_sent (io s) @ [c1, c2] \<and> console s' = console s \<and>
    (\<forall>init. pin_view init (io s') = pin_view init (io s))"
proof -
  obtain t where t: "adc_get dev (ucast (adc1 (sensor_port port))) s = Some (d1, t)" "bus_only s t"
      "spi_sent (io t) = spi_sent (io s) @ [c1]" "\<forall>init. pin_view init (io t) = pin_view init (io s)"
    using adc_get_answers [OF assms(5), of "ucast (adc1 (sensor_port port))" s]
    unfolding c1_def d1_def convert_cmd_def by blast
  obtain u where u: "adc_get dev (ucast (adc2 (sensor_port port))) t = Some (d2, u)" "bus_only t u"
      "spi_sent (io u) = spi_sent (io s) @ [c1, c2]" "\<forall>init. pin_view init (io u) = pin_view init (io t)"
    using adc_get_answers [OF assms(5), of "ucast (adc2 (sensor_port port))" t]
    unfolding c2_def d2_def convert_cmd_def t(3) by (simp add: c1_def convert_cmd_def) blast
  show ?thesis
    using u t bus_only_console [OF bus_only_trans [OF t(2) u(2)]]
    by (simp add: sensor_touch_get_state_def word_less_nat_alt)
qed

lemma sensor_touch_returns:
  assumes "spi_responds answer dev"
  shows "\<exists>r s'. sensor_touch_get_state dev port s = Some (r, s') \<and> pin_view init (io s') = pin_view init (io s)"
  using sensor_touch_result [OF assms, of port s] by blast

text \<open>
  Property C34: the touch sensor. With a bus that answers, \<^verbatim>\<open>sensor_touch_get_state\<close> returns. It has asked for the two
  channels of the port, in order, and reports a pressed sensor exactly when the second value is above 3000 or the
  first lies strictly between 500 and 1000. No pin and no character changes.
\<close>

theorem sensor_touch_classifies:
  fixes answer port s
  defines "c1 \<equiv> convert_cmd (adc1 (sensor_port port))" and "c2 \<equiv> convert_cmd (adc2 (sensor_port port))"
  defines "d1 \<equiv> answer (spi_sent (io s) @ [c1]) AND 0xFFF" and "d2 \<equiv> answer (spi_sent (io s) @ [c1, c2]) AND 0xFFF"
  assumes "spi_responds answer dev"
  shows "\<exists>r s'. sensor_touch_get_state dev port s = Some (r, s') \<and>
    (r = SENSOR_TOUCH_DOWN \<longleftrightarrow> 3000 < unat d2 \<or> (500 < unat d1 \<and> unat d1 < 1000)) \<and>
    spi_sent (io s') = spi_sent (io s) @ [c1, c2] \<and> console s' = console s \<and>
    (\<forall>init. pin_view init (io s') = pin_view init (io s))"
  unfolding assms(1-4) by (rule sensor_touch_result [OF assms(5)])

theorem sensor_touch_classifies_witness:
  "\<exists>s'. sensor_touch_get_state (spi_device (\<lambda>_. 0xABCD)) SENSOR_PORT_2 io0 = Some (SENSOR_TOUCH_DOWN, s')"
  using sensor_touch_classifies [OF spi_device_responds [of "\<lambda>_. 0xABCD"], of SENSOR_PORT_2 io0]
  by auto

text \<open>
  Property: the light sensor. \<^verbatim>\<open>sensor_light_get\<close> turns the light of the port on (its digital pin is a high output), then
  gives the twelve bits of one conversion of the first channel; no other pin changes.
\<close>

theorem sensor_light_reads:
  assumes "gpio_registers init dev" "spi_responds answer dev"
  shows "\<exists>sent s'. sensor_light_get dev port s =
      Some (answer (sent @ [convert_cmd (adc1 (sensor_port port))]) AND 0xFFF, s') \<and>
    spi_sent (io s') = sent @ [convert_cmd (adc1 (sensor_port port))] \<and> console s' = console s \<and>
    pin_view init (io s') = (pin_view init (io s))(pin5 (sensor_port port) \<mapsto> out_pin (pin5 (sensor_port port)) True)"
proof -
  have k: "known (pin5 (sensor_port port))"
    using sensor_known sensor_port_in [of port] unfolding list_all_iff by blast
  obtain t where t: "gpio_set dev (pin5 (sensor_port port)) 1 s = Some t" "bus_only s t"
      "pin_view init (io t) = (pin_view init (io s))(pin5 (sensor_port port) \<mapsto> out_pin (pin5 (sensor_port port)) (1 \<noteq> (0 :: u32)))"
    using pin_opD [OF pin_op_gpio_set [OF k assms(1)], of 1 s] by blast
  obtain u where u: "adc_get dev (ucast (adc1 (sensor_port port))) t =
        Some (answer (spi_sent (io t) @ [convert_cmd (adc1 (sensor_port port))]) AND 0xFFF, u)" "bus_only t u"
      "spi_sent (io u) = spi_sent (io t) @ [convert_cmd (adc1 (sensor_port port))]"
      "\<forall>init. pin_view init (io u) = pin_view init (io t)"
    using adc_get_answers [OF assms(2), of "ucast (adc1 (sensor_port port))" t] unfolding convert_cmd_def by blast
  show ?thesis
    using t u bus_only_console [OF bus_only_trans [OF t(2) u(2)]]
    by (intro exI [of _ "spi_sent (io t)"] exI [of _ u]) (simp add: sensor_light_get_def)
qed

lemma spi_device_registers: "gpio_registers (\<lambda>_. 0) (spi_device answer)"
proof -
  have "\<not> config_reg SPIBUF"
    using bank_cases by (fastforce simp: config_reg_def is_pinmux_def gpio_reg_defs const_defs)
  then show ?thesis by (auto simp: gpio_registers_def spi_device_def)
qed

theorem sensor_light_reads_witness:
  "\<exists>s'. sensor_light_get (spi_device (\<lambda>_. 0xABCD)) SENSOR_PORT_1 io0 = Some (0xBCD, s') \<and>
     pin_view (\<lambda>_. 0) (io s') 0x02 = Some (out_pin 0x02 True)"
proof -
  have "pin5 (sensor_port SENSOR_PORT_1) = 0x02" by (simp add: sensor_ports_def GPIO_PIN_def)
  then show ?thesis
    using sensor_light_reads [OF spi_device_registers spi_device_responds [of "\<lambda>_. 0xABCD"], of SENSOR_PORT_1 io0]
    by auto
qed

text \<open>The pins a start-up leaves as inputs and outputs.\<close>

lemma sensor_init_loop_op:
  assumes "gpio_registers init dev"
    and "list_all (\<lambda>p. known (pin1 p) \<and> known (pin2 p) \<and> known (pin5 p) \<and> known (pin6 p) \<and> known (buffer p)) ps"
  shows "\<exists>F. pin_op init (sensor_init_loop dev ps :: 's io_state_scheme \<Rightarrow> _) F \<and>
    (\<forall>V q. q \<notin> (\<Union>p \<in> set ps. {pin1 p, pin2 p, pin5 p, pin6 p, buffer p}) \<longrightarrow> F V q = V q)"
  using assms(2)
proof (induction ps)
  case Nil
  have "sensor_init_loop dev [] = (Some :: 's io_state_scheme \<Rightarrow> _)" by (simp add: fun_eq_iff)
  then show ?case using pin_op_Some [of init] by (intro exI [of _ "\<lambda>V. V"]) simp
next
  case (Cons p ps)
  then obtain F where F: "pin_op init (sensor_init_loop dev ps :: 's io_state_scheme \<Rightarrow> _) F"
    "\<And>V q. q \<notin> (\<Union>p \<in> set ps. {pin1 p, pin2 p, pin5 p, pin6 p, buffer p}) \<Longrightarrow> F V q = V q" by auto
  have step: "sensor_init_loop dev (p # ps) = (\<lambda>s. gpio_init_inpin dev (pin1 p) s \<bind> (\<lambda>s. gpio_init_inpin dev (pin2 p) s \<bind>
      (\<lambda>s. gpio_init_outpin dev (pin5 p) s \<bind> (\<lambda>s. gpio_init_pin dev (pin6 p) s \<bind>
      (\<lambda>s. gpio_init_pin dev (buffer p) s \<bind> (sensor_init_loop dev ps :: 's io_state_scheme \<Rightarrow> _))))))"
    by (simp add: fun_eq_iff)
  have k: "known (pin1 p)" "known (pin2 p)" "known (pin5 p)" "known (pin6 p)" "known (buffer p)"
    using Cons.prems by simp_all
  note ops = pin_op_bind [OF pin_op_inpin [OF k(1) assms(1)] pin_op_bind [OF pin_op_inpin [OF k(2) assms(1)]
      pin_op_bind [OF pin_op_outpin [OF k(3) assms(1)] pin_op_bind [OF pin_op_init_pin [OF k(4) assms(1)]
      pin_op_bind [OF pin_op_init_pin [OF k(5) assms(1)] F(1)]]]]]
  show ?case unfolding step by (rule exI, rule conjI, rule ops) (simp add: F(2))
qed

end
