(* ===== verification/Motor.thy ===== *)
theory Motor
  imports Sensor
begin

text \<open>The motor ports of the EV3, \<^verbatim>\<open>kernel/drivers/motor.c\<close>, and the demonstration of \<^verbatim>\<open>kernel/demo/demo_motor.c\<close>.\<close>

section \<open>kernel/drivers/motor.h and motor.c\<close>

datatype motor_port_id = MOTOR_PORT_A | MOTOR_PORT_B | MOTOR_PORT_C | MOTOR_PORT_D

fun motor_port_no :: "motor_port_id \<Rightarrow> nat" where
  "motor_port_no MOTOR_PORT_A = 0x00"
| "motor_port_no MOTOR_PORT_B = 0x01"
| "motor_port_no MOTOR_PORT_C = 0x02"
| "motor_port_no MOTOR_PORT_D = 0x03"

datatype motor_state = MOTOR_BACKWARD | MOTOR_OFF | MOTOR_FORWARD

record motor_port_info =
  motor_pin1 :: u32
  motor_pin2 :: u32
  pin5w :: u32
  pin5r :: u32
  motor_pin6 :: u32
  motor_adc1 :: u8
  motor_adc2 :: u8

definition motor_ports :: "motor_port_info list" where
  "motor_ports =
    [\<lparr>motor_pin1 = GPIO_PIN 3 15, motor_pin2 = GPIO_PIN 3  6, pin5w = GPIO_PIN 5  4, pin5r = GPIO_PIN 5 11, motor_pin6 = GPIO_PIN 0  4, motor_adc1 = 0x6, motor_adc2 = 0x5\<rparr>,
     \<lparr>motor_pin1 = GPIO_PIN 0  3, motor_pin2 = GPIO_PIN 2  1, pin5w = GPIO_PIN 2  5, pin5r = GPIO_PIN 5  8, motor_pin6 = GPIO_PIN 2  9, motor_adc1 = 0x8, motor_adc2 = 0x7\<rparr>,
     \<lparr>motor_pin1 = GPIO_PIN 6  8, motor_pin2 = GPIO_PIN 5  9, pin5w = GPIO_PIN 3  8, pin5r = GPIO_PIN 5 13, motor_pin6 = GPIO_PIN 3 14, motor_adc1 = 0xA, motor_adc2 = 0x9\<rparr>,
     \<lparr>motor_pin1 = GPIO_PIN 5 10, motor_pin2 = GPIO_PIN 5  3, pin5w = GPIO_PIN 5 15, pin5r = GPIO_PIN 6  9, motor_pin6 = GPIO_PIN 2  8, motor_adc1 = 0xC, motor_adc2 = 0xB\<rparr>]"

abbreviation motor_port :: "motor_port_id \<Rightarrow> motor_port_info" where
  "motor_port port \<equiv> motor_ports ! motor_port_no port"

definition motor_set_state :: "device \<Rightarrow> motor_port_id \<Rightarrow> motor_state \<Rightarrow> 's io_state_scheme \<Rightarrow> 's io_state_scheme option" where
  "motor_set_state dev port state s =
     (if state = MOTOR_FORWARD then
        do { s \<leftarrow> gpio_set dev (motor_pin1 (motor_port port)) 1 s; gpio_set dev (motor_pin2 (motor_port port)) 0 s }
      else if state = MOTOR_BACKWARD then
        do { s \<leftarrow> gpio_set dev (motor_pin1 (motor_port port)) 0 s; gpio_set dev (motor_pin2 (motor_port port)) 1 s }
      else
        do { s \<leftarrow> gpio_set dev (motor_pin1 (motor_port port)) 0 s; gpio_set dev (motor_pin2 (motor_port port)) 0 s })"

fun motor_init_loop :: "device \<Rightarrow> motor_port_info list \<Rightarrow> 's io_state_scheme \<Rightarrow> 's io_state_scheme option" where
  "motor_init_loop dev [] s = Some s"
| "motor_init_loop dev (p # ps) s =
     do { s \<leftarrow> gpio_init_outpin dev (motor_pin1 p) s;
          s \<leftarrow> gpio_init_outpin dev (motor_pin2 p) s;
          s \<leftarrow> gpio_init_outpin dev (pin5w p) s;
          s \<leftarrow> gpio_init_outpin dev (pin5r p) s;
          s \<leftarrow> gpio_init_outpin dev (motor_pin6 p) s;
          motor_init_loop dev ps s }"

definition motor_init :: "device \<Rightarrow> 's io_state_scheme \<Rightarrow> 's io_state_scheme option" where
  "motor_init dev s =
     do { s \<leftarrow> motor_init_loop dev motor_ports s;
          Some (rmw32 dev (SYSCFG1_BASE + 0x0C) (\<lambda>v. v AND NOT 0xFFFFFFFF) s) }"

section \<open>kernel/demo/demo_motor.c\<close>

definition demo_motor :: "device \<Rightarrow> 's io_state_scheme \<Rightarrow> 's io_state_scheme option" where
  "demo_motor dev s =
     do { (touch, s) \<leftarrow> sensor_touch_get_state dev SENSOR_PORT_2 s;
          if touch = SENSOR_TOUCH_DOWN then motor_set_state dev MOTOR_PORT_A MOTOR_FORWARD s
          else motor_set_state dev MOTOR_PORT_A MOTOR_OFF s }"

section \<open>Properties\<close>

definition port_pins :: "motor_port_info \<Rightarrow> u32 set" where
  "port_pins p = {motor_pin1 p, motor_pin2 p, pin5w p, pin5r p, motor_pin6 p}"

lemma motor_known:
  "list_all (\<lambda>p. known (motor_pin1 p) \<and> known (motor_pin2 p) \<and> known (pin5w p) \<and> known (pin5r p) \<and> known (motor_pin6 p)) motor_ports"
  by (simp add: motor_ports_def GPIO_PIN_def known_def) (simp add: pininfo_table)

lemma motor_port_in: "motor_port port \<in> set motor_ports"
  by (cases port) (simp_all add: motor_ports_def)

text \<open>The pins of a motor in a state: forward is high and low, backward low and high, off both low.\<close>

definition drive :: "motor_port_id \<Rightarrow> motor_state \<Rightarrow> pins \<Rightarrow> pins" where
  "drive port state V = V
     (motor_pin1 (motor_port port) \<mapsto> out_pin (motor_pin1 (motor_port port)) (state = MOTOR_FORWARD),
      motor_pin2 (motor_port port) \<mapsto> out_pin (motor_pin2 (motor_port port)) (state = MOTOR_BACKWARD))"

lemma motor_set_state_op:
  assumes "gpio_registers init dev"
  shows "pin_op init (motor_set_state dev port state) (drive port state)"
proof -
  have k: "known (motor_pin1 (motor_port port))" "known (motor_pin2 (motor_port port))"
    using motor_known motor_port_in [of port] unfolding list_all_iff by blast+
  show ?thesis
    using pin_op_bind [OF pin_op_gpio_set [OF k(1) assms, of 1] pin_op_gpio_set [OF k(2) assms, of 0]]
      pin_op_bind [OF pin_op_gpio_set [OF k(1) assms, of 0] pin_op_gpio_set [OF k(2) assms, of 1]]
      pin_op_bind [OF pin_op_gpio_set [OF k(1) assms, of 0] pin_op_gpio_set [OF k(2) assms, of 0]]
    by (cases state) (simp_all add: motor_set_state_def [abs_def] drive_def [abs_def] del: fun_upd_apply)
qed

text \<open>
  Property: \<^verbatim>\<open>motor_set_state\<close> returns and drives the two pins of the port, high and low for forward, low and high for
  backward and both low for off; no other pin changes, in particular no other motor.
\<close>

theorem motor_set_state_drives:
  assumes "gpio_registers init dev"
  shows "\<exists>s'. motor_set_state dev port state s = Some s' \<and> console s' = console s \<and>
    pin_view init (io s') = drive port state (pin_view init (io s))"
  using pin_opD [OF motor_set_state_op [OF assms], of port state s] bus_only_console by blast

theorem motor_set_state_drives_witness:
  "\<exists>s'. motor_set_state reg_device MOTOR_PORT_D MOTOR_BACKWARD io0 = Some s' \<and>
     pin_view (\<lambda>_. 0) (io s') 0x5A = Some (out_pin 0x5A False) \<and> pin_view (\<lambda>_. 0) (io s') 0x53 = Some (out_pin 0x53 True)"
  using motor_set_state_drives [OF reg_device_registers, of MOTOR_PORT_D MOTOR_BACKWARD io0]
  by (auto simp: drive_def motor_ports_def GPIO_PIN_def)

lemma motor_init_loop_op:
  assumes "gpio_registers init dev"
    and "list_all (\<lambda>p. known (motor_pin1 p) \<and> known (motor_pin2 p) \<and> known (pin5w p) \<and> known (pin5r p) \<and> known (motor_pin6 p)) ps"
  shows "pin_op init (motor_init_loop dev ps :: 's io_state_scheme \<Rightarrow> _)
    (\<lambda>V q. if q \<in> (\<Union>p \<in> set ps. port_pins p) then Some (out_pin q False) else V q)"
  using assms(2)
proof (induction ps)
  case Nil
  have "motor_init_loop dev [] = (Some :: 's io_state_scheme \<Rightarrow> _)" by (simp add: fun_eq_iff)
  then show ?case using pin_op_Some [of init] by simp
next
  case (Cons p ps)
  have step: "motor_init_loop dev (p # ps) = (\<lambda>s. gpio_init_outpin dev (motor_pin1 p) s \<bind>
      (\<lambda>s. gpio_init_outpin dev (motor_pin2 p) s \<bind> (\<lambda>s. gpio_init_outpin dev (pin5w p) s \<bind>
      (\<lambda>s. gpio_init_outpin dev (pin5r p) s \<bind> (\<lambda>s. gpio_init_outpin dev (motor_pin6 p) s \<bind>
      (motor_init_loop dev ps :: 's io_state_scheme \<Rightarrow> _))))))"
    by (simp add: fun_eq_iff)
  have k: "known (motor_pin1 p)" "known (motor_pin2 p)" "known (pin5w p)" "known (pin5r p)" "known (motor_pin6 p)"
    and ps: "pin_op init (motor_init_loop dev ps :: 's io_state_scheme \<Rightarrow> _)
      (\<lambda>V q. if q \<in> (\<Union>p \<in> set ps. port_pins p) then Some (out_pin q False) else V q)"
    using Cons by simp_all
  note ops = pin_op_bind [OF pin_op_outpin [OF k(1) assms(1)] pin_op_bind [OF pin_op_outpin [OF k(2) assms(1)]
      pin_op_bind [OF pin_op_outpin [OF k(3) assms(1)] pin_op_bind [OF pin_op_outpin [OF k(4) assms(1)]
      pin_op_bind [OF pin_op_outpin [OF k(5) assms(1)] ps]]]]]
  have "(\<lambda>V q. if q \<in> (\<Union>p \<in> set (p # ps). port_pins p) then Some (out_pin q False) else V q) =
      (\<lambda>V q. if q \<in> (\<Union>p \<in> set ps. port_pins p) then Some (out_pin q False)
        else (V(motor_pin1 p \<mapsto> out_pin (motor_pin1 p) False, motor_pin2 p \<mapsto> out_pin (motor_pin2 p) False,
          pin5w p \<mapsto> out_pin (pin5w p) False, pin5r p \<mapsto> out_pin (pin5r p) False,
          motor_pin6 p \<mapsto> out_pin (motor_pin6 p) False)) q)"
    by (auto simp: port_pins_def fun_eq_iff)
  then show ?case unfolding step by (simp only:) (rule ops)
qed

text \<open>
  Property C23: the demonstration of the motors. \<^verbatim>\<open>demo_motor\<close> asks the touch sensor of port 2 once; motor A then runs
  forward when the sensor is pressed and is off otherwise, and no other pin changes.
\<close>

theorem demo_motor_follows_touch:
  assumes "gpio_registers init dev" "spi_responds answer dev"
  shows "\<exists>touch s1 s2. sensor_touch_get_state dev SENSOR_PORT_2 s = Some (touch, s1) \<and> demo_motor dev s = Some s2 \<and>
    pin_view init (io s2) =
      drive MOTOR_PORT_A (if touch = SENSOR_TOUCH_DOWN then MOTOR_FORWARD else MOTOR_OFF) (pin_view init (io s))"
proof -
  obtain touch s1 where t: "sensor_touch_get_state dev SENSOR_PORT_2 s = Some (touch, s1)"
      "pin_view init (io s1) = pin_view init (io s)"
    using sensor_touch_returns [OF assms(2), of SENSOR_PORT_2 s] by blast
  obtain s2 where s2: "motor_set_state dev MOTOR_PORT_A (if touch = SENSOR_TOUCH_DOWN then MOTOR_FORWARD else MOTOR_OFF) s1 = Some s2"
      "pin_view init (io s2) = drive MOTOR_PORT_A (if touch = SENSOR_TOUCH_DOWN then MOTOR_FORWARD else MOTOR_OFF) (pin_view init (io s1))"
    using pin_opD [OF motor_set_state_op [OF assms(1)], of MOTOR_PORT_A "if touch = SENSOR_TOUCH_DOWN then MOTOR_FORWARD else MOTOR_OFF" s1]
    by blast
  show ?thesis
    using t s2 by (intro exI [of _ touch] exI [of _ s1] exI [of _ s2]) (auto simp: demo_motor_def split: if_splits)
qed

theorem demo_motor_follows_touch_witness:
  "\<exists>s2. demo_motor (spi_device (\<lambda>_. 0xFFF)) io0 = Some s2 \<and> pin_view (\<lambda>_. 0) (io s2) 0x36 = Some (out_pin 0x36 False)"
  using demo_motor_follows_touch [OF spi_device_registers spi_device_responds, of "\<lambda>_. 0xFFF" io0]
  by (auto simp: drive_def motor_ports_def GPIO_PIN_def)

end
