(* ===== verification/Boot.thy ===== *)
theory Boot
  imports Kernel Led Button Motor
begin

text \<open>
  From reset to \<^verbatim>\<open>kernel_main\<close>: the assembly of \<^verbatim>\<open>kernel/boot/start.S\<close> and the constructors of the EV3 drivers it runs.
  The arrays of function pointers and the bounds of the sections are the linker's and parameters of the model. The
  stack of the C code that is called is not part of the model.
\<close>

section \<open>kernel/boot/start.S\<close>

definition push_word :: "addr \<Rightarrow> u32 \<Rightarrow> 's heap_state_scheme \<Rightarrow> 's heap_state_scheme" where
  "push_word a v s = s\<lparr>ram := store32 (ram s) a v\<rparr>"

partial_function (option) bss_clear_loop :: "addr \<Rightarrow> addr \<Rightarrow> 's heap_state_scheme \<Rightarrow> 's heap_state_scheme option" where
  "bss_clear_loop r0 r1 s = (if r0 = r1 then Some s else bss_clear_loop (r0 + 4) r1 (push_word r0 0 s))"

text \<open>
  The loops over \<^verbatim>\<open>.init_array\<close> and \<^verbatim>\<open>.fini_array\<close>: \<open>code a\<close> is the function whose address is the word at \<open>a\<close>. The two loop
  registers are on the stack during a call.
\<close>

partial_function (option) init_array_loop ::
  "(addr \<Rightarrow> ('s heap_state_scheme \<Rightarrow> 's heap_state_scheme option) option) \<Rightarrow> addr \<Rightarrow> addr \<Rightarrow> addr \<Rightarrow> 's heap_state_scheme \<Rightarrow>
   's heap_state_scheme option" where
  "init_array_loop code stk r0 r1 s =
     (if r0 = r1 then Some s
      else do { f \<leftarrow> code r0;
                s \<leftarrow> f (push_word (stk - 8) r0 (push_word (stk - 4) r1 s));
                init_array_loop code stk (load32 (ram s) (stk - 8) + 4) (load32 (ram s) (stk - 4)) s })"

record sections =
  bss_start :: addr
  bss_end :: addr
  init_array_start :: addr
  init_array_end :: addr
  fini_array_start :: addr
  fini_array_end :: addr

definition Start ::
  "sections \<Rightarrow> (addr \<Rightarrow> ('s heap_state_scheme \<Rightarrow> 's heap_state_scheme option) option) \<Rightarrow>
   (u32 \<Rightarrow> u32 \<Rightarrow> u32 \<Rightarrow> 's heap_state_scheme \<Rightarrow> 's heap_state_scheme option) \<Rightarrow> u32 \<Rightarrow> u32 \<Rightarrow> u32 \<Rightarrow>
   's heap_state_scheme \<Rightarrow> 's heap_state_scheme option" where
  "Start sec code main r0 r1 r2 s =
     do { let stk = bss_end sec - 12;
          let s = push_word stk r0 (push_word (stk + 4) r1 (push_word (stk + 8) r2 s));
          s \<leftarrow> bss_clear_loop (bss_start sec) (bss_end sec) s;
          s \<leftarrow> init_array_loop code stk (init_array_start sec) (init_array_end sec) s;
          s \<leftarrow> main (load32 (ram s) stk) (load32 (ram s) (stk + 4)) (load32 (ram s) (stk + 8)) s;
          init_array_loop code (stk + 12) (fini_array_start sec) (fini_array_end sec) s }"

section \<open>The bss section\<close>

lemma push_word_fields [simp]: "ram (push_word a v s) = store32 (ram s) a v"
  by (simp add: push_word_def)

lemma bss_clear_loop_result:
  assumes "n < 2 ^ 30"
  shows "bss_clear_loop a (a + of_nat (4 * n)) s =
    Some (s\<lparr>ram := \<lambda>x. if in_range x a (4 * n) then 0 else ram s x\<rparr>)"
  using assms
proof (induction n arbitrary: a s)
  case 0
  then show ?case by (subst bss_clear_loop.simps) (simp add: in_range_def)
next
  case (Suc n)
  have "unat (of_nat (4 * Suc n) :: u32) = 4 * Suc n" using Suc.prems by (intro unat_of_nat_small) simp
  then have ne: "a \<noteq> a + of_nat (4 * Suc n)" by (metis add_cancel_right_right unat_0 mult_is_0 nat.distinct(1) zero_neq_numeral)
  have next_a: "a + of_nat (4 * Suc n) = (a + 4) + of_nat (4 * n)" by simp
  have "bss_clear_loop a (a + of_nat (4 * Suc n)) s = bss_clear_loop (a + 4) ((a + 4) + of_nat (4 * n)) (push_word a 0 s)"
    using ne by (subst bss_clear_loop.simps) (simp add: add.assoc)
  also have "\<dots> = Some ((push_word a 0 s)\<lparr>ram := \<lambda>x. if in_range x (a + 4) (4 * n) then 0 else store32 (ram s) a 0 x\<rparr>)"
    using Suc.IH [of "a + 4" "push_word a 0 s"] Suc.prems unfolding push_word_fields by simp
  also have "(\<lambda>x. if in_range x (a + 4) (4 * n) then 0 else store32 (ram s) a 0 x) =
      (\<lambda>x. if in_range x a (4 * Suc n) then 0 else ram s x)"
  proof
    fix x
    have "in_range x a (4 * Suc n) \<longleftrightarrow> in_range x a 4 \<or> in_range x (a + 4) (4 * n)"
      using in_range_append [of 4 "4 * n" x a] Suc.prems by simp
    then show "(if in_range x (a + 4) (4 * n) then 0 else store32 (ram s) a 0 x) =
        (if in_range x a (4 * Suc n) then 0 else ram s x)"
      by (auto simp: store32_def store_le_def byte_of_def in_range_def)
  qed
  finally show ?case by (simp add: push_word_def)
qed

lemma bss_clear_loop_result_dvd:
  assumes "4 dvd unat (e - b)"
  shows "bss_clear_loop b e s = Some (s\<lparr>ram := \<lambda>x. if in_range x b (unat (e - b)) then 0 else ram s x\<rparr>)"
proof -
  obtain n where n: "unat (e - b) = 4 * n" using assms by (auto elim: dvdE)
  have "unat (e - b) < 2 ^ LENGTH(32)" by (rule unsigned_less)
  then have "4 * n < 2 ^ 32" using n by simp
  moreover have "e = b + of_nat (4 * n)" using word_diff_eq_of_nat [OF n] .
  ultimately show ?thesis using bss_clear_loop_result [of n b s] n by simp
qed

text \<open>
  Property: the clearing loop ends. For a bss section of a whole number of words it returns, every byte of the section
  is zero, and all other memory and state are as before.
\<close>

theorem bss_clear_loop_clears:
  assumes "4 dvd unat (e - b)"
  shows "bss_clear_loop b e s = Some (s\<lparr>ram := \<lambda>x. if in_range x b (unat (e - b)) then 0 else ram s x\<rparr>)"
  by (rule bss_clear_loop_result_dvd [OF assms])

theorem bss_clear_loop_clears_witness:
  "bss_clear_loop 0x10000 0x10010 heap0 =
     Some (heap0\<lparr>ram := \<lambda>x. if in_range x 0x10000 16 then 0 else ram heap0 x\<rparr>)"
  using bss_clear_loop_clears [where e = "0x10010" and b = "0x10000" and s = heap0] by simp

text \<open>Three words that were pushed at the end of the section are gone when it has been cleared.\<close>

lemma pushed_words_wiped:
  assumes "4 dvd unat (e - b)" "12 \<le> unat (e - b)"
  shows "bss_clear_loop b e (push_word (e - 12) v0 (push_word (e - 12 + 4) v1 (push_word (e - 12 + 8) v2 s))) =
    bss_clear_loop b e s"
proof -
  have inside: "in_range x b (unat (e - b))" if "in_range x (e - 12 + of_nat k) 4" "k + 4 \<le> 12" for x k
  proof -
    define off where "off = unat (e - b) - 12"
    have "(12 :: u32) \<le> e - b" using assms(2) by (simp add: word_le_nat_alt)
    then have "unat (e - b - 12) = off" by (simp add: off_def unat_sub)
    then have "unat (e - 12 - b) = off" by (simp add: diff_right_commute)
    then have "e - 12 = b + of_nat off" by (rule word_diff_eq_of_nat)
    then have "in_range x (b + of_nat (off + k)) 4" using that(1) by (simp only: of_nat_add add.assoc)
    moreover have "unat (e - b) < 2 ^ LENGTH(32)" by (rule unsigned_less)
    ultimately show ?thesis using that(2) assms(2) by (elim in_range_sub) (simp_all add: off_def)
  qed
  have "store32 (store32 (store32 m (e - 12 + 8) v2) (e - 12 + 4) v1) (e - 12) v0 x = m x"
    if "\<not> in_range x b (unat (e - b))" for m x
    using that inside [of x 0] inside [of x 4] inside [of x 8]
    by (auto simp: store32_def store_le_def in_range_def)
  then show ?thesis
    unfolding bss_clear_loop_result_dvd [OF assms(1)] by (simp add: push_word_def fun_eq_iff cong: if_cong)
qed

text \<open>
  Property C38: the registers saved for \<^verbatim>\<open>kernel_main\<close> are lost. The stack starts at the end of the bss section, so that the
  clearing loop wipes what was pushed: the whole boot gives the same result for all values of r0 to r2.
\<close>

theorem start_registers_lost:
  assumes "4 dvd unat (bss_end sec - bss_start sec)" "12 \<le> unat (bss_end sec - bss_start sec)"
  shows "Start sec code main r0 r1 r2 s = Start sec code main q0 q1 q2 s"
  by (simp only: Start_def Let_def pushed_words_wiped [OF assms])

theorem start_registers_lost_witness:
  "Start \<lparr>bss_start = 0x10000, bss_end = 0x10010, init_array_start = 0, init_array_end = 0, fini_array_start = 0,
      fini_array_end = 0\<rparr> (\<lambda>_. None) (\<lambda>a b c s. Some (push_word 0 a s)) 1 2 3 heap0 =
   Start \<lparr>bss_start = 0x10000, bss_end = 0x10010, init_array_start = 0, init_array_end = 0, fini_array_start = 0,
      fini_array_end = 0\<rparr> (\<lambda>_. None) (\<lambda>a b c s. Some (push_word 0 a s)) 0 0 0 heap0"
  by (rule start_registers_lost) simp_all

section \<open>The drivers at start-up\<close>

text \<open>
  The constructors in the order of their priorities (1001, 1002, then the others in the order in which their files are
  linked). The pins of different drivers are different, so that each finds its pins as its constructor left them.
\<close>

definition drivers_init :: "device \<Rightarrow> 's io_state_scheme \<Rightarrow> (spi_saved \<times> 's io_state_scheme) option" where
  "drivers_init dev s =
     do { (saved, s) \<leftarrow> spi_init dev s;
          s \<leftarrow> adc_init dev s;
          s \<leftarrow> button_init dev s;
          s \<leftarrow> led_init dev s;
          s \<leftarrow> motor_init dev s;
          s \<leftarrow> sensor_init dev s;
          Some (saved, s) }"

definition sensor_pins :: "sensor_port_info \<Rightarrow> u32 list" where
  "sensor_pins p = [Sensor.pin1 p, Sensor.pin2 p, pin5 p, pin6 p, buffer p]"

definition motor_pins :: "motor_port_info \<Rightarrow> u32 list" where
  "motor_pins p = [motor_pin1 p, motor_pin2 p, pin5w p, pin5r p, motor_pin6 p]"

lemma driver_pins_distinct:
  "distinct (map button_pin buttons @ concat (map (\<lambda>l. [Led.pin1 l, Led.pin2 l]) leds) @
     concat (map motor_pins motor_ports) @ concat (map sensor_pins sensor_ports))"
  by (simp add: buttons_def leds_def motor_ports_def motor_pins_def sensor_ports_def sensor_pins_def GPIO_PIN_def)

lemma spi_init_returns:
  assumes "gpio_registers init dev"
  shows "\<exists>saved s'. spi_init dev s = Some (saved, s')"
proof -
  note pin = gpio_init_pin_spi [OF _ assms]
  obtain s1 where s1: "gpio_init_pin dev SPI0_MOSI s = Some s1" using pin [OF spi_pins_info(1), of s] by blast
  obtain s2 where s2: "gpio_init_pin dev SPI0_MISO s1 = Some s2" using pin [OF spi_pins_info(2), of s1] by blast
  obtain s3 where s3: "gpio_init_pin dev SPI0_SCL s2 = Some s3" using pin [OF spi_pins_info(3), of s2] by blast
  obtain s4 where s4: "gpio_init_pin dev SPI0_CS s3 = Some s4" using pin [OF spi_pins_info(4), of s3] by blast
  show ?thesis by (simp add: spi_init_def s1 s2 s3 s4 case_prod_beta Let_def)
qed

lemma adc_init_returns:
  assumes "gpio_registers init dev" "spi_responds answer dev"
  shows "\<exists>s'. adc_init dev s = Some s'"
proof -
  have k: "known (GPIO_PIN 6 14)" "known (GPIO_PIN 0 6)"
    by (rule known_pin, simp_all add: GPIO_PIN_def pininfo_table)+
  obtain s1 where s1: "gpio_init_pin dev (GPIO_PIN 6 14) s = Some s1"
    using pin_opD [OF pin_op_init_pin [OF k(1) assms(1)], of s] by blast
  obtain s2 where s2: "gpio_init_pin dev (GPIO_PIN 0 6) s1 = Some s2"
    using pin_opD [OF pin_op_init_pin [OF k(2) assms(1)], of s1] by blast
  have spi: "\<exists>s'. spi_update dev 0x400F t \<bind> g = Some s'" if "\<And>v t. \<exists>s'. g (v, t) = Some s'"
    for t :: "'a io_state_scheme" and g :: "u16 \<times> 'a io_state_scheme \<Rightarrow> 'a io_state_scheme option"
    using spi_update_answers [OF assms(2), of "0x400F" t] that by fastforce
  show ?thesis
    unfolding adc_init_def s1 s2 Let_def bind.bind_lunit by (intro spi) (auto intro!: spi)
qed

lemma led_init_op:
  assumes "gpio_registers init dev"
  shows "pin_op init (led_init dev :: 's io_state_scheme \<Rightarrow> _)
    (\<lambda>V q. if q \<in> led_pins then Some (out_pin q False) else V q)"
proof -
  note ops = pin_op_bind [OF pin_op_outpin [OF led_known(1) assms] pin_op_bind [OF pin_op_outpin [OF led_known(2) assms]
      pin_op_bind [OF pin_op_outpin [OF led_known(3) assms] pin_op_outpin [OF led_known(4) assms]]]]
  have "(\<lambda>V q. if q \<in> led_pins then Some (out_pin q False) else V q) =
      (\<lambda>V. V(GPIO_PIN 6 13 \<mapsto> out_pin (GPIO_PIN 6 13) False, GPIO_PIN 6 7 \<mapsto> out_pin (GPIO_PIN 6 7) False,
        GPIO_PIN 6 12 \<mapsto> out_pin (GPIO_PIN 6 12) False, GPIO_PIN 6 14 \<mapsto> out_pin (GPIO_PIN 6 14) False))"
    by (auto simp: led_pins_def fun_eq_iff)
  then show ?thesis
    unfolding led_init_def [abs_def] by (simp add: leds_def del: fun_upd_apply) (rule ops)
qed

lemma motor_init_op:
  assumes "gpio_registers init dev"
  shows "pin_op init (motor_init dev :: 's io_state_scheme \<Rightarrow> _)
    (\<lambda>V q. if q \<in> (\<Union>p \<in> set motor_ports. port_pins p) then Some (out_pin q False) else V q)"
proof -
  have off: "off_gpio (SYSCFG1_BASE + 0x0C)" by (simp add: off_gpio_def is_pinmux_def const_defs)
  show ?thesis
    unfolding motor_init_def [abs_def]
    by (rule pin_op_bind [OF motor_init_loop_op [OF assms motor_known] pin_op_rmw32 [OF off]])
qed

lemma sensor_init_op:
  assumes "gpio_registers init dev"
  shows "\<exists>F. pin_op init (sensor_init dev :: 's io_state_scheme \<Rightarrow> _) F \<and>
    (\<forall>V q. q \<notin> set (concat (map sensor_pins sensor_ports)) \<longrightarrow> F V q = V q)"
proof -
  have off: "off_gpio (SYSCFG1_BASE + 0x0C)" by (simp add: off_gpio_def is_pinmux_def const_defs)
  obtain F where F: "pin_op init (sensor_init_loop dev sensor_ports :: 's io_state_scheme \<Rightarrow> _) F"
      "\<forall>V q. q \<notin> (\<Union>p \<in> set sensor_ports. {Sensor.pin1 p, Sensor.pin2 p, pin5 p, pin6 p, buffer p}) \<longrightarrow> F V q = V q"
    using sensor_init_loop_op [OF assms sensor_known] by blast
  show ?thesis
    unfolding sensor_init_def [abs_def]
    by (rule exI, rule conjI, rule pin_op_bind [OF F(1) pin_op_rmw32 [OF off]]) (use F(2) in \<open>auto simp: sensor_pins_def\<close>)
qed

text \<open>The pins of the four drivers are apart, so that the effects of the constructors do not meet.\<close>

lemma driver_pins_apart:
  defines "MP \<equiv> \<Union>p \<in> set motor_ports. port_pins p" and "SP \<equiv> set (concat (map sensor_pins sensor_ports))"
  shows "pin_of b \<in> button_pin ` set buttons"
    and "pin_of b \<notin> led_pins" "pin_of b \<notin> MP" "pin_of b \<notin> SP"
    and "q \<in> led_pins \<Longrightarrow> q \<notin> MP" "q \<in> led_pins \<Longrightarrow> q \<notin> SP" "q \<in> MP \<Longrightarrow> q \<notin> SP"
proof -
  have L: "led_pins = set (concat (map (\<lambda>l. [Led.pin1 l, Led.pin2 l]) leds))"
    by (simp add: led_pins_def leds_def)
  have M: "MP = set (concat (map motor_pins motor_ports))" by (auto simp: MP_def port_pins_def motor_pins_def)
  have apart: "button_pin ` set buttons \<inter> (led_pins \<union> MP \<union> SP) = {}" "led_pins \<inter> (MP \<union> SP) = {}" "MP \<inter> SP = {}"
    using driver_pins_distinct unfolding distinct_append set_append L M SP_def set_map [of button_pin] by blast+
  show b: "pin_of b \<in> button_pin ` set buttons" using button_no_less [of b] by simp
  then show "pin_of b \<notin> led_pins" "pin_of b \<notin> MP" "pin_of b \<notin> SP" using apart(1) by blast+
  show "q \<in> led_pins \<Longrightarrow> q \<notin> MP" "q \<in> led_pins \<Longrightarrow> q \<notin> SP" "q \<in> MP \<Longrightarrow> q \<notin> SP" using apart(2,3) by blast+
qed

lemma drivers_init_view:
  assumes "gpio_registers init dev" "spi_responds answer dev"
  shows "\<exists>saved s' B S V. drivers_init dev s = Some (saved, s') \<and>
    (\<forall>V q. B V q = (if q \<in> button_pin ` set buttons then Some (in_pin q (is_high (the (V q)))) else V q)) \<and>
    (\<forall>V q. q \<notin> set (concat (map sensor_pins sensor_ports)) \<longrightarrow> S V q = V q) \<and>
    pin_view init (io s') = S (\<lambda>q. if q \<in> (\<Union>p \<in> set motor_ports. port_pins p) then Some (out_pin q False)
      else if q \<in> led_pins then Some (out_pin q False) else B V q)"
proof -
  obtain saved s1 where s1: "spi_init dev s = Some (saved, s1)" using spi_init_returns [OF assms(1)] by blast
  obtain s2 where s2: "adc_init dev s1 = Some s2" using adc_init_returns [OF assms] by blast
  obtain B where B: "pin_op init (button_init dev :: 'a io_state_scheme \<Rightarrow> _) B"
      "\<forall>V q. B V q = (if q \<in> button_pin ` set buttons then Some (in_pin q (is_high (the (V q)))) else V q)"
    using button_init_op [OF assms(1)] by blast
  obtain S where S: "pin_op init (sensor_init dev :: 'a io_state_scheme \<Rightarrow> _) S"
      "\<forall>V q. q \<notin> set (concat (map sensor_pins sensor_ports)) \<longrightarrow> S V q = V q"
    using sensor_init_op [OF assms(1)] by blast
  note ops = pin_op_bind [OF B(1) pin_op_bind [OF led_init_op [OF assms(1)] pin_op_bind [OF motor_init_op [OF assms(1)] S(1)]]]
  from pin_opD [OF ops, of s2]
  obtain s' where s': "button_init dev s2 \<bind> (\<lambda>s. led_init dev s \<bind> (\<lambda>s. motor_init dev s \<bind> sensor_init dev)) = Some s'"
      "pin_view init (io s') = S (\<lambda>q. if q \<in> (\<Union>p \<in> set motor_ports. port_pins p) then Some (out_pin q False)
        else if q \<in> led_pins then Some (out_pin q False) else B (pin_view init (io s2)) q)" by blast
  have "drivers_init dev s = Some (saved, s')" using s'(1) by (auto simp: drivers_init_def s1 s2 bind_eq_Some_conv)
  then show ?thesis using B(2) S(2) s'(2) by blast
qed



end
