(* ===== verification/Board_Ev3.thy ===== *)
theory Board_Ev3
  imports Scheduler Stdio Polling "HOL-Library.Monad_Syntax"
begin

text \<open>
  The branches of the kernel for the second board, the EV3: its memory map (\<^verbatim>\<open>kernel/memory.h\<close>), the timer
  (\<^verbatim>\<open>kernel/drivers/timer.c\<close>), the interrupt controller and the vector table (\<^verbatim>\<open>kernel/interrupt.c\<close>), the
  acknowledgement of the timer interrupt (\<^verbatim>\<open>kernel/interrupt_handler.S\<close>) and the serial port
  (\<^verbatim>\<open>libc/stdio/putchar.c\<close>). All other theories are about the VersatilePB build and the code both share.
\<close>

section \<open>Memory map\<close>

definition IRQ_STACK_ADDRESS_EV3 :: u32 where "IRQ_STACK_ADDRESS_EV3 = 0xC5000000"
definition TIMER0_BASE :: addr where [const_defs]: "TIMER0_BASE = 0x01C20000"
definition TIMER0_TCR :: addr where [const_defs]: "TIMER0_TCR = TIMER0_BASE + 0x20"
definition TIMER0_TGCR :: addr where [const_defs]: "TIMER0_TGCR = TIMER0_BASE + 0x24"
definition TIMER0_PRD34 :: addr where [const_defs]: "TIMER0_PRD34 = TIMER0_BASE + 0x1C"
definition TIMER0_INTCTLSTAT :: addr where [const_defs]: "TIMER0_INTCTLSTAT = TIMER0_BASE + 0x44"
definition TIMER0_INTCTLSTAT_ASM :: addr where [const_defs]: "TIMER0_INTCTLSTAT_ASM = 0x01C20044"

definition ENAMODE34 :: u32 where [const_defs]: "ENAMODE34 = push_bit 22 3"
definition ENAMODE34_CONTIN :: u32 where [const_defs]: "ENAMODE34_CONTIN = push_bit 22 2"
definition PSC34 :: u32 where [const_defs]: "PSC34 = push_bit 8 15"
definition PSC34_VALUE :: u32 where [const_defs]: "PSC34_VALUE = push_bit 8 15"
definition TIMMODE :: u32 where [const_defs]: "TIMMODE = push_bit 2 3"
definition TIMMODE_UNCHAINED :: u32 where [const_defs]: "TIMMODE_UNCHAINED = push_bit 2 1"
definition TIM34RS_REMOVE :: u32 where [const_defs]: "TIM34RS_REMOVE = push_bit 1 1"
definition CLEARTIMER34_ASM :: u32 where [const_defs]: "CLEARTIMER34_ASM = 0x30000"
definition PRDINTSTAT34 :: u32 where [const_defs]: "PRDINTSTAT34 = push_bit 17 1"
definition PRDINTEN34 :: u32 where [const_defs]: "PRDINTEN34 = push_bit 16 1"

definition AINTC_BASE :: addr where [const_defs]: "AINTC_BASE = 0xFFFEE000"
definition AINTC_SECR1_ASM :: addr where [const_defs]: "AINTC_SECR1_ASM = 0xFFFEE280"
definition AINTC_GER :: addr where [const_defs]: "AINTC_GER = AINTC_BASE + 0x0010"
definition AINTC_SECR1 :: addr where [const_defs]: "AINTC_SECR1 = AINTC_BASE + 0x0280"
definition AINTC_ESR1 :: addr where [const_defs]: "AINTC_ESR1 = AINTC_BASE + 0x0300"
definition AINTC_CMR5 :: addr where [const_defs]: "AINTC_CMR5 = AINTC_BASE + 0x0414"
definition AINTC_HIER :: addr where [const_defs]: "AINTC_HIER = AINTC_BASE + 0x1500"

definition GER_ENABLE :: u32 where [const_defs]: "GER_ENABLE = 1"
definition T64P0_TINT34 :: u32 where [const_defs]: "T64P0_TINT34 = push_bit 22 1"
definition T64P0_TINT34_ASM :: u32 where [const_defs]: "T64P0_TINT34_ASM = 0x400000"
definition HIER_IRQ :: u32 where [const_defs]: "HIER_IRQ = push_bit 1 1"

definition IVT_OFFSET_EV3 :: addr where [const_defs]: "IVT_OFFSET_EV3 = 0xFFFF0000"
definition TIMER_LOAD_VALUE_EV3 :: u32 where "TIMER_LOAD_VALUE_EV3 = 0x10000"
definition UART_LSR :: addr where [const_defs]: "UART_LSR = 0x01D0C014"

text \<open>The assembly code cannot use the C expressions and repeats their values.\<close>

lemma asm_constants_agree:
  "TIMER0_INTCTLSTAT_ASM = TIMER0_INTCTLSTAT" "AINTC_SECR1_ASM = AINTC_SECR1"
  "CLEARTIMER34_ASM = PRDINTSTAT34 OR PRDINTEN34" "T64P0_TINT34_ASM = T64P0_TINT34"
  by (simp_all add: const_defs)

section \<open>The timer\<close>

definition timer_start_ev3 :: "device \<Rightarrow> u32 \<Rightarrow> 's io_state_scheme \<Rightarrow> 's io_state_scheme" where
  "timer_start_ev3 dev period s =
     (let s = rmw32 dev TIMER0_TCR (\<lambda>v. v AND NOT ENAMODE34) s;
          s = rmw32 dev TIMER0_TGCR (\<lambda>v. v AND NOT TIM34RS_REMOVE) s;
          s = rmw32 dev TIMER0_TGCR (\<lambda>v. v AND NOT TIMMODE) s;
          s = rmw32 dev TIMER0_TGCR (\<lambda>v. v OR TIMMODE_UNCHAINED) s;
          s = rmw32 dev TIMER0_TGCR (\<lambda>v. v OR TIM34RS_REMOVE) s;
          s = write32 TIMER0_PRD34 period s;
          s = rmw32 dev TIMER0_TGCR (\<lambda>v. v AND NOT PSC34) s;
          s = rmw32 dev TIMER0_TGCR (\<lambda>v. v OR PSC34_VALUE) s;
          s = rmw32 dev TIMER0_INTCTLSTAT (\<lambda>v. v OR PRDINTSTAT34) s;
          s = rmw32 dev TIMER0_INTCTLSTAT (\<lambda>v. v OR PRDINTEN34) s
      in rmw32 dev TIMER0_TCR (\<lambda>v. v OR ENAMODE34_CONTIN) s)"

definition timer_stop_ev3 :: "device \<Rightarrow> 's io_state_scheme \<Rightarrow> 's io_state_scheme" where
  "timer_stop_ev3 dev s =
     (let s = rmw32 dev TIMER0_TCR (\<lambda>v. v AND NOT ENAMODE34) s
      in rmw32 dev TIMER0_INTCTLSTAT (\<lambda>v. v OR PRDINTSTAT34) s)"

lemma mem_after_rmw32 [mem_simps]:
  "mem_after m (io (rmw32 (ram_device m) a f s)) =
     store32 (mem_after m (io s)) a (f (load32 (mem_after m (io s)) a))"
proof -
  have "read32 (ram_device m) a s = (load32 (mem_after m (io s)) a,
      s\<lparr>io := In 4 a (take_bit 32 (load_le (mem_after m (io s)) a 4)) # io s\<rparr>)"
    by (simp add: read32_def bus_read_def ram_device_def Let_def ucast_take_load)
  then show ?thesis by (simp add: rmw32_def mem_after_write32 store32_def)
qed

text \<open>The four registers lie apart; what each operation leaves in them is what its statements leave.\<close>

lemma timer0_disjoint:
  "disjoint_ranges TIMER0_TCR 4 TIMER0_TGCR 4" "disjoint_ranges TIMER0_TGCR 4 TIMER0_TCR 4"
  "disjoint_ranges TIMER0_TCR 4 TIMER0_PRD34 4" "disjoint_ranges TIMER0_PRD34 4 TIMER0_TCR 4"
  "disjoint_ranges TIMER0_TCR 4 TIMER0_INTCTLSTAT 4" "disjoint_ranges TIMER0_INTCTLSTAT 4 TIMER0_TCR 4"
  "disjoint_ranges TIMER0_TGCR 4 TIMER0_PRD34 4" "disjoint_ranges TIMER0_PRD34 4 TIMER0_TGCR 4"
  "disjoint_ranges TIMER0_TGCR 4 TIMER0_INTCTLSTAT 4" "disjoint_ranges TIMER0_INTCTLSTAT 4 TIMER0_TGCR 4"
  "disjoint_ranges TIMER0_PRD34 4 TIMER0_INTCTLSTAT 4" "disjoint_ranges TIMER0_INTCTLSTAT 4 TIMER0_PRD34 4"
  by (simp_all add: disjoint_rangesI const_defs)

lemma set_fields:
  fixes v :: u32
  assumes "c AND p = 0" "a AND p = 0"
  shows "((((v AND NOT a) AND NOT b) OR c) OR a) AND NOT p OR p = (v AND NOT (a OR b OR p)) OR (a OR c OR p)"
proof (rule bit_word_eqI)
  fix n assume "n < LENGTH(32)"
  have "\<not> (bit c n \<and> bit p n)" "\<not> (bit a n \<and> bit p n)"
    using arg_cong [OF assms(1), of "\<lambda>x. bit x n"] arg_cong [OF assms(2), of "\<lambda>x. bit x n"] by (simp_all add: bit_simps)
  then show "bit (((((v AND NOT a) AND NOT b) OR c) OR a) AND NOT p OR p) n = bit ((v AND NOT (a OR b OR p)) OR (a OR c OR p)) n"
    using \<open>n < LENGTH(32)\<close> by (auto simp: bit_simps)
qed

text \<open>
  On registers that keep what is written, \<^verbatim>\<open>timer_start\<close> sets the period, lets the upper half of the timer run
  continuously as a 32-bit timer of its own with the largest prescaler and its interrupt enabled. The fields
  of the lower half in the shared registers, and every other byte, are as they were.
\<close>

theorem timer_start_ev3_registers:
  fixes m :: mem and s :: "'s io_state_scheme" and period :: u32
  defines "r \<equiv> mem_after m (io s)" and "r' \<equiv> mem_after m (io (timer_start_ev3 (ram_device m) period s))"
  shows "load32 r' TIMER0_PRD34 = period \<and>
    load32 r' TIMER0_TCR = (load32 r TIMER0_TCR AND NOT 0xC00000) OR 0x800000 \<and>
    load32 r' TIMER0_TGCR = (load32 r TIMER0_TGCR AND NOT 0xF0E) OR 0xF06 \<and>
    load32 r' TIMER0_INTCTLSTAT = load32 r TIMER0_INTCTLSTAT OR 0x30000 \<and>
    (\<forall>x. \<not> in_range x TIMER0_TCR 4 \<and> \<not> in_range x TIMER0_TGCR 4 \<and> \<not> in_range x TIMER0_PRD34 4 \<and>
       \<not> in_range x TIMER0_INTCTLSTAT 4 \<longrightarrow> r' x = r x)"
proof (intro conjI allI impI)
  note regs = r'_def timer_start_ev3_def Let_def mem_simps timer0_disjoint
  show "load32 r' TIMER0_PRD34 = period"
    by (simp add: regs flip: r_def store32_def)
  show "load32 r' TIMER0_TCR = (load32 r TIMER0_TCR AND NOT 0xC00000) OR 0x800000"
    by (simp add: regs ENAMODE34_def ENAMODE34_CONTIN_def flip: r_def store32_def)
  have "load32 r' TIMER0_TGCR = (load32 r TIMER0_TGCR AND NOT (TIM34RS_REMOVE OR TIMMODE OR PSC34)) OR
      (TIM34RS_REMOVE OR TIMMODE_UNCHAINED OR PSC34)"
    by (subst set_fields [symmetric]) (simp_all add: TIMMODE_UNCHAINED_def TIM34RS_REMOVE_def PSC34_def,
      simp add: regs TIMMODE_UNCHAINED_def TIM34RS_REMOVE_def PSC34_def PSC34_VALUE_def flip: r_def store32_def)
  then show "load32 r' TIMER0_TGCR = (load32 r TIMER0_TGCR AND NOT 0xF0E) OR 0xF06" by (simp add: const_defs)
  show "load32 r' TIMER0_INTCTLSTAT = load32 r TIMER0_INTCTLSTAT OR 0x30000"
    by (simp add: regs PRDINTSTAT34_def PRDINTEN34_def or.assoc flip: r_def store32_def)
  show "r' x = r x" if "\<not> in_range x TIMER0_TCR 4 \<and> \<not> in_range x TIMER0_TGCR 4 \<and> \<not> in_range x TIMER0_PRD34 4 \<and>
       \<not> in_range x TIMER0_INTCTLSTAT 4" for x
    using that by (simp add: regs store32_def flip: r_def)
qed

theorem timer_start_ev3_registers_witness:
  "load32 (mem_after (\<lambda>_. 0) (io (timer_start_ev3 (ram_device (\<lambda>_. 0)) 0x10000 heap0))) TIMER0_PRD34 = 0x10000 \<and>
   load32 (mem_after (\<lambda>_. 0) (io (timer_start_ev3 (ram_device (\<lambda>_. 0)) 0x10000 heap0))) TIMER0_TCR = 0x800000"
proof -
  have "load32 (\<lambda>_. 0) a = 0" for a by (simp add: load32_def eval_nat_numeral)
  then show ?thesis using timer_start_ev3_registers [of "\<lambda>_. 0" "0x10000" heap0] by (simp add: heap0_def)
qed

section \<open>Interrupts\<close>

text \<open>
  The vector table lies at the upper end of the address space; the last value is that of the control register
  \<^verbatim>\<open>c1\<close> of coprocessor 15, in which the V bit moves the table there.
\<close>

definition setup_ivt_ev3 :: "u32 \<Rightarrow> u32 \<Rightarrow> u32 \<Rightarrow> 's sched_state_scheme \<Rightarrow> u32 \<times> 's sched_state_scheme" where
  "setup_ivt_ev3 syscall_addr irq_addr c1 s =
     (c1 OR 0x2000,
      s\<lparr>ram := fold (\<lambda>(a, v) m. store32 m (IVT_OFFSET_EV3 + a) v)
       [(0x00, 0),
        (0x04, 0xe59ff014), (0x08, 0xe59ff014), (0x0c, 0xe59ff014), (0x10, 0xe59ff014),
        (0x14, 0xe59ff014), (0x18, 0xe59ff014), (0x1c, 0xe59ff014),
        (0x20, 0), (0x24, syscall_addr), (0x28, 0), (0x2c, 0), (0x30, 0), (0x34, irq_addr), (0x38, 0)]
       (ram s)\<rparr>)"

definition init_timer_interrupt_ev3 :: "device \<Rightarrow> 's io_state_scheme \<Rightarrow> 's io_state_scheme" where
  "init_timer_interrupt_ev3 dev s =
     (let s = rmw32 dev AINTC_ESR1 (\<lambda>v. v OR T64P0_TINT34) s
      in rmw32 dev AINTC_CMR5 (\<lambda>v. v OR push_bit (2 * 8) 2) s)"

text \<open>
  \<^verbatim>\<open>init_interrupt_controller\<close> up to its last call: \<^verbatim>\<open>init_pci_interrupt\<close> uses registers \<^verbatim>\<open>memory.h\<close> does not
  define for this board.
\<close>

definition init_interrupt_controller_ev3 :: "device \<Rightarrow> 's io_state_scheme \<Rightarrow> 's io_state_scheme" where
  "init_interrupt_controller_ev3 dev s =
     (let s = write32 AINTC_SECR1 0xFFFFFFFF s;
          s = write32 AINTC_GER GER_ENABLE s;
          s = rmw32 dev AINTC_HIER (\<lambda>v. v OR HIER_IRQ) s
      in init_timer_interrupt_ev3 dev s)"

definition irq_handler_timer_ev3 :: "'s sched_state_scheme \<Rightarrow> 's sched_state_scheme" where
  "irq_handler_timer_ev3 s =
     (let s = schedule s;
          s = write32 TIMER0_INTCTLSTAT_ASM CLEARTIMER34_ASM s
      in write32 AINTC_SECR1_ASM T64P0_TINT34_ASM s)"

text \<open>The vectors: a load of the program counter from 0x1c bytes on, where the address of the handler is.\<close>

lemma ivt_ev3_entry: "unat a < 0x40 \<Longrightarrow> unat (IVT_OFFSET_EV3 + a) = 0xFFFF0000 + unat a"
  by (subst unat_add_lem [THEN iffD1]) (simp_all add: IVT_OFFSET_EV3_def)

lemma setup_ivt_ev3_vectors:
  "load32 (ram (snd (setup_ivt_ev3 sys irq c1 s))) (IVT_OFFSET_EV3 + 0x08) = 0xe59ff014 \<and>
   load32 (ram (snd (setup_ivt_ev3 sys irq c1 s))) (IVT_OFFSET_EV3 + 0x18) = 0xe59ff014 \<and>
   load32 (ram (snd (setup_ivt_ev3 sys irq c1 s))) (IVT_OFFSET_EV3 + 0x24) = sys \<and>
   load32 (ram (snd (setup_ivt_ev3 sys irq c1 s))) (IVT_OFFSET_EV3 + 0x34) = irq"
proof -
  have d: "disjoint_ranges (IVT_OFFSET_EV3 + a) 4 (IVT_OFFSET_EV3 + b) 4"
    if "unat a + 4 \<le> unat b \<or> unat b + 4 \<le> unat a" "unat a < 0x40" "unat b < 0x40" for a b :: addr
    using that by (intro disjoint_rangesI) (auto simp: ivt_ev3_entry)
  show ?thesis by (simp add: setup_ivt_ev3_def load32_store32_same load32_store32_other d del: IVT_OFFSET_EV3_def)
qed

text \<open>The context switch is the same on both boards: the tick rotates the tasks and keeps their contexts.\<close>

lemma irq_handler_timer_ev3_running:
  "running t \<Longrightarrow> running (irq_handler_timer_ev3 t) \<and> tasks (irq_handler_timer_ev3 t) = tasks t \<and>
   active (irq_handler_timer_ev3 t) = rotate1 (active t)"
proof -
  assume "running t"
  then have "running (schedule t)" "active (schedule t) = rotate1 (active t)"
    using schedule_active [of t] by (simp_all add: running_def)
  then show ?thesis by (simp add: irq_handler_timer_ev3_def mmio_defs frame_simps Let_def)
qed

theorem irq_handler_ev3_returns:
  assumes "running s"
  shows "\<exists>s'. irq_handler irq_handler_timer_ev3 s = Some s' \<and> active s' = rotate1 (active s) \<and>
    (\<forall>i < 16. contexts s' i = contexts s i)"
  using irq_handler_contexts [OF assms, of irq_handler_timer_ev3] irq_handler_timer_ev3_running by fastforce

section \<open>The serial port\<close>

text \<open>\<^verbatim>\<open>while (!(*UART_LSR & (1 << 5)));\<close>\<close>

partial_function (option) uart_wait :: "device \<Rightarrow> 's io_state_scheme \<Rightarrow> 's io_state_scheme option" where
  "uart_wait dev s =
     (let (v, s) = read8 dev UART_LSR s in if v AND push_bit 5 1 = 0 then uart_wait dev s else Some s)"

definition putchar_ev3 :: "device \<Rightarrow> int \<Rightarrow> 's io_state_scheme \<Rightarrow> (int \<times> 's io_state_scheme) option" where
  "putchar_ev3 dev c s =
     do { s \<leftarrow> (if c = 10 then map_option (putchar_raw 13) (uart_wait dev s) else Some s);
          s \<leftarrow> uart_wait dev s;
          Some (c, putchar_raw c s) }"

text \<open>The port is ready when the bit is set.\<close>

definition uart_ready :: "u64 \<Rightarrow> bool" where
  "uart_ready v \<longleftrightarrow> (ucast v :: u8) AND push_bit 5 1 \<noteq> 0"

interpretation uart: polling_loop uart_wait 1 UART_LSR "\<lambda>v. \<not> uart_ready v"
  by standard (subst uart_wait.simps, simp add: read8_def uart_ready_def split_beta Let_def)

text \<open>
  On a port that always becomes ready again, \<^verbatim>\<open>putchar\<close> returns and prints what it prints on the other board:
  the character, after a carriage return if it is a newline.
\<close>

theorem putchar_ev3_prints:
  assumes "\<And>h. \<exists>k. uart_ready (polled dev 1 UART_LSR k h)"
  shows "\<exists>h. putchar_ev3 dev c s = Some (c, snd (putchar c s)\<lparr>io := h\<rparr>)"
proof -
  have wait: "\<exists>h. uart_wait dev t = Some (t\<lparr>io := h\<rparr>)" for t :: "'a io_state_scheme"
    using uart.loop_extends [of dev _ t] assms [of "io t"] by blast
  obtain h1 where h1: "uart_wait dev s = Some (s\<lparr>io := h1\<rparr>)" using wait by blast
  obtain h2 where "uart_wait dev (putchar_raw 13 (s\<lparr>io := h1\<rparr>)) = Some (putchar_raw 13 (s\<lparr>io := h1\<rparr>)\<lparr>io := h2\<rparr>)"
    using wait by blast
  moreover obtain h3 where "uart_wait dev (putchar_raw 13 (s\<lparr>io := h1\<rparr>)\<lparr>io := h2\<rparr>) = Some (putchar_raw 13 (s\<lparr>io := h1\<rparr>)\<lparr>io := h3\<rparr>)"
    using wait [of "putchar_raw 13 (s\<lparr>io := h1\<rparr>)\<lparr>io := h2\<rparr>"] by auto
  moreover have "putchar_raw x (t\<lparr>io := h\<rparr>) = putchar_raw x t\<lparr>io := h\<rparr>" for x h and t :: "'a io_state_scheme"
    by (simp add: putchar_raw_def)
  ultimately show ?thesis using h1 by (cases "c = 10") (auto simp: putchar_ev3_def putchar_def Let_def)
qed

theorem putchar_ev3_prints_witness:
  "\<exists>s. putchar_ev3 (\<lambda>_ _ _. 0x20) 10 io0 = Some (10, s) \<and> console s = [CHR 0x0D, CHR 0x0A]"
proof -
  have "\<exists>k. uart_ready (polled (\<lambda>_ _ _. 0x20) 1 UART_LSR k h)" for h
    by (rule exI [of _ 0]) (simp add: uart_ready_def)
  from putchar_ev3_prints [OF this, of 10 io0] show ?thesis
    by (auto simp: putchar_def putchar_raw_def Let_def io0_def char_of_def)
qed

end
