(* ===== verification/Kernel_Run.thy ===== *)
theory Kernel_Run
  imports Kernel
begin

text \<open>
  The running kernel as a transition system: interrupts, rounds of the network task, instructions of the
  tasks and system calls, in any order. The invariant says that the data structures of every component are
  well formed and that the heap has room for the next reply; every event keeps it and none can fail, so the
  kernel never dereferences a null pointer, never leaves an array and never runs out of memory for a reply,
  however long it runs.
\<close>

section \<open>Events\<close>

text \<open>
  \<open>Task_Step\<close>: the current task executes; it changes the registers and writes some bytes.
  \<open>Create_Process\<close>: it makes the system call, with the argument block at the first address.
\<close>

datatype kernel_event =
    Interrupt
  | Network_Round
  | Task_Step task_t "(addr \<times> u8) list"
  | Create_Process addr u32

definition write_bytes :: "(addr \<times> u8) list \<Rightarrow> mem \<Rightarrow> mem" where
  "write_bytes ws m = fold (\<lambda>(a, v) m. m(a := v)) ws m"

fun kernel_step :: "device \<Rightarrow> addr \<Rightarrow> kernel_event \<Rightarrow> routing_state \<Rightarrow> routing_state option" where
  "kernel_step dev frame_addr Interrupt s = kernel_irq dev s"
| "kernel_step dev frame_addr Network_Round s = network_task_round dev frame_addr s"
| "kernel_step dev frame_addr (Task_Step c ws) s = Some (s\<lparr>cpu := c, ram := write_bytes ws (ram s)\<rparr>)"
| "kernel_step dev frame_addr (Create_Process spec function) s = map_option snd (create_process spec function s)"

fun kernel_run :: "device \<Rightarrow> addr \<Rightarrow> kernel_event list \<Rightarrow> routing_state \<Rightarrow> routing_state option" where
  "kernel_run dev frame_addr [] s = Some s"
| "kernel_run dev frame_addr (e # es) s = do { s \<leftarrow> kernel_step dev frame_addr e s; kernel_run dev frame_addr es s }"

text \<open>A task writes outside the heap only, its own variables among them.\<close>

fun event_ok :: "kernel_event \<Rightarrow> bool" where
  "event_ok (Task_Step c ws) \<longleftrightarrow> (\<forall>(a, v) \<in> set ws. \<not> heap_arena a)"
| "event_ok (Create_Process spec function) \<longleftrightarrow> stack_slot spec 4"
| "event_ok e \<longleftrightarrow> True"

section \<open>The invariant\<close>

text \<open>
  The card keeps its documented behaviour in every state with these descriptors: the receive loop finds
  finitely many frames ready, none longer than a buffer.
\<close>

definition card_delivers :: "device \<Rightarrow> e1000_device_t \<Rightarrow> bool" where
  "card_delivers dev n \<longleftrightarrow> (\<forall>(s :: routing_state) k j. e1000 s = Some (n\<lparr>rx_cur := k, tx_cur := j\<rparr>) \<longrightarrow> unat k < 32 \<longrightarrow>
     queue_ok s \<longrightarrow> (\<exists>frames. pending dev s frames \<and> list_all (\<lambda>f. length f \<le> 8192) frames))"

text \<open>The live heap objects are \<open>objs\<close>, and an ARP frame can be allocated.\<close>

definition heap_holds :: "(addr \<Rightarrow> nat option) \<Rightarrow> 's heap_state_scheme \<Rightarrow> bool" where
  "heap_holds objs s \<longleftrightarrow> (\<exists>bs fs. heap_rep bs fs s \<and> heap_object (bs, fs) s = objs \<and> heap_room fs 60 s)"

lemma heap_holds_cong:
  assumes "ram s' = ram s" "current_heap_address s' = current_heap_address s"
    "free_block_list_head_next s' = free_block_list_head_next s"
  shows "heap_holds objs s' = heap_holds objs s"
proof -
  have "heap_object g s' = heap_object g s" for g by (simp add: heap_object_def fun_eq_iff assms)
  then show ?thesis using assms by (simp add: heap_holds_def heap_rep_def heap_room_def)
qed

definition kernel_ok :: "device \<Rightarrow> e1000_device_t \<Rightarrow> (addr \<Rightarrow> nat option) \<Rightarrow> routing_state \<Rightarrow> bool" where
  "kernel_ok dev n objs s \<longleftrightarrow>
     sched_inv s \<and> current_task s \<noteq> None \<and> queue_ok s \<and> arp_ready s \<and>
     (\<exists>k j. net_ready dev s (n\<lparr>rx_cur := k, tx_cur := j\<rparr>) \<and> unat k < 32) \<and>
     heap_holds objs s"

lemmas kernel_parts = kernel_ok_def sched_inv_def sched_ok_def active_def run_queue_def queue_ok_def arp_ready_def
  net_ready_def

lemma kernel_ok_frame:
  "kernel_ok dev n objs (s\<lparr>io := h\<rparr>) = kernel_ok dev n objs s"
  "kernel_ok dev n objs (s\<lparr>cpu := c\<rparr>) = kernel_ok dev n objs s"
  "kernel_ok dev n objs (s\<lparr>clock := t\<rparr>) = kernel_ok dev n objs s"
  "kernel_ok dev n objs (s\<lparr>console := l\<rparr>) = kernel_ok dev n objs s"
  "kernel_ok dev n objs (s\<lparr>errno := v\<rparr>) = kernel_ok dev n objs s"
  using heap_holds_cong [of "s\<lparr>io := h\<rparr>" s] heap_holds_cong [of "s\<lparr>cpu := c\<rparr>" s] heap_holds_cong [of "s\<lparr>clock := t\<rparr>" s]
    heap_holds_cong [of "s\<lparr>console := l\<rparr>" s] heap_holds_cong [of "s\<lparr>errno := v\<rparr>" s]
  by (simp_all add: kernel_parts)

text \<open>The scheduler's part can be replaced by any other that keeps its invariant.\<close>

lemma kernel_ok_sched:
  assumes "kernel_ok dev n objs s" "sched_inv s'" "current_task s' \<noteq> None"
    and "s' = s\<lparr>tasks := ts, ring_buffer := r, buffer_end := b, buffer_start := a, task_count := c, current_task := t\<rparr>"
  shows "kernel_ok dev n objs s'"
  using assms(1-3) heap_holds_cong [of s' s] unfolding kernel_ok_def assms(4)
  by (simp add: queue_ok_def arp_ready_def net_ready_def)

lemma kernel_ok_ram:
  assumes "kernel_ok dev n objs s" "\<And>x. heap_arena x \<Longrightarrow> m x = ram s x"
  shows "kernel_ok dev n objs (s\<lparr>ram := m\<rparr>)"
proof -
  obtain bs fs where h: "heap_rep bs fs s" "heap_object (bs, fs) s = objs" "heap_room fs 60 s"
    using assms(1) by (auto simp: kernel_ok_def heap_holds_def)
  have "m x = ram s x" if "\<not> user_byte bs fs (ram s) x" for x
    using that user_byte_object [OF h(1)] assms(2) by blast
  note same = heap_rep_user_write [OF h(1) this]
  have "heap_object (bs, fs) (s\<lparr>ram := m\<rparr>) = objs"
    using same(2) by (auto simp: fun_eq_iff heap_object_def live_def simp flip: h(2))
  moreover have "heap_room fs 60 (s\<lparr>ram := m\<rparr>)" using h(1,3) same(2) by (auto simp: heap_room_def heap_rep_def subset_iff)
  moreover have "heap_rep bs fs (s\<lparr>ram := m\<rparr>)" by (rule same(1))
  ultimately have "heap_holds objs (s\<lparr>ram := m\<rparr>)" by (auto simp: heap_holds_def)
  moreover have "sched_inv (s\<lparr>ram := m\<rparr>)" "queue_ok (s\<lparr>ram := m\<rparr>)" "arp_ready (s\<lparr>ram := m\<rparr>)"
    "net_ready dev (s\<lparr>ram := m\<rparr>) n' = net_ready dev s n'" for n'
    using assms(1) by (simp_all add: kernel_ok_def frame_simps queue_ok_def arp_ready_def net_ready_def)
  ultimately show ?thesis using assms(1) unfolding kernel_ok_def by auto
qed

section \<open>Interrupts\<close>

lemma start_link_io:
  assumes "e1000 s = Some n"
  shows "\<exists>h. start_link dev s = Some (s\<lparr>io := h\<rparr>)"
proof -
  obtain v h where r: "read_command dev (ucast REG_CTRL) s = Some (v, s\<lparr>io := h\<rparr>)" using read_command_io [OF assms] by blast
  show ?thesis
    using write_command_io [of "s\<lparr>io := h\<rparr>" n dev REG_CTRL "v OR ECTRL_SLU"] assms by (auto simp: start_link_def r)
qed

lemma e1000_irq_handler_returns:
  assumes nic: "e1000 s = Some n" "pci_device n \<noteq> None" "unat (rx_cur n) < 32" and q: "queue_ok s"
    and card: "\<And>h. \<exists>frames. pending dev (s\<lparr>io := h\<rparr>) frames \<and> list_all (\<lambda>f. length f \<le> 8192) frames"
  shows "\<exists>s' k. e1000_irq_handler dev s = Some s' \<and> recv_only s s' \<and> queue_ok s' \<and>
    e1000 s' = Some (n\<lparr>rx_cur := k\<rparr>) \<and> unat k < 32 \<and> slot_kept s s' \<and> (\<exists>new. packets s' = take 127 (packets s @ new))"
proof -
  obtain h1 where h1: "write_command dev REG_IMASK 1 s = Some (s\<lparr>io := h1\<rparr>)" using write_command_io [OF nic(1)] by blast
  obtain cause h2 where h2: "read_command dev (ucast REG_INT_CAUSE) (s\<lparr>io := h1\<rparr>) = Some (cause, s\<lparr>io := h2\<rparr>)"
    using read_command_io [of "s\<lparr>io := h1\<rparr>" n dev "ucast REG_INT_CAUSE"] nic(1) by auto
  obtain h3 where h3: "(if cause AND LSC \<noteq> 0 then start_link dev (s\<lparr>io := h2\<rparr>) else Some (s\<lparr>io := h2\<rparr>)) = Some (s\<lparr>io := h3\<rparr>)"
    using start_link_io [of "s\<lparr>io := h2\<rparr>" n dev] nic(1) by (cases "cause AND LSC = 0") auto
  have run: "e1000_irq_handler dev s = (if cause AND RXT0 \<noteq> 0 then receive_packet dev (s\<lparr>io := h3\<rparr>) else Some (s\<lparr>io := h3\<rparr>))"
    unfolding e1000_irq_handler_def h1 Option.bind_lunit h2 prod.case h3 ..
  let ?s = "s\<lparr>io := h3\<rparr>"
  have s3: "e1000 ?s = Some n" "queue_ok ?s" "packets ?s = packets s" using nic(1) q by (simp_all add: frame_simps)
  obtain frames where frames: "pending dev ?s frames" "list_all (\<lambda>f. length f \<le> 8192) frames" using card by blast
  obtain s' n' where s': "receive_loop dev ?s = Some s'" "queue_ok s'" "e1000 s' = Some n'"
    "unat (rx_cur n') = (unat (rx_cur n) + length frames) mod 32" "packets s' = take 127 (packets s @ frames)"
    using receive_loop_queue [OF frames(1) s3(2,1) nic(3) frames(2)] s3(3) by auto
  have rec: "receive_packet dev ?s = Some s'" using s'(1) nic by (simp add: receive_packet_def e1000_is_available_def)
  have "recv_only s s'" using recv.loop [OF s'(1)] recv_only_io recv_only_trans by blast
  moreover from this obtain k where "n' = n\<lparr>rx_cur := k\<rparr>" using recv_only_fields(11) [of s s'] s'(3) nic(1) by auto
  moreover have "unat (rx_cur n') < 32" using s'(4) by simp
  moreover have "recv_only s ?s" by (rule recv_only_io)
  moreover have "n = n\<lparr>rx_cur := rx_cur n\<rparr>" by simp
  moreover have "slot_kept s ?s" by (rule slot.R_io)
  moreover from this have "slot_kept s s'" using slot.loop [OF s'(1)] by (rule slot.R_trans)
  moreover have "packets ?s = take 127 (packets s @ [])" using packet_ring.queue_bounded [OF q] s3(3) by simp
  ultimately show ?thesis
    using run rec s' s3(1,2) nic by (cases "cause AND RXT0 = 0") (auto intro: exI [of _ "rx_cur n"])
qed

lemma nic_index_eq [simp]:
  "n\<lparr>rx_cur := k, tx_cur := j\<rparr> = n\<lparr>rx_cur := k', tx_cur := j'\<rparr> \<longleftrightarrow> k = k' \<and> j = j'"
  by (cases n) simp

lemma nic_index_order [simp]: "n\<lparr>tx_cur := j, rx_cur := k\<rparr> = n\<lparr>rx_cur := k, tx_cur := j\<rparr>"
  by (cases n) simp

lemma kernel_ok_recv:
  assumes "kernel_ok dev n objs s" "recv_only s s'" "queue_ok s'"
    and "e1000 s = Some (n\<lparr>rx_cur := k, tx_cur := j\<rparr>)" "e1000 s' = Some (n\<lparr>rx_cur := k', tx_cur := j\<rparr>)" "unat k' < 32"
  shows "kernel_ok dev n objs s'"
proof -
  obtain c h e q f where s': "s' = s\<lparr>console := c, io := h, recv_queue_end := e, recv_packet_queue := q, e1000 := f\<rparr>"
    using assms(2) by (auto simp: recv_only_def)
  have "net_ready dev s (n\<lparr>rx_cur := k, tx_cur := j\<rparr>)" using assms(1,4) by (auto simp: kernel_ok_def net_ready_def)
  then have "net_ready dev s' (n\<lparr>rx_cur := k', tx_cur := j\<rparr>)" using assms(5) by (simp add: net_ready_def card_reports_def tx_desc_def)
  moreover have "sched_inv s'" "current_task s' \<noteq> None" "arp_ready s'"
    using assms(1) by (simp_all add: s' kernel_parts)
  moreover have "heap_holds objs s'" using assms(1) heap_holds_cong [of s' s] by (simp add: s' kernel_ok_def)
  ultimately show ?thesis using assms(3,6) unfolding kernel_ok_def by blast
qed

lemma ring_buffer_insert_only: "\<exists>r b. ring_buffer_insert t s = s\<lparr>ring_buffer := r, buffer_end := b\<rparr>"
proof (cases "(buffer_end s + 1) mod 16 = buffer_start s")
  case True
  then have "ring_buffer_insert t s = s\<lparr>ring_buffer := ring_buffer s, buffer_end := buffer_end s\<rparr>"
    by (simp add: ring_buffer_insert_def)
  then show ?thesis by blast
qed (auto simp: ring_buffer_insert_def Let_def)

lemma ring_buffer_remove_only: "\<exists>a. snd (ring_buffer_remove s) = s\<lparr>buffer_start := a\<rparr>"
proof (cases "buffer_start s = buffer_end s")
  case True
  then have "snd (ring_buffer_remove s) = s\<lparr>buffer_start := buffer_start s\<rparr>" by (simp add: ring_buffer_remove_def)
  then show ?thesis by blast
qed (auto simp: ring_buffer_remove_def Let_def)

lemma schedule_only:
  "\<exists>r a b t. schedule s = s\<lparr>ring_buffer := r, buffer_end := b, buffer_start := a, current_task := t\<rparr>"
proof -
  obtain r b where rb: "ring_buffer_insert (current_task s) s = s\<lparr>ring_buffer := r, buffer_end := b\<rparr>"
    using ring_buffer_insert_only by blast
  obtain a where "snd (ring_buffer_remove (s\<lparr>ring_buffer := r, buffer_end := b\<rparr>)) = s\<lparr>ring_buffer := r, buffer_end := b\<rparr>\<lparr>buffer_start := a\<rparr>"
    using ring_buffer_remove_only by blast
  with rb show ?thesis by (auto simp: schedule_def split_beta Let_def)
qed

lemma kernel_ok_handlers:
  assumes "kernel_ok dev n objs s"
  shows "kernel_ok dev n objs (irq_handler_timer s)" "kernel_ok dev n objs (irq_handler_clock s)"
proof -
  obtain r a b t where sch: "schedule s = s\<lparr>ring_buffer := r, buffer_end := b, buffer_start := a, current_task := t\<rparr>"
    using schedule_only by blast
  have "sched_inv (schedule s)" "current_task (schedule s) \<noteq> None"
    using schedule_keeps [of s] assms by (simp_all add: kernel_ok_def)
  then have "kernel_ok dev n objs (schedule s)"
    by (rule kernel_ok_sched [OF assms, where ts = "tasks s" and c = "task_count s"]) (simp add: sch)
  then show "kernel_ok dev n objs (irq_handler_timer s)"
    by (simp add: irq_handler_timer_def write32_def bus_write_def kernel_ok_frame)
  show "kernel_ok dev n objs (irq_handler_clock s)"
    using assms by (simp add: irq_handler_clock_def write8_def bus_write_def kernel_ok_frame Let_def)
qed

lemma handler_wire: "wire (irq_handler_timer s) = wire s" "wire (irq_handler_clock s) = wire s"
  using schedule_only [of s] by (auto simp: irq_handler_timer_def irq_handler_clock_def write32_def write8_def bus_write_def Let_def)

lemma kernel_ok_e1000_irq:
  assumes "kernel_ok dev n objs s" "card_delivers dev n"
  shows "\<exists>s'. e1000_irq_handler dev s = Some s' \<and> kernel_ok dev n objs s' \<and> wire s' = wire s"
proof -
  obtain k j where nic: "net_ready dev s (n\<lparr>rx_cur := k, tx_cur := j\<rparr>)" "unat k < 32" using assms(1) by (auto simp: kernel_ok_def)
  let ?n = "n\<lparr>rx_cur := k, tx_cur := j\<rparr>"
  have e: "e1000 s = Some ?n" "pci_device ?n \<noteq> None" "unat (rx_cur ?n) < 32" "queue_ok s"
    using nic assms(1) by (simp_all add: net_ready_def kernel_ok_def)
  have "\<exists>frames. pending dev (s\<lparr>io := h\<rparr>) frames \<and> list_all (\<lambda>f. length f \<le> 8192) frames" for h
    using assms(2) e(1,4) nic(2) by (simp add: card_delivers_def frame_simps)
  from e1000_irq_handler_returns [OF e this]
  obtain s' k' where s': "e1000_irq_handler dev s = Some s'" "recv_only s s'" "queue_ok s'"
    "e1000 s' = Some (n\<lparr>rx_cur := k', tx_cur := j\<rparr>)" "unat k' < 32" by auto
  then show ?thesis using kernel_ok_recv [OF assms(1) s'(2,3) e(1) s'(4,5)] recv_only_fields(1) [OF s'(2)] by blast
qed

lemma handle_interrupt_keeps:
  assumes "kernel_ok dev n objs s" "card_delivers dev n"
  shows "\<exists>s'. handle_interrupt dev s = Some s' \<and> kernel_ok dev n objs s' \<and> wire s' = wire s"
proof -
  obtain status h where r: "read32 dev PIC_IRQ_STATUS s = (status, s\<lparr>io := h\<rparr>)"
    using read32_io [of dev PIC_IRQ_STATUS s] by (metis prod.collapse)
  have s1: "kernel_ok dev n objs (s\<lparr>io := h\<rparr>)" using assms(1) by (simp add: kernel_ok_frame)
  obtain u where u: "(if status AND PCI3_INTBIT \<noteq> 0 then e1000_irq_handler dev (s\<lparr>io := h\<rparr>) else Some (s\<lparr>io := h\<rparr>)) = Some u"
    "kernel_ok dev n objs u" "wire u = wire s"
    using kernel_ok_e1000_irq [OF s1 assms(2)] s1 by (cases "status AND PCI3_INTBIT = 0") auto
  let ?v = "if status AND TIMER1_INTBIT \<noteq> 0 then irq_handler_timer u else u"
  let ?w = "if status AND TIMER3_INTBIT \<noteq> 0 then irq_handler_clock ?v else ?v"
  have "handle_interrupt dev s = Some ?w"
    unfolding handle_interrupt_def r Let_def prod.case u(1) Option.bind_lunit ..
  moreover have "kernel_ok dev n objs ?v" "wire ?v = wire s" using kernel_ok_handlers(1) [OF u(2)] u handler_wire(1) [of u] by auto
  moreover from this have "kernel_ok dev n objs ?w" "wire ?w = wire s"
    using kernel_ok_handlers(2) [of dev n objs ?v] handler_wire(2) [of ?v] by auto
  ultimately show ?thesis by blast
qed

lemma kernel_irq_keeps:
  assumes "kernel_ok dev n objs s" "card_delivers dev n"
  shows "\<exists>s'. kernel_irq dev s = Some s' \<and> kernel_ok dev n objs s' \<and> wire s' = wire s"
proof -
  obtain i where i: "current_task s = Some i" "sched_inv s" using assms(1) by (auto simp: kernel_ok_def)
  let ?t = "s\<lparr>tasks := (tasks s)[i := cpu s]\<rparr>"
  have save: "save_current_task_state (pc (cpu s) + 4) (cpsr (cpu s)) s = Some ?t"
    by (cases "cpu s") (simp add: save_current_task_state_def i)
  have "sched_inv ?t" using i(2) by (simp add: sched_inv_def sched_ok_def active_def run_queue_def)
  then have "kernel_ok dev n objs ?t"
    using i(1) by (intro kernel_ok_sched [OF assms(1), where r = "ring_buffer s" and b = "buffer_end s" and a = "buffer_start s"
        and c = "task_count s" and t = "current_task s" and ts = "(tasks s)[i := cpu s]"]) simp_all
  from handle_interrupt_keeps [OF this assms(2)]
  obtain u where u: "handle_interrupt dev ?t = Some u" "kernel_ok dev n objs u" "wire u = wire s" by auto
  obtain j where "current_task u = Some j" using u(2) by (auto simp: kernel_ok_def)
  then show ?thesis using u by (simp add: kernel_irq_def save load_current_task_state_def kernel_ok_frame)
qed

section \<open>Rounds of the network task\<close>

abbreviation arp_reply :: "e1000_device_t \<Rightarrow> mac_address_t \<Rightarrow> u32 \<Rightarrow> u8 list" where
  "arp_reply n hw ip \<equiv> ethernet_bytes hw (nic_mac n) TYPE_ARP (arp_payload ARP_REPLY (nic_mac n) OWN_IPV4_ADDR hw ip)"

definition is_reply :: "e1000_device_t \<Rightarrow> u8 list \<Rightarrow> bool" where
  "is_reply n frame \<longleftrightarrow> (\<exists>hw ip. length hw = 6 \<and> frame = arp_reply n hw ip)"

lemma arp_answer_reply: "arp_answer (nic_mac n) bytes = Some frame \<Longrightarrow> is_reply n frame"
proof -
  assume "arp_answer (nic_mac n) bytes = Some frame"
  then have "frame = arp_reply n (rev (src_hardware_addr (arp_frame_at bytes 14))) (bswap32 (src_ip_address (arp_frame_at bytes 14)))"
    by (simp add: arp_answer_def Let_def split: if_splits)
  moreover have "length (rev (src_hardware_addr (arp_frame_at bytes 14))) = 6" by (simp add: arp_frame_at_def get_mac_def)
  ultimately show ?thesis unfolding is_reply_def by blast
qed

lemma is_reply_length: "is_reply n frame \<Longrightarrow> length (nic_mac n) = 6 \<Longrightarrow> length frame = 60"
  by (auto simp: is_reply_def)

text \<open>What the network task sends for a slot of the receive queue.\<close>

definition slot_answer :: "mac_address_t \<Rightarrow> raw_packet_t \<Rightarrow> u8 list option" where
  "slot_answer own p = (if bswap16 (get16 (packet_data p) 12) = TYPE_ARP then arp_answer own (packet_data p) else None)"

abbreviation sent_list :: "u8 list option \<Rightarrow> u8 list list" where
  "sent_list answer \<equiv> (case answer of None \<Rightarrow> [] | Some frame \<Rightarrow> [frame])"

lemma arp_outcome_keeps:
  assumes ok: "kernel_ok dev n objs s" and nic: "net_ready dev s n'" "n' = n\<lparr>rx_cur := k, tx_cur := j\<rparr>"
    and heap: "heap_rep bs fs s" "heap_object (bs, fs) s = objs"
    and out: "arp_outcome bs fs n' (arp_answer (nic_mac n') bytes) s s'"
  shows "kernel_ok dev n objs s' \<and> wire s' = wire s @ sent_list (arp_answer (nic_mac n) bytes) \<and> waiting s' = waiting s"
proof -
  obtain t where t: "length t = MAX_ARP_TABLE_ENTRIES" and c: "case arp_answer (nic_mac n') bytes of
      None \<Rightarrow> \<exists>h. s' = s\<lparr>arp_entries := Some t, io := h\<rparr> | Some frame \<Rightarrow> frame_sent bs fs n' frame (s\<lparr>arp_entries := Some t\<rparr>) s'"
    using out by (auto simp: arp_outcome_def)
  let ?s = "s\<lparr>arp_entries := Some t\<rparr>"
  have s: "kernel_ok dev n objs ?s"
    using ok t heap_holds_cong [of ?s s] by (simp add: kernel_parts)
  have mac: "nic_mac n' = nic_mac n" using nic(2) by simp
  show ?thesis
  proof (cases "arp_answer (nic_mac n') bytes")
    case None
    then show ?thesis using c s mac by (auto simp: kernel_ok_frame waiting_def)
  next
    case (Some frame)
    have r: "is_reply n frame" "length frame = 60"
      using arp_answer_reply [OF Some] is_reply_length nic by (auto simp: is_reply_def net_ready_def)
    have answer: "arp_answer (nic_mac n) bytes = Some frame" using Some mac by simp
    have sent: "frame_sent bs fs n' frame ?s s'" using c Some by simp
    then obtain e v m a f d w where s': "s' = ?s\<lparr>io := e, errno := v, ram := m, current_heap_address := a,
        free_block_list_head_next := f, e1000 := d, wire := w\<rparr>"
      unfolding frame_sent_def net_only_def by blast
    have "heap_holds objs s'" using sent heap(2) r(2) by (auto simp: frame_sent_def heap_holds_def frame_simps)
    moreover have "net_ready dev s' (n\<lparr>rx_cur := k, tx_cur := (j + 1) mod 8\<rparr>)" "unat k < 32"
      using sent nic ok by (auto simp: frame_sent_def net_ready_def kernel_ok_def card_reports_def tx_desc_def)
    moreover have "sched_inv s'" "current_task s' \<noteq> None" "queue_ok s'" "arp_ready s'"
      using s by (simp_all add: s' kernel_parts)
    moreover have "waiting s' = waiting s" by (simp add: s' waiting_def)
    ultimately show ?thesis using sent answer unfolding kernel_ok_def frame_sent_def by auto
  qed
qed

lemma remove_packet_waiting:
  assumes "queue_ok s"
  shows "waiting s = [] \<and> \<not> new_packet_available s \<or>
    (\<exists>i q rest. new_packet_available s \<and> remove_packet s = (Some i, s\<lparr>recv_queue_start := q\<rparr>) \<and> q < 128 \<and>
       waiting s = recv_packet_queue s ! i # rest \<and> waiting (s\<lparr>recv_queue_start := q\<rparr>) = rest)"
proof -
  have idx: "recv_queue_start s < 128" "recv_queue_end s < 128" using assms by (simp_all add: queue_ok_def)
  show ?thesis
  proof (cases "recv_queue_start s = recv_queue_end s")
    case True
    then show ?thesis using ring_empty_iff [OF idx] by (simp add: waiting_def new_packet_available_def flip: length_0_conv)
  next
    case False
    then show ?thesis using ring_list_get [OF idx False, of "recv_packet_queue s"]
      by (intro disjI2 exI [of _ "recv_queue_start s"] exI [of _ "(recv_queue_start s + 1) mod 128"] exI)
        (simp add: waiting_def new_packet_available_def remove_packet_def)
  qed
qed

lemma start_pdu_keeps:
  assumes ok: "kernel_ok dev n objs s" and slot: "stack_slot frame_addr 28"
  shows "\<exists>s'. start_pdu_encapsulation dev frame_addr i s = Some s' \<and> kernel_ok dev n objs s' \<and> waiting s' = waiting s \<and>
    wire s' = wire s @ sent_list (slot_answer (nic_mac n) (recv_packet_queue s ! i))"
proof -
  obtain k j where nic: "net_ready dev s (n\<lparr>rx_cur := k, tx_cur := j\<rparr>)" using ok by (auto simp: kernel_ok_def)
  obtain h where h: "poll dev s = s\<lparr>io := h\<rparr>" using poll_io [of dev s] by blast
  let ?t = "s\<lparr>io := h\<rparr>" and ?data = "packet_data (recv_packet_queue s ! i)"
  have dev: "has_byte_order dev False" using nic by (simp add: net_ready_def)
  have t: "kernel_ok dev n objs ?t" "net_ready dev ?t (n\<lparr>rx_cur := k, tx_cur := j\<rparr>)"
    using ok nic by (simp_all add: kernel_ok_frame net_ready_def)
  have run: "start_pdu_encapsulation dev frame_addr i s =
      (if bswap16 (get16 ?data 12) = TYPE_ARP then arp_receive dev frame_addr ?data ?t else Some ?t)"
    using h by (simp add: start_pdu_encapsulation_def conversions_poll [OF dev])
  obtain bs fs where heap: "heap_rep bs fs ?t" "heap_object (bs, fs) ?t = objs" "heap_room fs 60 ?t"
    using t(1) by (auto simp: kernel_ok_def heap_holds_def)
  have "arp_ready ?t" using t(1) by (simp add: kernel_ok_def)
  from arp_receive_outcome [OF t(2) heap(1,3) slot this, of ?data]
  obtain s' where s': "arp_receive dev frame_addr ?data ?t = Some s'"
    "arp_outcome bs fs (n\<lparr>rx_cur := k, tx_cur := j\<rparr>) (arp_answer (nic_mac (n\<lparr>rx_cur := k, tx_cur := j\<rparr>)) ?data) ?t s'"
    by blast
  note keeps = arp_outcome_keeps [OF t refl heap(1,2) s'(2)]
  have w: "waiting ?t = waiting s" by (simp add: waiting_def)
  show ?thesis
    using run s'(1) keeps t(1) w by (cases "bswap16 (get16 ?data 12) = TYPE_ARP") (auto simp: slot_answer_def)
qed

lemma kernel_ok_start:
  "kernel_ok dev n objs s \<Longrightarrow> q < 128 \<Longrightarrow> kernel_ok dev n objs (s\<lparr>recv_queue_start := q\<rparr>)"
  using heap_holds_cong [of "s\<lparr>recv_queue_start := q\<rparr>" s] by (simp add: kernel_parts)

lemma network_task_round_keeps:
  assumes ok: "kernel_ok dev n objs s" and slot: "stack_slot frame_addr 28"
  shows "\<exists>s'. network_task_round dev frame_addr s = Some s' \<and> kernel_ok dev n objs s' \<and>
    waiting s' = tl (waiting s) \<and>
    wire s' = wire s @ (case waiting s of [] \<Rightarrow> [] | p # ps \<Rightarrow> sent_list (slot_answer (nic_mac n) p))"
proof -
  have "queue_ok s" using ok by (simp add: kernel_ok_def)
  from remove_packet_waiting [OF this] show ?thesis
  proof (elim disjE conjE exE)
    assume "waiting s = []" "\<not> new_packet_available s"
    then show ?thesis using ok by (simp add: network_task_round_def)
  next
    fix i q rest
    assume r: "new_packet_available s" "remove_packet s = (Some i, s\<lparr>recv_queue_start := q\<rparr>)" "q < 128"
      "waiting s = recv_packet_queue s ! i # rest" "waiting (s\<lparr>recv_queue_start := q\<rparr>) = rest"
    show ?thesis using start_pdu_keeps [OF kernel_ok_start [OF ok r(3)] slot, of i] r
      by (auto simp: network_task_round_def)
  qed
qed

section \<open>Tasks\<close>

lemma write_bytes_other: "\<forall>(a, v) \<in> set ws. a \<noteq> x \<Longrightarrow> write_bytes ws m x = m x"
  unfolding write_bytes_def by (induction ws arbitrary: m) auto

lemma task_step_keeps:
  assumes "kernel_ok dev n objs s" "event_ok (Task_Step c ws)"
  shows "kernel_ok dev n objs (s\<lparr>cpu := c, ram := write_bytes ws (ram s)\<rparr>)"
proof -
  have "kernel_ok dev n objs (s\<lparr>cpu := c\<rparr>)" using assms(1) by (simp add: kernel_ok_frame)
  moreover have "write_bytes ws (ram s) x = ram (s\<lparr>cpu := c\<rparr>) x" if "heap_arena x" for x
    using assms(2) that by (auto intro: write_bytes_other)
  ultimately show ?thesis by (rule kernel_ok_ram)
qed

lemma add_task_keeps:
  assumes ok: "kernel_ok dev n objs s" and p: "is_privileged s"
  shows "kernel_ok dev n objs (snd (add_task function s)) \<and> wire (snd (add_task function s)) = wire s \<and>
    cpu (snd (add_task function s)) = cpu s"
proof (cases "task_count s < 16")
  case False
  then have "snd (add_task function s) = s\<lparr>errno := ETOOMANYTASKS\<rparr>" using p by (simp add: add_task_def)
  then show ?thesis using ok by (simp add: kernel_ok_frame)
next
  case True
  let ?t = "s\<lparr>tasks := (tasks s)[task_count s := init_task function (TASK_STACK_BASE_ADDRESS - STACK_SIZE * of_nat (task_count s))]\<rparr>"
  obtain r b where "ring_buffer_insert (Some (task_count s)) ?t = ?t\<lparr>ring_buffer := r, buffer_end := b\<rparr>"
    using ring_buffer_insert_only by blast
  then have only: "snd (add_task function s) = ?t\<lparr>ring_buffer := r, buffer_end := b, task_count := task_count s + 1\<rparr>"
    using p True by (simp add: add_task_def Let_def)
  have "sched_inv s" "current_task s \<noteq> None" using ok by (simp_all add: kernel_ok_def)
  with add_task_result [OF _ p True, of "function"]
  have "sched_inv (snd (add_task function s))" "current_task (snd (add_task function s)) \<noteq> None" by simp_all
  then have "kernel_ok dev n objs (snd (add_task function s))"
    by (rule kernel_ok_sched [OF ok, where a = "buffer_start s" and t = "current_task s"]) (simp add: only)
  then show ?thesis by (simp add: only)
qed

lemma create_process_keeps:
  assumes ok: "kernel_ok dev n objs s" and spec: "stack_slot spec 4"
  shows "\<exists>s'. create_process spec function s = Some (Some 0, s') \<and> kernel_ok dev n objs s' \<and> wire s' = wire s"
proof -
  let ?m = "store32 (ram s) spec function"
  obtain str where cp: "create_process spec function s = (let
      t = put str (set_cpsr (svc_mode (cpsr (cpu s))) (s\<lparr>ram := ?m\<rparr>))
      in Some (Some 0, set_cpsr (cpsr (cpu s)) (snd (add_task function t))))"
    by (rule create_process_entry)
  let ?t = "put str (set_cpsr (svc_mode (cpsr (cpu s))) (s\<lparr>ram := ?m\<rparr>))"
  have "?m x = ram s x" if "heap_arena x" for x
  proof -
    have "\<not> in_range x spec 4"
    proof
      assume "in_range x spec 4"
      then have "x = spec + of_nat (unat (x - spec))" "unat (x - spec) < 4" by (simp_all add: in_range_def)
      then show False using spec that unfolding stack_slot_def by metis
    qed
    then show ?thesis by (simp add: store32_def store_le_other)
  qed
  from kernel_ok_ram [OF ok this] have t: "kernel_ok dev n objs ?t"
    by (simp add: put_def set_cpsr_def kernel_ok_frame)
  note a = add_task_keeps [OF t privileged_svc, of "function"]
  show ?thesis unfolding cp Let_def using a by (simp add: set_cpsr_def kernel_ok_frame put_def)
qed

section \<open>Properties\<close>

lemma kernel_step_keeps:
  assumes "kernel_ok dev n objs s" "card_delivers dev n" "stack_slot frame_addr 28" "event_ok e"
  shows "\<exists>s' replies. kernel_step dev frame_addr e s = Some s' \<and> kernel_ok dev n objs s' \<and> wire s' = wire s @ replies \<and>
    length replies \<le> (if e = Network_Round then 1 else 0) \<and> (\<forall>frame \<in> set replies. is_reply n frame)"
proof (cases e)
  case Interrupt
  then show ?thesis using kernel_irq_keeps [OF assms(1,2)] by auto
next
  case Network_Round
  obtain s' where s': "network_task_round dev frame_addr s = Some s'" "kernel_ok dev n objs s'"
    "wire s' = wire s @ (case waiting s of [] \<Rightarrow> [] | p # ps \<Rightarrow> sent_list (slot_answer (nic_mac n) p))"
    using network_task_round_keeps [OF assms(1,3)] by blast
  moreover have "length (sent_list (slot_answer (nic_mac n) p)) \<le> 1 \<and> (\<forall>frame \<in> set (sent_list (slot_answer (nic_mac n) p)). is_reply n frame)" for p
    using arp_answer_reply [of n] by (auto simp: slot_answer_def split: option.split)
  ultimately show ?thesis using Network_Round
    by (intro exI [of _ s'] exI [of _ "case waiting s of [] \<Rightarrow> [] | p # ps \<Rightarrow> sent_list (slot_answer (nic_mac n) p)"])
      (cases "waiting s"; simp)
next
  case (Task_Step c ws)
  then show ?thesis using task_step_keeps [OF assms(1), of c ws] assms(4) by simp
next
  case (Create_Process spec f)
  then show ?thesis using create_process_keeps [OF assms(1), of spec f] assms(4) by auto
qed

lemma kernel_run_keeps:
  assumes "kernel_ok dev n objs s" "card_delivers dev n" "stack_slot frame_addr 28" "\<forall>e \<in> set es. event_ok e"
  shows "\<exists>s' replies. kernel_run dev frame_addr es s = Some s' \<and> kernel_ok dev n objs s' \<and> wire s' = wire s @ replies \<and>
    length replies \<le> count_list es Network_Round \<and> (\<forall>frame \<in> set replies. is_reply n frame)"
  using assms(1,4)
proof (induction es arbitrary: s)
  case Nil
  then show ?case by simp
next
  case (Cons e es)
  obtain t r where t: "kernel_step dev frame_addr e s = Some t" "kernel_ok dev n objs t" "wire t = wire s @ r"
    "length r \<le> (if e = Network_Round then 1 else 0)" "\<forall>frame \<in> set r. is_reply n frame"
    using kernel_step_keeps [OF Cons.prems(1) assms(2,3), of e] Cons.prems(2) by auto
  obtain s' rs where s': "kernel_run dev frame_addr es t = Some s'" "kernel_ok dev n objs s'" "wire s' = wire t @ rs"
    "length rs \<le> count_list es Network_Round" "\<forall>frame \<in> set rs. is_reply n frame"
    using Cons.IH [OF t(2)] Cons.prems(2) by auto
  show ?case using t s' by (intro exI [of _ s'] exI [of _ "r @ rs"]) auto
qed

text \<open>
  Property C4: the kernel runs for ever. From a well-formed state, with a card that keeps its documented
  behaviour, any sequence of interrupts (whatever lines and causes they report), rounds of the network task
  (whatever bytes it received), steps of the tasks and system calls is executed to its end: no null pointer
  is dereferenced, no array index is out of range, no loop hangs and the heap is never exhausted. The state
  is well formed again, with the same live heap objects, and all that was sent are replies to ARP
  requests, at most one per round.
\<close>

theorem kernel_run_safe:
  assumes "kernel_ok dev n objs s" "card_delivers dev n" "stack_slot frame_addr 28" "\<forall>e \<in> set es. event_ok e"
  shows "\<exists>s' replies. kernel_run dev frame_addr es s = Some s' \<and> kernel_ok dev n objs s' \<and> wire s' = wire s @ replies \<and>
    length replies \<le> count_list es Network_Round \<and> (\<forall>frame \<in> set replies. is_reply n frame)"
  using assms by (rule kernel_run_keeps)

text \<open>
  Property: the network task works off the receive queue. As many rounds as there are packets empty the
  queue, whatever the packets are, and what they sent are the answers to the packets in their order.
\<close>

theorem network_task_drains:
  assumes "kernel_ok dev n objs s" "stack_slot frame_addr 28"
  shows "\<exists>s'. kernel_run dev frame_addr (replicate (length (waiting s)) Network_Round) s = Some s' \<and>
    kernel_ok dev n objs s' \<and> waiting s' = [] \<and>
    wire s' = wire s @ List.map_filter (slot_answer (nic_mac n)) (waiting s)"
  using assms(1)
proof (induction "waiting s" arbitrary: s)
  case Nil
  then show ?case by (simp flip: Nil(1) add: map_filter_def)
next
  case (Cons p ps)
  obtain t where t: "network_task_round dev frame_addr s = Some t" "kernel_ok dev n objs t" "waiting t = ps"
    "wire t = wire s @ sent_list (slot_answer (nic_mac n) p)"
    using network_task_round_keeps [OF Cons.prems assms(2)] by (auto simp flip: Cons.hyps(2))
  obtain s' where s': "kernel_run dev frame_addr (replicate (length ps) Network_Round) t = Some s'" "kernel_ok dev n objs s'"
    "waiting s' = []" "wire s' = wire t @ List.map_filter (slot_answer (nic_mac n)) ps"
    using Cons.hyps(1) [OF t(3) [symmetric] t(2)] t(3) by auto
  show ?case using t s' by (simp flip: Cons.hyps(2) add: map_filter_simps split: option.split)
qed

section \<open>A run\<close>

definition net1 :: routing_state where "net1 = net0\<lparr>task_count := 1\<rparr>"

lemma net1_ok: "kernel_ok arp_card nic0 (heap_object ([], []) net1) net1"
proof -
  have f: "queue_ok net1" "arp_ready net1" "heap_rep [] [] net1" "net_ready arp_card net1 nic0" "current_task net1 = Some 0"
    "length (tasks net1) = 16" "unat (current_heap_address net1) + 1552 \<le> heap_end"
    using net0_fields by (simp_all add: net1_def queue_ok_def arp_ready_def heap_rep_def net_ready_def)
  have "ring_buffer net1 = replicate 16 None" "buffer_start net1 = 0" "buffer_end net1 = 0" "task_count net1 = 1"
    by (simp_all add: net1_def net0_def arp0_def e1000_state.defs card0_def queue_state.defs queue0_def pci_state.defs pci0_def
        sched_state.defs sched0_def)
  then have "sched_inv net1"
    using f(5,6) by (simp add: sched_inv_def sched_ok_def active_def run_queue_def ring_list_def ring_length_def)
  moreover have "nic0 = nic0\<lparr>rx_cur := 0, tx_cur := 0\<rparr>" by (simp add: nic0_def)
  moreover have "heap_holds (heap_object ([], []) net1) net1"
    using f(3) heap_room_top [OF _ f(7), of 60 "[]"] by (auto simp: heap_holds_def)
  ultimately show ?thesis using f unfolding kernel_ok_def by (metis option.distinct(1) unat_0 zero_less_numeral)
qed

text \<open>The card of the example has the request in its first descriptor and nothing in the others.\<close>

lemma rx_slot_address:
  assumes "unat k < 32" "k \<noteq> 0"
  shows "arp_card h 1 (rx_desc (nic0\<lparr>rx_cur := k, tx_cur := j\<rparr>) (unat k) + 12) = 0"
proof -
  have "rx_desc (nic0\<lparr>rx_cur := k, tx_cur := j\<rparr>) (unat k) + 12 = 0x500001C + of_nat (16 * unat k)"
    by (simp add: rx_desc_def nic0_def)
  moreover have u: "unat (0x500001C + of_nat (16 * unat k) :: addr) = 0x500001C + 16 * unat k"
    using unat_add_small [of "0x500001C" "16 * unat k"] assms(1) by simp
  moreover have "0 < unat k" using assms(2) by (simp add: unat_gt_0)
  moreover have "\<not> 0x5000210 \<le> (0x500001C + of_nat (16 * unat k) :: addr)"
    using u assms(1) by (simp add: word_le_nat_alt)
  moreover have "0x500001C + of_nat (16 * unat k) \<noteq> (0x500001C :: addr)"
    using u \<open>0 < unat k\<close> by (intro notI) (drule arg_cong [where f = unat], simp)
  moreover have "\<not> in_range (0x500001C + of_nat (16 * unat k) :: addr) 0x6000 42"
    using u by (subst in_range_unat) simp_all
  ultimately show ?thesis by (simp add: arp_card_def)
qed

lemma arp_card_delivers: "card_delivers arp_card nic0"
  unfolding card_delivers_def
proof (intro allI impI)
  fix s :: routing_state and k j
  assume s: "e1000 s = Some (nic0\<lparr>rx_cur := k, tx_cur := j\<rparr>)" "unat k < 32" "queue_ok s"
  show "\<exists>frames. pending arp_card s frames \<and> list_all (\<lambda>f. length f \<le> 8192) frames"
  proof (cases "k = 0")
    case True
    then have "pending arp_card s [arp_request0]"
      using s(1,3) arp_card_pending [of s j] by simp
    then show ?thesis using length_arp_request0 by (intro exI [of _ "[arp_request0]"]) simp
  next
    case False
    have "\<exists>s'. rx_status arp_card s = Some (False, s')"
      using rx_slot_address [OF s(2) False, of "io s" j] by (simp add: rx_status_def s(1) bus_read_def Let_def)
    then show ?thesis using pending.none by (intro exI [of _ "[]"]) auto
  qed
qed

theorem kernel_run_safe_witness:
  "\<exists>s'. kernel_run arp_card 0x1000
      [Interrupt, Network_Round, Create_Process 0x2000 0x8000, Interrupt, Task_Step (init_task 0 0) [(0x3000, 1)], Network_Round] net1 = Some s' \<and>
    length (wire s') \<le> 2"
proof -
  have arena: "\<not> heap_arena 0x3000" by (simp add: heap_arena_def const_defs)
  have "stack_slot 0x2000 4"
  proof -
    have "unat (0x2000 + of_nat i :: addr) = 0x2000 + i" if "i < 4" for i :: nat
      using unat_add_small [of "0x2000" i] that by simp
    then show ?thesis by (auto simp: stack_slot_def heap_arena_def const_defs)
  qed
  then have "\<forall>e \<in> set [Interrupt, Network_Round, Create_Process 0x2000 0x8000, Interrupt,
      Task_Step (init_task 0 0) [(0x3000, 1)], Network_Round]. event_ok e" using arena by simp
  from kernel_run_safe [OF net1_ok arp_card_delivers stack_slot0 this]
  obtain s' replies where s': "kernel_run arp_card 0x1000 [Interrupt, Network_Round, Create_Process 0x2000 0x8000, Interrupt,
      Task_Step (init_task 0 0) [(0x3000, 1)], Network_Round] net1 = Some s'" "wire s' = wire net1 @ replies" "length replies \<le> 2"
    by (auto simp del: kernel_run.simps)
  moreover have "wire net1 = []" using net0_fields by (simp add: net1_def)
  ultimately show ?thesis by (intro exI [of _ s']) simp
qed

text \<open>The state after the interrupt that delivers the request.\<close>

lemma net1_received:
  obtains s where "kernel_irq arp_card net1 = Some s" "kernel_ok arp_card nic0 (heap_object ([], []) net1) s"
    "packets s = [arp_request0]"
proof -
  let ?t = "net1\<lparr>tasks := (tasks net1)[0 := cpu net1]\<rparr>"
  have f: "queue_ok net1" "current_task net1 = Some 0" "length (tasks net1) = 16" "e1000 net1 = Some nic0" "packets net1 = []"
    using net0_fields by (simp_all add: net1_def queue_ok_def packets_def)
  have save: "save_current_task_state (pc (cpu net1) + 4) (cpsr (cpu net1)) net1 = Some ?t"
    by (cases "cpu net1") (simp add: save_current_task_state_def f)
  have "card_interrupt arp_card ?t [arp_request0]" using f by (intro arp_card_interrupt) (simp_all add: queue_ok_def)
  from kernel_irq_card [OF save f(2) _ this f(1,4)] f(3,5) length_arp_request0
  obtain s where s: "kernel_irq arp_card net1 = Some s" "packets s = [arp_request0]" by (auto simp: nic0_def)
  moreover have "kernel_ok arp_card nic0 (heap_object ([], []) net1) s"
    using kernel_irq_keeps [OF net1_ok arp_card_delivers] s(1) by auto
  ultimately show thesis using that by blast
qed

theorem network_task_drains_witness:
  "\<exists>s s'. waiting s \<noteq> [] \<and> kernel_run arp_card 0x1000 (replicate (length (waiting s)) Network_Round) s = Some s' \<and> waiting s' = []"
proof -
  obtain s where s: "kernel_ok arp_card nic0 (heap_object ([], []) net1) s" "packets s = [arp_request0]"
    using net1_received by blast
  from network_task_drains [OF s(1) stack_slot0]
  have "\<exists>s'. kernel_run arp_card 0x1000 (replicate (length (waiting s)) Network_Round) s = Some s' \<and> waiting s' = []" by blast
  moreover have "waiting s \<noteq> []" using s(2) by (auto simp: packets_waiting)
  ultimately show ?thesis by blast
qed

end
