(* ===== verification/Recv_Interleave.thy ===== *)
theory Recv_Interleave
  imports Network_Task
begin

text \<open>
  The receive queue under pre-emption. The network task runs with interrupts enabled, so the handler of the
  card may insert packets, and other tasks may run, between any two memory accesses of
  \<^verbatim>\<open>new_packet_available\<close> and \<^verbatim>\<open>remove_packet\<close> and while the packet is being worked on; the handler itself
  runs with interrupts disabled. Here the loop of \<^verbatim>\<open>network_task_recv\<close> is taken apart into its accesses to
  the shared variables, and every interleaving is shown to be a run of a first-in first-out queue with
  atomic operations. The accesses are those of the source, one for each occurrence of a variable: the
  repository is built without optimisation.
\<close>

section \<open>The loop of the network task, access by access\<close>

text \<open>
  Where the task is, with what it holds in local variables: the start index it has loaded, the slot of the
  packet, the value it will store.
\<close>

datatype recv_loc =
    Test
  | Test_end nat
  | Remove
  | Remove_end nat
  | Take
  | Advance nat
  | Store nat nat
  | Work nat
  | Null_Packet

text \<open>
  \<^verbatim>\<open>Test\<close> and \<^verbatim>\<open>Test_end\<close> are \<^verbatim>\<open>new_packet_available\<close>, the next five \<^verbatim>\<open>remove_packet\<close>, \<^verbatim>\<open>Work\<close> is the call of
  \<^verbatim>\<open>start_pdu_encapsulation\<close>, whose return starts the next round; \<open>Null_Packet\<close> is that call with the null pointer.
\<close>

fun recv_access :: "recv_loc \<Rightarrow> 's queue_state_scheme \<Rightarrow> recv_loc \<times> 's queue_state_scheme" where
  "recv_access Test s = (Test_end (recv_queue_start s), s)"
| "recv_access (Test_end start) s = (if start \<noteq> recv_queue_end s then Remove else Test, s)"
| "recv_access Remove s = (Remove_end (recv_queue_start s), s)"
| "recv_access (Remove_end start) s = (if start = recv_queue_end s then Null_Packet else Take, s)"
| "recv_access Take s = (Advance (recv_queue_start s), s)"
| "recv_access (Advance packet) s = (Store packet ((recv_queue_start s + 1) mod MAX_PACKET_COUNT), s)"
| "recv_access (Store packet start) s = (Work packet, s\<lparr>recv_queue_start := start\<rparr>)"
| "recv_access (Work packet) s = (Test, s)"
| "recv_access Null_Packet s = (Null_Packet, s)"

text \<open>Without interruption the accesses are the atomic operations of \<open>Network_Task\<close>.\<close>

abbreviation accesses :: "nat \<Rightarrow> recv_loc \<times> 's queue_state_scheme \<Rightarrow> recv_loc \<times> 's queue_state_scheme" where
  "accesses n c \<equiv> ((\<lambda>(loc, s). recv_access loc s) ^^ n) c"

lemma funpow_2_5: "(f ^^ 2) x = f (f x)" "(f ^^ 5) x = f (f (f (f (f x))))"
  by (simp_all add: eval_nat_numeral)

lemma accesses_test: "accesses 2 (Test, s) = (if new_packet_available s then Remove else Test, s)"
  by (simp add: funpow_2_5 new_packet_available_def)

lemma accesses_remove:
  "accesses (if fst (remove_packet s) = None then 2 else 5) (Remove, s) =
   (case remove_packet s of (None, s) \<Rightarrow> (Null_Packet, s) | (Some packet, s) \<Rightarrow> (Work packet, s))"
  by (simp add: remove_packet_def funpow_2_5)

section \<open>Interleavings\<close>

text \<open>What can be seen: a packet arrives, the task takes one, it reads a byte of the one it has.\<close>

datatype recv_event = Arrived "u8 list" | Taken "u8 list" | Looked nat u8

fun access_event :: "recv_loc \<Rightarrow> 's queue_state_scheme \<Rightarrow> recv_event list" where
  "access_event (Store packet start) s = [Taken (packet_bytes (recv_packet_queue s ! packet))]"
| "access_event _ s = []"

text \<open>
  \<open>arrive\<close> is the handler of the card, \<open>other\<close> everything else that leaves the three variables of the queue
  alone: the timers, other tasks, and the work of the network task itself.
\<close>

inductive recv_step ::
  "recv_loc \<times> 's queue_state_scheme \<Rightarrow> recv_event list \<Rightarrow> recv_loc \<times> 's queue_state_scheme \<Rightarrow> bool" where
  arrive: "insert_packet bytes s = Some s' \<Longrightarrow> length bytes \<le> 8192 \<Longrightarrow> recv_step (loc, s) [Arrived bytes] (loc, s')"
| other: "recv_queue_start s' = recv_queue_start s \<Longrightarrow> recv_queue_end s' = recv_queue_end s \<Longrightarrow>
    recv_packet_queue s' = recv_packet_queue s \<Longrightarrow> recv_step (loc, s) [] (loc, s')"
| task: "recv_step (loc, s) (access_event loc s) (recv_access loc s)"
| look: "k < length (packet_bytes (recv_packet_queue s ! packet)) \<Longrightarrow>
    recv_step (Work packet, s) [Looked k (packet_data (recv_packet_queue s ! packet) ! k)] (Work packet, s)"

inductive recv_run ::
  "recv_loc \<times> 's queue_state_scheme \<Rightarrow> recv_event list \<Rightarrow> recv_loc \<times> 's queue_state_scheme \<Rightarrow> bool" where
  start: "recv_run c [] c"
| step: "recv_run c es c' \<Longrightarrow> recv_step c' e c'' \<Longrightarrow> recv_run c (es @ e) c''"

section \<open>The queue with atomic operations\<close>

text \<open>The packets that wait and the one in hand.\<close>

fun fifo_step :: "recv_event \<Rightarrow> u8 list list \<times> u8 list \<Rightarrow> (u8 list list \<times> u8 list) option" where
  "fifo_step (Arrived bytes) (q, h) = Some (if length q < 127 then q @ [bytes] else q, h)"
| "fifo_step (Taken bytes) ([], h) = None"
| "fifo_step (Taken bytes) (x # q, h) = (if x = bytes then Some (q, x) else None)"
| "fifo_step (Looked k v) (q, h) = (if k < length h \<and> h ! k = v then Some (q, h) else None)"

fun fifo_run :: "recv_event list \<Rightarrow> u8 list list \<times> u8 list \<Rightarrow> (u8 list list \<times> u8 list) option" where
  "fifo_run [] a = Some a"
| "fifo_run (e # es) a = Option.bind (fifo_step e a) (fifo_run es)"

lemma fifo_run_append: "fifo_run (es @ es') a = Option.bind (fifo_run es a) (fifo_run es')"
  by (induction es arbitrary: a) (auto split: bind_splits)

section \<open>Every interleaving is a run of the atomic queue\<close>

text \<open>
  What the task knows at each point, although the handler runs in between: only the task moves the start
  index, and a queue that was not empty does not become empty.
\<close>

fun loc_ok :: "recv_loc \<Rightarrow> 's queue_state_scheme \<Rightarrow> bool" where
  "loc_ok Test s \<longleftrightarrow> True"
| "loc_ok (Test_end start) s \<longleftrightarrow> start = recv_queue_start s"
| "loc_ok Remove s \<longleftrightarrow> packets s \<noteq> []"
| "loc_ok (Remove_end start) s \<longleftrightarrow> start = recv_queue_start s \<and> packets s \<noteq> []"
| "loc_ok Take s \<longleftrightarrow> packets s \<noteq> []"
| "loc_ok (Advance packet) s \<longleftrightarrow> packet = recv_queue_start s \<and> packets s \<noteq> []"
| "loc_ok (Store packet start) s \<longleftrightarrow>
     packet = recv_queue_start s \<and> start = (packet + 1) mod 128 \<and> packets s \<noteq> []"
| "loc_ok (Work packet) s \<longleftrightarrow> packet < 128 \<and> recv_queue_start s = (packet + 1) mod 128"
| "loc_ok Null_Packet s \<longleftrightarrow> False"

definition in_hand :: "recv_loc \<Rightarrow> 's queue_state_scheme \<Rightarrow> u8 list \<Rightarrow> bool" where
  "in_hand loc s h \<longleftrightarrow> (\<forall>packet. loc = Work packet \<longrightarrow> h = packet_bytes (recv_packet_queue s ! packet))"

definition implements :: "recv_loc \<times> 's queue_state_scheme \<Rightarrow> u8 list list \<times> u8 list \<Rightarrow> bool" where
  "implements c a \<longleftrightarrow>
     queue_ok (snd c) \<and> loc_ok (fst c) (snd c) \<and> fst a = packets (snd c) \<and> in_hand (fst c) (snd c) (snd a)"

lemma packets_empty_iff: "queue_ok s \<Longrightarrow> packets s = [] \<longleftrightarrow> recv_queue_start s = recv_queue_end s"
  using ring_empty_iff [of "recv_queue_start s" 128 "recv_queue_end s"]
  by (simp add: queue_ok_def packets_length flip: length_0_conv)

lemma queue_parts_cong:
  assumes "recv_queue_start s' = recv_queue_start s" "recv_queue_end s' = recv_queue_end s"
    "recv_packet_queue s' = recv_packet_queue s"
  shows "queue_ok s' = queue_ok s" "packets s' = packets s" "loc_ok loc s' = loc_ok loc s" "in_hand loc s' h = in_hand loc s h"
proof -
  show p: "queue_ok s' = queue_ok s" "packets s' = packets s" using assms by (simp_all add: queue_ok_def packets_def)
  show "loc_ok loc s' = loc_ok loc s" by (cases loc) (simp_all add: p assms)
  show "in_hand loc s' h = in_hand loc s h" by (simp add: in_hand_def assms)
qed

lemma arrival_implements:
  assumes "implements (loc, s) (q, h)" "insert_packet bytes s = Some s'" "length bytes \<le> 8192"
  shows "implements (loc, s') (if length q < 127 then q @ [bytes] else q, h)"
proof -
  have ok: "queue_ok s" "loc_ok loc s" "q = packets s" "in_hand loc s h" using assms(1) by (simp_all add: implements_def)
  have s': "queue_ok s'" "recv_queue_start s' = recv_queue_start s"
    "packets s' = (if length (packets s) < 127 then packets s @ [bytes] else packets s)"
    using insert_packet_queue [OF ok(1) assms(3)] assms(2) by auto
  then have "packets s' = [] \<Longrightarrow> packets s = []" by (auto split: if_splits)
  then have "loc_ok loc s'" using ok(2) s'(2) by (cases loc) auto
  moreover have "in_hand loc s' h"
    using ok(2,4) insert_packet_slot [OF ok(1) assms(3,2)] by (auto simp: in_hand_def)
  ultimately show ?thesis using s' ok(3) by (simp add: implements_def)
qed

lemma access_implements:
  assumes "implements (loc, s) (q, h)"
  shows "\<exists>a. fifo_run (access_event loc s) (q, h) = Some a \<and> implements (recv_access loc s) a"
proof -
  have ok: "queue_ok s" "loc_ok loc s" "q = packets s" "in_hand loc s h" using assms by (simp_all add: implements_def)
  note empty = packets_empty_iff [OF ok(1)]
  show ?thesis
  proof (cases "\<exists>packet start. loc = Store packet start")
    case True
    then obtain packet where loc: "loc = Store packet ((packet + 1) mod 128)" "packet = recv_queue_start s" "packets s \<noteq> []"
      using ok(2) by auto
    have idx: "recv_queue_start s < 128" using ok(1) by (simp add: queue_ok_def)
    obtain s' where s': "remove_packet s = (Some packet, s')" "queue_ok s'" "recv_packet_queue s' = recv_packet_queue s"
      "packets s = packet_bytes (recv_packet_queue s ! packet) # packets s'"
      using remove_packet_queue [OF ok(1)] loc(2,3) by (auto simp: remove_packet_def split: if_splits)
    then have "recv_access loc s = (Work packet, s')" by (auto simp: loc remove_packet_def split: if_splits)
    then show ?thesis using s' ok(3) loc idx
      by (auto simp: implements_def in_hand_def remove_packet_def split: if_splits)
  next
    case False
    then show ?thesis using ok by (cases loc) (auto simp: implements_def in_hand_def empty)
  qed
qed

lemma step_implements:
  assumes "recv_step c e c'" "implements c (q, h)"
  shows "\<exists>a. fifo_run e (q, h) = Some a \<and> implements c' a"
  using assms
proof (induction rule: recv_step.induct)
  case (arrive bytes s s' loc)
  then show ?case using arrival_implements [of loc s q h bytes s'] by simp
next
  case (other s' s loc)
  then show ?case using queue_parts_cong [of s' s] by (auto simp: implements_def)
next
  case (task loc s)
  then show ?case using access_implements by blast
next
  case (look k s packet)
  then show ?case by (auto simp: implements_def in_hand_def packet_bytes_def)
qed

lemma run_implements:
  assumes "recv_run c es c'" "implements c a"
  shows "\<exists>a'. fifo_run es a = Some a' \<and> implements c' a'"
  using assms
proof (induction rule: recv_run.induct)
  case (start c)
  then show ?case by simp
next
  case (step c es c' e c'')
  then obtain q h where "fifo_run es a = Some (q, h)" "implements c' (q, h)" by auto
  then show ?case using step_implements [of c' e c'' q h] step.hyps(2) by (auto simp: fifo_run_append)
qed

text \<open>
  Property C11: the receive queue is correct under pre-emption. However the accesses of the network task are
  interleaved with insertions by the interrupt handler and with the rest of the system, the sequence of
  packets that arrive, packets the task takes and bytes it reads is one of the queue with atomic operations:
  the packets come out in order, each once, with the contents they had on arrival, even if others arrive
  while the task reads them. The task never works on the null pointer.
\<close>

theorem receive_interleaving:
  assumes "queue_ok s" "recv_run (Test, s) es (loc, s')"
  shows "loc \<noteq> Null_Packet \<and> queue_ok s' \<and> (\<exists>h. fifo_run es (packets s, []) = Some (packets s', h))"
proof -
  have "implements (Test, s) (packets s, [])" using assms(1) by (simp add: implements_def in_hand_def)
  from run_implements [OF assms(2) this] obtain q h where
    "fifo_run es (packets s, []) = Some (q, h)" "implements (loc, s') (q, h)" by auto
  then show ?thesis by (cases loc) (auto simp: implements_def)
qed

section \<open>Witness\<close>

lemma run_quiet:
  assumes "recv_run c es (loc, s)" "access_event loc s = []"
  shows "recv_run c es (recv_access loc s)"
  using recv_run.step [OF assms(1) recv_step.task] assms(2) by simp

lemma insert_next:
  assumes "queue_ok s" "recv_queue_start s \<le> recv_queue_end s" "recv_queue_end s < 100" "length bytes \<le> 8192"
  obtains s' where "insert_packet bytes s = Some s'" "queue_ok s'" "recv_queue_start s' = recv_queue_start s"
    "recv_queue_end s' = Suc (recv_queue_end s)" "packet_bytes (recv_packet_queue s' ! recv_queue_end s) = bytes"
    "\<And>i. i \<noteq> recv_queue_end s \<Longrightarrow> recv_packet_queue s' ! i = recv_packet_queue s ! i"
proof -
  have "length (packets s) < 127" "recv_queue_end s < length (recv_packet_queue s)"
    using assms(1-3) by (simp_all add: packets_length ring_length_cases queue_ok_def)
  with insert_packet_room [OF assms(1,4)] insert_packet_queue [OF assms(1,4)] assms(3) that show thesis by auto
qed

text \<open>
  A packet arrives, and a second one between the test of \<^verbatim>\<open>remove_packet\<close> and its update of the start index;
  a third one while the task reads the first.
\<close>

lemma interleaved_run:
  "\<exists>s. recv_run (Test, queue0) [Arrived [7], Arrived [8], Taken [7], Arrived [9], Looked 0 7] (Work 0, s)"
proof -
  obtain s1 where s1: "insert_packet [7] queue0 = Some s1" "queue_ok s1" "recv_queue_start s1 = 0" "recv_queue_end s1 = 1"
    "packet_bytes (recv_packet_queue s1 ! 0) = [7]"
    using insert_next [of queue0 "[7]"] queue0_ok(1) by auto
  obtain s2 where s2: "insert_packet [8] s1 = Some s2" "queue_ok s2" "recv_queue_start s2 = 0" "recv_queue_end s2 = 2"
    "recv_packet_queue s2 ! 0 = recv_packet_queue s1 ! 0"
    by (rule insert_next [of s1 "[8]"]) (use s1(2-4) in \<open>auto simp: numeral_2_eq_2\<close>)
  let ?s3 = "s2\<lparr>recv_queue_start := 1\<rparr>"
  have "queue_ok ?s3" using s2(2) by (simp add: queue_ok_def)
  then obtain s4 where s4: "insert_packet [9] ?s3 = Some s4" "recv_packet_queue s4 ! 0 = recv_packet_queue s1 ! 0"
    by (rule insert_next [of ?s3 "[9]"]) (use s2(4,5) in auto)
  have "recv_run (Test, queue0) [Arrived [7]] (Test, s1)"
    using recv_run.step [OF recv_run.start recv_step.arrive [OF s1(1)]] by simp
  from run_quiet [OF this] have "recv_run (Test, queue0) [Arrived [7]] (Test_end 0, s1)" using s1(3) by simp
  from run_quiet [OF this] have "recv_run (Test, queue0) [Arrived [7]] (Remove, s1)" using s1(4) by simp
  from run_quiet [OF this] have "recv_run (Test, queue0) [Arrived [7]] (Remove_end 0, s1)" using s1(3) by simp
  from run_quiet [OF this] have "recv_run (Test, queue0) [Arrived [7]] (Take, s1)" using s1(4) by simp
  from recv_run.step [OF this recv_step.arrive [OF s2(1)]]
  have "recv_run (Test, queue0) [Arrived [7], Arrived [8]] (Take, s2)" by simp
  from run_quiet [OF this] have "recv_run (Test, queue0) [Arrived [7], Arrived [8]] (Advance 0, s2)" using s2(3) by simp
  from run_quiet [OF this] have "recv_run (Test, queue0) [Arrived [7], Arrived [8]] (Store 0 1, s2)" using s2(3) by simp
  from recv_run.step [OF this recv_step.task]
  have "recv_run (Test, queue0) [Arrived [7], Arrived [8], Taken [7]] (Work 0, ?s3)" using s2(5) s1(5) by simp
  from recv_run.step [OF this recv_step.arrive [OF s4(1)]]
  have run: "recv_run (Test, queue0) [Arrived [7], Arrived [8], Taken [7], Arrived [9]] (Work 0, s4)" by simp
  have "packet_bytes (recv_packet_queue s4 ! 0) = [7]" using s4(2) s1(5) by simp
  moreover from this have "packet_data (recv_packet_queue s4 ! 0) ! 0 = 7"
    by (cases "packet_data (recv_packet_queue s4 ! 0)") (auto simp: packet_bytes_def take_Cons' split: if_splits)
  ultimately show ?thesis using recv_run.step [OF run recv_step.look [of 0 s4 0]] by auto
qed

theorem receive_interleaving_witness:
  "\<exists>s. recv_run (Test, queue0) [Arrived [7], Arrived [8], Taken [7], Arrived [9], Looked 0 7] (Work 0, s) \<and> queue_ok s \<and>
     packets s = [[8], [9]]"
proof -
  obtain s where run: "recv_run (Test, queue0) [Arrived [7], Arrived [8], Taken [7], Arrived [9], Looked 0 7] (Work 0, s)"
    using interleaved_run by blast
  from receive_interleaving [OF queue0_ok(1) run] queue0_ok(2) run show ?thesis by (auto split: if_splits)
qed

end
