(* ===== verification/Network_Run.thy ===== *)
theory Network_Run
  imports Kernel_Run Recv_Interleave
begin

text \<open>
  The running kernel with a pre-empted network task. \<^verbatim>\<open>Kernel_Run\<close> executes a round of the task in one step; here the
  task goes through the accesses of \<^verbatim>\<open>Recv_Interleave\<close> to the variables of the queue one at a time, and interrupts, other
  tasks and system calls come between any two of them and before the packet is handled. The packets are nevertheless
  answered in the order of their arrival, each once, and every eight accesses handle one.
\<close>

section \<open>Steps\<close>

datatype preempt_event = Access | Other kernel_event

text \<open>\<open>Work packet\<close> is the call of \<^verbatim>\<open>start_pdu_encapsulation\<close>; with the null pointer it faults.\<close>

fun net_access :: "device \<Rightarrow> addr \<Rightarrow> recv_loc \<Rightarrow> routing_state \<Rightarrow> (recv_loc \<times> routing_state) option" where
  "net_access dev frame_addr (Work packet) s =
     map_option (Pair Test) (start_pdu_encapsulation dev frame_addr packet s)"
| "net_access dev frame_addr Null_Packet s = None"
| "net_access dev frame_addr loc s = Some (recv_access loc s)"

fun preempt_step ::
  "device \<Rightarrow> addr \<Rightarrow> preempt_event \<Rightarrow> recv_loc \<times> routing_state \<Rightarrow> (recv_loc \<times> routing_state) option" where
  "preempt_step dev frame_addr Access (loc, s) = net_access dev frame_addr loc s"
| "preempt_step dev frame_addr (Other e) (loc, s) = map_option (Pair loc) (kernel_step dev frame_addr e s)"

fun preempt_run ::
  "device \<Rightarrow> addr \<Rightarrow> preempt_event list \<Rightarrow> recv_loc \<times> routing_state \<Rightarrow> (recv_loc \<times> routing_state) option" where
  "preempt_run dev frame_addr [] c = Some c"
| "preempt_run dev frame_addr (e # es) c = do { c \<leftarrow> preempt_step dev frame_addr e c; preempt_run dev frame_addr es c }"

fun preempt_ok :: "preempt_event \<Rightarrow> bool" where
  "preempt_ok Access \<longleftrightarrow> True"
| "preempt_ok (Other e) \<longleftrightarrow> e \<noteq> Network_Round \<and> event_ok e"

text \<open>The packets that the other events put into the queue, in their order.\<close>

fun arrivals :: "device \<Rightarrow> addr \<Rightarrow> preempt_event list \<Rightarrow> recv_loc \<times> routing_state \<Rightarrow> raw_packet_t list" where
  "arrivals dev frame_addr [] c = []"
| "arrivals dev frame_addr (e # es) c =
     (case preempt_step dev frame_addr e c of
        None \<Rightarrow> []
      | Some c' \<Rightarrow> (if e = Access then [] else drop (length (waiting (snd c))) (waiting (snd c'))) @
          arrivals dev frame_addr es c')"

text \<open>The packet the task works on, and how far it has come in its round of eight accesses.\<close>

fun hand :: "recv_loc \<Rightarrow> 's queue_state_scheme \<Rightarrow> raw_packet_t list" where
  "hand (Work packet) s = [recv_packet_queue s ! packet]"
| "hand _ s = []"

fun position :: "recv_loc \<Rightarrow> nat" where
  "position Test = 0"
| "position (Test_end _) = 1"
| "position Remove = 2"
| "position (Remove_end _) = 3"
| "position Take = 4"
| "position (Advance _) = 5"
| "position (Store _ _) = 6"
| "position (Work _) = 7"
| "position Null_Packet = 8"

text \<open>Without pre-emption the accesses are the round of \<^verbatim>\<open>network_task_recv\<close>.\<close>

lemma accesses_are_round:
  "preempt_run dev frame_addr (replicate (if new_packet_available s then 8 else 2) Access) (Test, s) =
   map_option (Pair Test) (network_task_round dev frame_addr s)"
proof -
  have "replicate 8 Access = [Access, Access, Access, Access, Access, Access, Access, Access]" "replicate 2 Access = [Access, Access]"
    by (simp_all add: eval_nat_numeral)
  moreover have "preempt_run dev frame_addr [] = Some" by (rule ext) simp
  ultimately show ?thesis
    by (cases "new_packet_available s") (simp_all add: network_task_round_def remove_packet_def new_packet_available_def)
qed

section \<open>Events between the accesses\<close>

lemma handle_interrupt_grows:
  assumes "handle_interrupt dev s = Some s'"
  shows "queue_grows s s'"
proof -
  obtain status h where r: "read32 dev PIC_IRQ_STATUS s = (status, s\<lparr>io := h\<rparr>)"
    using read32_io [of dev PIC_IRQ_STATUS s] by (metis prod.collapse)
  let ?s = "s\<lparr>io := h\<rparr>"
  obtain u where u: "(if status AND PCI3_INTBIT \<noteq> 0 then e1000_irq_handler dev ?s else Some ?s) = Some u"
    and s': "s' = (let t = if status AND TIMER1_INTBIT \<noteq> 0 then irq_handler_timer u else u
      in if status AND TIMER3_INTBIT \<noteq> 0 then irq_handler_clock t else t)"
    using assms by (auto simp: handle_interrupt_def r Let_def bind_eq_Some_conv)
  have "queue_grows ?s u" using u grows.irq_handler grows.R_refl by (auto split: if_splits)
  then have "queue_grows s u" using grows.R_io grows.R_trans by blast
  have "queue_grows t (irq_handler_timer t)" "queue_grows t (irq_handler_clock t)" for t :: "'a e1000_state_scheme"
    using schedule_only [of t]
    by (auto simp: irq_handler_timer_def irq_handler_clock_def write32_def write8_def bus_write_def Let_def intro!: queue_grows_same)
  note timers = this
  define t where "t = (if status AND TIMER1_INTBIT \<noteq> 0 then irq_handler_timer u else u)"
  have "queue_grows u t" using timers(1) [of u] grows.R_refl [of u] by (simp add: t_def)
  moreover have "queue_grows t s'" using timers(2) [of t] grows.R_refl [of t] by (simp add: s' t_def Let_def)
  ultimately show ?thesis using \<open>queue_grows s u\<close> queue_grows_trans by blast
qed

lemma kernel_irq_grows:
  assumes "kernel_irq dev s = Some s'"
  shows "queue_grows s s'"
proof -
  obtain t u where t: "save_current_task_state (pc (cpu s) + 4) (cpsr (cpu s)) s = Some t" "handle_interrupt dev t = Some u"
    "load_current_task_state u = Some s'" using assms by (auto simp: kernel_irq_def bind_eq_Some_conv)
  have "queue_grows s t" "queue_grows u s'"
    using t(1,3) by (auto simp: save_current_task_state_def load_current_task_state_def split: option.splits intro!: queue_grows_same)
  with handle_interrupt_grows [OF t(2)] show ?thesis using grows.R_trans by blast
qed

lemma create_process_grows:
  fixes s :: "'s e1000_state_scheme"
  assumes "create_process spec function s = Some (r, s')"
  shows "queue_grows s s'"
proof -
  obtain str where cp: "create_process spec function s = (let
      t = put str (set_cpsr (svc_mode (cpsr (cpu s))) (s\<lparr>ram := store32 (ram s) spec function\<rparr>))
      in Some (Some 0, set_cpsr (cpsr (cpu s)) (snd (add_task function t))))"
    by (rule create_process_entry)
  let ?t = "put str (set_cpsr (svc_mode (cpsr (cpu s))) (s\<lparr>ram := store32 (ram s) spec function\<rparr>))"
  have "queue_grows t (snd (add_task function t))" for t :: "'s e1000_state_scheme"
    using ring_buffer_insert_only [of "Some (task_count t)"
        "t\<lparr>tasks := (tasks t)[task_count t := init_task function (TASK_STACK_BASE_ADDRESS - STACK_SIZE * of_nat (task_count t))]\<rparr>"]
    by (auto simp: add_task_def Let_def intro!: queue_grows_same)
  note add = this [of ?t]
  have "queue_grows s ?t" "queue_grows (snd (add_task function ?t)) s'"
    using assms cp by (auto simp: put_def set_cpsr_def Let_def intro!: queue_grows_same)
  with add show ?thesis using queue_grows_trans by blast
qed

lemma kernel_step_grows:
  "kernel_step dev frame_addr e s = Some s' \<Longrightarrow> e \<noteq> Network_Round \<Longrightarrow> queue_grows s s'"
  by (cases e) (auto intro: kernel_irq_grows create_process_grows queue_grows_same)

text \<open>What the task knows and has in hand is not changed by them.\<close>

lemma queue_grows_loc:
  assumes "queue_ok s" "queue_grows s s'" "loc_ok loc s"
  shows "loc_ok loc s'" "hand loc s' = hand loc s"
    "waiting s' = waiting s @ drop (length (waiting s)) (waiting s')"
proof -
  have g: "recv_queue_start s' = recv_queue_start s" "\<exists>new. waiting s' = waiting s @ new"
    "\<forall>i < 128. recv_queue_start s = (i + 1) mod 128 \<longrightarrow> recv_packet_queue s' ! i = recv_packet_queue s ! i"
    using assms(1,2) by (auto simp: queue_grows_def slot_kept_def)
  then have "packets s' = [] \<Longrightarrow> packets s = []" by (auto simp: packets_waiting)
  then show "loc_ok loc s'" using assms(3) g(1) by (cases loc) auto
  show "hand loc s' = hand loc s" using assms(3) g(3) by (cases loc) auto
  show "waiting s' = waiting s @ drop (length (waiting s)) (waiting s')" using g(2) by auto
qed

section \<open>Accesses of the task\<close>

lemma store_access_waiting:
  assumes "queue_ok s" "loc_ok (Store packet start) s"
  shows "waiting s = recv_packet_queue s ! packet # waiting (s\<lparr>recv_queue_start := start\<rparr>)" "packet < 128" "start < 128"
proof -
  have q: "packet = recv_queue_start s" "start = (recv_queue_start s + 1) mod 128" "packets s \<noteq> []"
    "recv_queue_start s < 128" "recv_queue_end s < 128" using assms by (simp_all add: queue_ok_def)
  then have "recv_queue_start s \<noteq> recv_queue_end s" using packets_empty_iff [OF assms(1)] by simp
  from ring_list_get [OF q(4,5) this, of "recv_packet_queue s"] q(1,2)
  show "waiting s = recv_packet_queue s ! packet # waiting (s\<lparr>recv_queue_start := start\<rparr>)" by (simp add: waiting_def)
  show "packet < 128" "start < 128" using q by simp_all
qed

lemma plain_access:
  assumes "queue_ok s" "loc_ok loc s" "\<nexists>packet. loc = Work packet" "\<nexists>packet start. loc = Store packet start"
  shows "net_access dev frame_addr loc s = Some (recv_access loc s)" "hand loc s = []"
    "\<exists>loc'. recv_access loc s = (loc', s) \<and> hand loc' s = [] \<and> loc_ok loc' s \<and>
      (waiting s \<noteq> [] \<longrightarrow> position loc' = position loc + 1)"
proof -
  have empty: "waiting s = [] \<longleftrightarrow> recv_queue_start s = recv_queue_end s" "packets s = [] \<longleftrightarrow> recv_queue_start s = recv_queue_end s"
    using packets_empty_iff [OF assms(1)] by (simp_all add: packets_waiting)
  show "net_access dev frame_addr loc s = Some (recv_access loc s)" using assms(2-4) by (cases loc) simp_all
  show "hand loc s = []" using assms(2-4) by (cases loc) simp_all
  show "\<exists>loc'. recv_access loc s = (loc', s) \<and> hand loc' s = [] \<and> loc_ok loc' s \<and>
      (waiting s \<noteq> [] \<longrightarrow> position loc' = position loc + 1)"
  proof (cases loc)
    case (Test_end start)
    then show ?thesis using assms(2) by (cases "recv_queue_start s = recv_queue_end s") (simp_all add: empty)
  next
    case (Remove_end start)
    then show ?thesis using assms(2) by (simp add: empty)
  next
    case (Advance packet)
    then show ?thesis using assms(2) by simp
  next
    case (Store packet start)
    then show ?thesis using assms(4) by blast
  qed (use assms(2,3) in simp_all)
qed

lemma net_access_keeps:
  assumes ok: "kernel_ok dev n objs s" and loc: "loc_ok loc s" and slot: "stack_slot frame_addr 28"
  shows "\<exists>loc' s' fin. net_access dev frame_addr loc s = Some (loc', s') \<and> kernel_ok dev n objs s' \<and> loc_ok loc' s' \<and>
    hand loc s @ waiting s = fin @ hand loc' s' @ waiting s' \<and>
    wire s' = wire s @ List.map_filter (slot_answer (nic_mac n)) fin \<and>
    (hand loc s @ waiting s \<noteq> [] \<longrightarrow> 8 * length fin + position loc' = position loc + 1)"
proof -
  have q: "queue_ok s" using ok by (simp add: kernel_ok_def)
  consider packet where "loc = Work packet" | packet start where "loc = Store packet start"
    | "\<nexists>packet. loc = Work packet" "\<nexists>packet start. loc = Store packet start" by blast
  then show ?thesis
  proof cases
    case 1
    with start_pdu_keeps [OF ok slot, of packet] show ?thesis
      by (auto simp: map_filter_simps split: option.splits intro!: exI [of _ "hand loc s"])
  next
    case 2
    note st = store_access_waiting [OF q loc [unfolded 2]]
    have "kernel_ok dev n objs (s\<lparr>recv_queue_start := start\<rparr>)" using kernel_ok_start [OF ok st(3)] .
    moreover have "loc_ok (Work packet) (s\<lparr>recv_queue_start := start\<rparr>)" using loc 2 st(2) by simp
    ultimately show ?thesis using 2 st(1)
      by (intro exI [of _ "Work packet"] exI [of _ "s\<lparr>recv_queue_start := start\<rparr>"] exI [of _ "[]"]) (simp add: map_filter_simps)
  next
    case 3
    note plain = plain_access [OF q loc 3]
    obtain loc' where "recv_access loc s = (loc', s)" "hand loc' s = []" "loc_ok loc' s"
      "waiting s \<noteq> [] \<longrightarrow> position loc' = position loc + 1" using plain(3) by blast
    then show ?thesis using ok plain(1,2)
      by (intro exI [of _ loc'] exI [of _ s] exI [of _ "[]"]) (simp add: map_filter_simps)
  qed
qed

section \<open>Runs\<close>

lemma other_keeps:
  assumes "kernel_ok dev n objs s" "card_delivers dev n" "stack_slot frame_addr 28" "preempt_ok (Other e)"
  shows "\<exists>s'. kernel_step dev frame_addr e s = Some s' \<and> kernel_ok dev n objs s' \<and> wire s' = wire s \<and> queue_grows s s'"
proof -
  have e: "e \<noteq> Network_Round" "event_ok e" using assms(4) by simp_all
  from kernel_step_keeps [OF assms(1-3) e(2)] e(1) obtain s' where
    "kernel_step dev frame_addr e s = Some s'" "kernel_ok dev n objs s'" "wire s' = wire s" by auto
  then show ?thesis using kernel_step_grows e(1) by blast
qed

text \<open>A packet is handled after the eight accesses of its round, whatever arrives in the meantime.\<close>

lemma progress_step:
  fixes k :: nat
  assumes "length xs = d + l" "xs \<noteq> [] \<longrightarrow> 8 * d + p' = p + 1" "\<forall>k \<le> l. 8 * k \<le> c + p' \<longrightarrow> k \<le> h"
    and "k \<le> length xs" "8 * k \<le> c + 1 + p"
  shows "k \<le> d + h"
proof (cases "k \<le> d")
  case False
  then have "8 * d + p' = p + 1" using assms(2,4) by (cases xs) auto
  then have "k - d \<le> h" using assms(3) [rule_format, of "k - d"] assms(1,4,5) False by simp
  then show ?thesis by simp
qed simp

text \<open>
  What a run has done: the packets it has handled and their answers, and what is left. The last conjunct bounds the accesses
  that are needed for the first \<open>k\<close> packets.
\<close>

definition served ::
  "device \<Rightarrow> addr \<Rightarrow> e1000_device_t \<Rightarrow> preempt_event list \<Rightarrow> recv_loc \<times> routing_state \<Rightarrow> raw_packet_t list \<Rightarrow>
   recv_loc \<times> routing_state \<Rightarrow> bool" where
  "served dev frame_addr n es c handled c' \<longleftrightarrow>
     hand (fst c) (snd c) @ waiting (snd c) @ arrivals dev frame_addr es c = handled @ hand (fst c') (snd c') @ waiting (snd c') \<and>
     wire (snd c') = wire (snd c) @ List.map_filter (slot_answer (nic_mac n)) handled \<and>
     (\<forall>k \<le> length (hand (fst c) (snd c) @ waiting (snd c)).
        8 * k \<le> count_list es Access + position (fst c) \<longrightarrow> k \<le> length handled)"

lemma served_access:
  assumes "net_access dev frame_addr loc s = Some (loc1, s1)"
    and order: "hand loc s @ waiting s = fin @ hand loc1 s1 @ waiting s1"
    and sent: "wire s1 = wire s @ List.map_filter (slot_answer (nic_mac n)) fin"
    and pos: "hand loc s @ waiting s \<noteq> [] \<longrightarrow> 8 * length fin + position loc1 = position loc + 1"
    and rest: "served dev frame_addr n es (loc1, s1) handled c'"
  shows "served dev frame_addr n (Access # es) (loc, s) (fin @ handled) c'"
proof -
  note r = rest [unfolded served_def, simplified fst_conv snd_conv]
  have "hand loc s @ waiting s @ arrivals dev frame_addr es (loc1, s1) = (fin @ handled) @ hand (fst c') (snd c') @ waiting (snd c')"
    using order r by (metis append.assoc)
  moreover have "k \<le> length fin + length handled"
    if "k \<le> length (hand loc s @ waiting s)" "8 * k \<le> count_list es Access + 1 + position loc" for k
    using progress_step [OF _ pos _ that, of "length (hand loc1 s1 @ waiting s1)" "length handled"] order r by simp
  ultimately show ?thesis using assms(1) sent r by (simp add: served_def map_filter_def)
qed

lemma served_other:
  assumes "queue_ok s" "loc_ok loc s" "kernel_step dev frame_addr e s = Some s1" "wire s1 = wire s" "queue_grows s s1"
    and rest: "served dev frame_addr n es (loc, s1) handled c'"
  shows "served dev frame_addr n (Other e # es) (loc, s) handled c'"
proof -
  note g = queue_grows_loc [OF assms(1,5,2)]
  note r = rest [unfolded served_def, simplified fst_conv snd_conv]
  have "length (waiting s) \<le> length (waiting s1)" using arg_cong [OF g(3), of length] by simp
  moreover have "hand loc s @ waiting s @ drop (length (waiting s)) (waiting s1) @ arrivals dev frame_addr es (loc, s1) =
      handled @ hand (fst c') (snd c') @ waiting (snd c')" using r g(2,3) by (metis append.assoc)
  ultimately show ?thesis using assms(3,4) r g(2) by (simp add: served_def)
qed

lemma preempt_run_keeps:
  assumes "kernel_ok dev n objs s" "loc_ok loc s" "card_delivers dev n" "stack_slot frame_addr 28" "\<forall>e \<in> set es. preempt_ok e"
  shows "\<exists>loc' s' handled. preempt_run dev frame_addr es (loc, s) = Some (loc', s') \<and> kernel_ok dev n objs s' \<and>
    served dev frame_addr n es (loc, s) handled (loc', s')"
  using assms(1,2,5)
proof (induction es arbitrary: loc s)
  case Nil
  have "position loc < 8" using Nil(2) by (cases loc) simp_all
  then show ?case using Nil by (auto simp: served_def map_filter_simps)
next
  case (Cons e es)
  show ?case
  proof (cases e)
    case Access
    obtain loc1 s1 fin where a: "net_access dev frame_addr loc s = Some (loc1, s1)" "kernel_ok dev n objs s1" "loc_ok loc1 s1"
      "hand loc s @ waiting s = fin @ hand loc1 s1 @ waiting s1" "wire s1 = wire s @ List.map_filter (slot_answer (nic_mac n)) fin"
      "hand loc s @ waiting s \<noteq> [] \<longrightarrow> 8 * length fin + position loc1 = position loc + 1"
      using net_access_keeps [OF Cons.prems(1,2) assms(4)] by blast
    obtain loc' s' handled where r: "preempt_run dev frame_addr es (loc1, s1) = Some (loc', s')" "kernel_ok dev n objs s'"
      "served dev frame_addr n es (loc1, s1) handled (loc', s')"
      using Cons.IH [OF a(2,3)] Cons.prems(3) by auto
    show ?thesis using a(1) r(1,2) served_access [OF a(1,4-6) r(3)] unfolding Access by auto
  next
    case (Other o1)
    then have ok: "preempt_ok (Other o1)" using Cons.prems(3) by simp
    obtain s1 where o: "kernel_step dev frame_addr o1 s = Some s1" "kernel_ok dev n objs s1" "wire s1 = wire s" "queue_grows s s1"
      using other_keeps [OF Cons.prems(1) assms(3,4) ok] by blast
    have q: "queue_ok s" using Cons.prems(1) by (simp add: kernel_ok_def)
    obtain loc' s' handled where r: "preempt_run dev frame_addr es (loc, s1) = Some (loc', s')" "kernel_ok dev n objs s'"
      "served dev frame_addr n es (loc, s1) handled (loc', s')"
      using Cons.IH [OF o(2) queue_grows_loc(1) [OF q o(4) Cons.prems(2)]] Cons.prems(3) by auto
    show ?thesis using o(1) r(1,2) served_other [OF q Cons.prems(2) o(1,3,4) r(3)] unfolding Other by auto
  qed
qed

text \<open>
  Property C5: the network task answers what arrives, in order, under pre-emption. Interrupts, other tasks and system calls may
  come between any two accesses of the task to its queue and before it handles a packet. Whatever the
  sequence, it is executed without a fault; the packets that waited followed by those that arrived are those that were
  handled, the one in hand and those that wait, in this order; what was sent are exactly the answers to
  the handled ones; and every eight accesses have handled a packet as long as one of the first waited.
\<close>

theorem network_answers_in_order:
  assumes "kernel_ok dev n objs s" "card_delivers dev n" "stack_slot frame_addr 28" "\<forall>e \<in> set es. preempt_ok e"
  shows "\<exists>loc s' handled. preempt_run dev frame_addr es (Test, s) = Some (loc, s') \<and> kernel_ok dev n objs s' \<and>
    waiting s @ arrivals dev frame_addr es (Test, s) = handled @ hand loc s' @ waiting s' \<and>
    wire s' = wire s @ List.map_filter (slot_answer (nic_mac n)) handled \<and>
    min (length (waiting s)) (count_list es Access div 8) \<le> length handled"
proof -
  have "loc_ok Test s" by simp
  from preempt_run_keeps [OF assms(1) this assms(2-4)] obtain loc s' handled where
    r: "preempt_run dev frame_addr es (Test, s) = Some (loc, s')" "kernel_ok dev n objs s'"
      "waiting s @ arrivals dev frame_addr es (Test, s) = handled @ hand loc s' @ waiting s'"
      "wire s' = wire s @ List.map_filter (slot_answer (nic_mac n)) handled"
      "\<forall>k \<le> length (waiting s). 8 * k \<le> count_list es Access \<longrightarrow> k \<le> length handled" by (auto simp: served_def)
  moreover from r(5) have "min (length (waiting s)) (count_list es Access div 8) \<le> length handled" by simp
  ultimately show ?thesis by blast
qed

section \<open>Witness\<close>

text \<open>The request is answered although the card, the timer and the clock interrupt the task three times on its way.\<close>

theorem network_answers_in_order_witness:
  "\<exists>s loc s' handled. packets s = [arp_request0] \<and>
     preempt_run arp_card 0x1000
       [Access, Access, Other Interrupt, Access, Access, Access, Other Interrupt, Access, Access, Other Interrupt, Access]
       (Test, s) = Some (loc, s') \<and>
     handled \<noteq> [] \<and> wire s' = wire s @ List.map_filter (slot_answer (nic_mac nic0)) handled"
proof -
  obtain s where s: "kernel_ok arp_card nic0 (heap_object ([], []) net1) s" "packets s = [arp_request0]"
    using net1_received by blast
  then have w: "length (waiting s) = 1" by (auto simp: packets_waiting)
  let ?es = "[Access, Access, Other Interrupt, Access, Access, Access, Other Interrupt, Access, Access, Other Interrupt, Access]"
  have c: "count_list ?es Access div 8 = 1" and ok: "\<forall>e \<in> set ?es. preempt_ok e" by simp_all
  from network_answers_in_order [OF s(1) arp_card_delivers stack_slot0 ok] obtain loc s' handled where
    r: "preempt_run arp_card 0x1000 ?es (Test, s) = Some (loc, s')"
      "wire s' = wire s @ List.map_filter (slot_answer (nic_mac nic0)) handled"
      "min (length (waiting s)) (count_list ?es Access div 8) \<le> length handled" by blast
  moreover have "handled \<noteq> []" using r(3) unfolding w c by auto
  ultimately show ?thesis using s(2) by blast
qed

end
