(* ===== verification/Kernel_Boot.thy ===== *)
theory Kernel_Boot
  imports Network_Run
begin

text \<open>
  \<^verbatim>\<open>kernel_main\<close> from the static initial state: the bus is enumerated, the network card is set up with its
  descriptors and buffers in the heap, the network task becomes the first task and the scheduler starts it.
  The theorem joins this to the runs of the kernel: the state the network task has prepared is well formed,
  so the kernel runs for ever from reset on.
\<close>

section \<open>The console and the bus\<close>

lemma puts_console: "\<exists>c. snd (puts str s) = s\<lparr>console := c\<rparr>"
proof -
  have step: "\<exists>c. snd (putchar k s) = s\<lparr>console := c\<rparr>" for k and s :: "'b io_state_scheme"
    by (simp add: putchar_def putchar_raw_def Let_def) (blast intro: exI)
  have "\<exists>c. snd (puts_loop str s) = s\<lparr>console := c\<rparr>"
  proof (induction str arbitrary: s)
    case Nil
    show ?case using step [of 10 s] by (simp add: split_beta)
  next
    case (Cons k ks)
    obtain c where c: "snd (putchar (of_char k) s) = s\<lparr>console := c\<rparr>" using step by blast
    obtain c' where c': "snd (puts_loop ks (s\<lparr>console := c\<rparr>)) = s\<lparr>console := c'\<rparr>" using Cons [of "s\<lparr>console := c\<rparr>"] by auto
    show ?case using c c' step [of 10 s] by (auto simp: split_beta)
  qed
  then show ?thesis by (simp add: puts_def)
qed

lemma only_ioD: "only_io s t \<Longrightarrow> \<exists>h. t = s\<lparr>io := h\<rparr>"
  by (auto simp: only_io_def)

lemma find_self_io: "\<exists>h. snd (find_self dev is s) = s\<lparr>io := h\<rparr>"
proof -
  have "only_io s t \<Longrightarrow> only_io s (snd (find_self dev is t))" for t
    by (induction "is" arbitrary: t) (auto simp: split_beta only_io_intros)
  then show ?thesis using only_ioD only_io_refl by blast
qed

lemma configure_board_state: "\<exists>r c h. configure_board dev s = Some (r, s\<lparr>console := c, io := h\<rparr>)"
proof -
  let ?s = "write32 PCI_IMAP2 (drop_bit 28 0x60000000) (write32 PCI_IMAP1 (drop_bit 28 0x50000000) (write32 PCI_IMAP0 (drop_bit 28 0x44000000) s))"
  obtain h where h: "snd (find_self dev [11..<32] ?s) = s\<lparr>io := h\<rparr>"
    using find_self_io [of dev "[11..<32]" ?s] by (auto simp: write32_def bus_write_def)
  let ?t = "s\<lparr>io := h\<rparr>"
  have log: "\<exists>str. LOG_ERROR ''kernel/pci/pci.c'' ''Cannot find PCI core!'' [] ?t = Some (put str ?t)"
    unfolding LOG_ERROR_def by (rule exI, rule general_log_put) (simp_all add: render_plain)
  show ?thesis
  proof (cases "fst (find_self dev [11..<32] ?s) = 0")
    case True
    obtain str where l: "LOG_ERROR ''kernel/pci/pci.c'' ''Cannot find PCI core!'' [] ?t = Some (put str ?t)" using log by blast
    have "put str ?t = s\<lparr>console := console s @ crlf str, io := h\<rparr>" by (simp add: put_def)
    with l have "configure_board dev s = Some (- 1, s\<lparr>console := console s @ crlf str, io := h\<rparr>)"
      using True h by (simp add: configure_board_def Let_def split_beta del: upt_rec_numeral)
    then show ?thesis by blast
  next
    case False
    have "s\<lparr>io := k\<rparr> = s\<lparr>console := console s, io := k\<rparr>" for k by (cases s) simp
    moreover have "\<exists>k. configure_board dev s = Some (0, s\<lparr>io := k\<rparr>)"
      using False h by (auto simp: configure_board_def Let_def split_beta read32_def bus_read_def write32_def bus_write_def
          simp del: upt_rec_numeral)
    ultimately show ?thesis by metis
  qed
qed

text \<open>The card is in slot \<open>i\<close> of a configuration space that does not change, and nowhere else.\<close>

definition card_in_slot :: "device \<Rightarrow> nat \<Rightarrow> bool" where
  "card_in_slot dev i \<longleftrightarrow> (\<exists>vendor device. config_space dev vendor device \<and> i \<in> {11..<32} \<and>
     vendor i = INTEL_VEND \<and> device i = E1000_DEV \<and>
     (\<forall>j \<in> {11..<32}. vendor j = INTEL_VEND \<and> device j = E1000_DEV \<longrightarrow> j = i))"

lemma pci_init_state:
  assumes "card_in_slot dev i" "length (pci_devices s) = 21" "\<forall>e \<in> set (pci_devices s). vendor_id e = 0"
  shows "\<exists>c h ds. pci_init dev s = Some (s\<lparr>console := c, io := h, pci_devices := ds\<rparr>) \<and>
    pci_get_device INTEL_VEND E1000_DEV (s\<lparr>console := c, io := h, pci_devices := ds\<rparr>) = Some (i - 11)"
proof -
  obtain vendor device where cfg: "config_space dev vendor device" "i \<in> {11..<32}" "vendor i = INTEL_VEND" "device i = E1000_DEV"
    "\<forall>j \<in> {11..<32}. vendor j = INTEL_VEND \<and> device j = E1000_DEV \<longrightarrow> j = i" using assms(1) unfolding card_in_slot_def by blast
  obtain r c h where b: "configure_board dev s = Some (r, s\<lparr>console := c, io := h\<rparr>)" using configure_board_state by blast
  let ?t = "s\<lparr>console := c, io := h\<rparr>"
  have t: "length (pci_devices ?t) = 21" "\<forall>e \<in> set (pci_devices ?t). vendor_id e = 0" using assms(2,3) by simp_all
  obtain h' ds where e: "enumerate_pci_devices dev ?t = ?t\<lparr>io := h' @ io ?t, pci_devices := ds\<rparr>"
    using enumerate_fold [OF cfg(1) t(1), of 21] by (auto simp: enumerate_pci_devices_def)
  have "INTEL_VEND \<noteq> PCI_INVALID_VENDOR" "INTEL_VEND \<noteq> 0" by (simp_all add: INTEL_VEND_def PCI_INVALID_VENDOR_def)
  from enumerate_finds [OF cfg(1) t cfg(2-4) this cfg(5)]
  have "pci_get_device INTEL_VEND E1000_DEV (enumerate_pci_devices dev ?t) = Some (i - 11)" by blast
  then show ?thesis using b e by (simp add: pci_init_def) blast
qed

section \<open>The network card\<close>

text \<open>What stays of the driver's data: where the descriptors are, the bus entry, six bytes of address.\<close>

definition nic_same :: "e1000_device_t \<Rightarrow> e1000_device_t \<Rightarrow> bool" where
  "nic_same n n' \<longleftrightarrow> device_base n' = device_base n \<and> pci_device n' = pci_device n \<and> length (nic_mac n') = length (nic_mac n)"

definition nic_only :: "'s e1000_state_scheme \<Rightarrow> 's e1000_state_scheme \<Rightarrow> bool" where
  "nic_only s s' \<longleftrightarrow> (\<exists>n n' h. e1000 s = Some n \<and> s' = s\<lparr>io := h, e1000 := Some n'\<rparr> \<and> nic_same n n')"

lemma nic_only_trans: "nic_only s t \<Longrightarrow> nic_only t u \<Longrightarrow> nic_only s u"
proof -
  assume "nic_only s t" "nic_only t u"
  then obtain n n' n'' h h' where e: "e1000 s = Some n" "t = s\<lparr>io := h, e1000 := Some n'\<rparr>" "nic_same n n'"
    "u = t\<lparr>io := h', e1000 := Some n''\<rparr>" "nic_same n' n''" by (auto simp: nic_only_def)
  then have "u = s\<lparr>io := h', e1000 := Some n''\<rparr>" "nic_same n n''" by (simp_all add: nic_same_def)
  then show ?thesis using e(1) unfolding nic_only_def by blast
qed

lemma nic_only_command:
  assumes "e1000 s = Some n"
  shows "\<exists>s'. write_command dev a v s = Some s' \<and> nic_only s s' \<and> e1000 s' = Some n"
    "\<exists>w s'. read_command dev b s = Some (w, s') \<and> nic_only s s' \<and> e1000 s' = Some n"
proof -
  have "s\<lparr>io := h\<rparr> = s\<lparr>io := h, e1000 := Some n\<rparr>" for h using assms by (cases s) simp
  then have io: "nic_only s (s\<lparr>io := h\<rparr>)" for h using assms unfolding nic_only_def nic_same_def by metis
  show "\<exists>s'. write_command dev a v s = Some s' \<and> nic_only s s' \<and> e1000 s' = Some n"
    using write_command_io [OF assms, of dev a v] io assms by fastforce
  show "\<exists>w s'. read_command dev b s = Some (w, s') \<and> nic_only s s' \<and> e1000 s' = Some n"
    using read_command_io [OF assms, of dev b] io assms by fastforce
qed

lemma nic_only_update:
  assumes "e1000 s = Some n" "nic_same n (f n)"
  shows "update_nic f s = Some (s\<lparr>e1000 := Some (f n)\<rparr>)" "nic_only s (s\<lparr>e1000 := Some (f n)\<rparr>)"
proof -
  have "s\<lparr>e1000 := Some (f n)\<rparr> = s\<lparr>io := io s, e1000 := Some (f n)\<rparr>" by simp
  then show "nic_only s (s\<lparr>e1000 := Some (f n)\<rparr>)" using assms unfolding nic_only_def by blast
qed (simp add: update_nic_def assms)

lemma nic_only_refl: "e1000 s = Some n \<Longrightarrow> nic_only s s"
proof -
  assume e: "e1000 s = Some n"
  then have "s\<lparr>e1000 := Some n\<rparr> = s" by (cases s) simp
  then show ?thesis using nic_only_update(2) [OF e, of "\<lambda>n. n"] by (simp add: nic_same_def)
qed

lemma nic_only_some: "nic_only s t \<Longrightarrow> \<exists>n. e1000 t = Some n"
  by (auto simp: nic_only_def)

lemma detect_eeprom_loop_state: "e1000 s = Some n \<Longrightarrow> \<exists>s'. detect_eeprom_loop dev k s = Some s' \<and> nic_only s s'"
proof (induction k arbitrary: s n)
  case 0
  then show ?case using nic_only_refl by simp
next
  case (Suc k)
  show ?case
  proof (cases "eeprom_exists n")
    case True
    then show ?thesis using Suc.prems nic_only_refl by simp
  next
    case False
    obtain w t where r: "read_command dev (ucast REG_EEPROM) s = Some (w, t)" "nic_only s t" "e1000 t = Some n"
      using nic_only_command(2) [OF Suc.prems] by blast
    let ?f = "\<lambda>n. n\<lparr>eeprom_exists := (w AND 0x10 \<noteq> 0)\<rparr>"
    have "nic_same n (?f n)" by (simp add: nic_same_def)
    note u = nic_only_update [where f = ?f, OF r(3) this]
    obtain s' where s': "detect_eeprom_loop dev k (t\<lparr>e1000 := Some (?f n)\<rparr>) = Some s'" "nic_only (t\<lparr>e1000 := Some (?f n)\<rparr>) s'"
      using Suc.IH [of "t\<lparr>e1000 := Some (?f n)\<rparr>"] by auto
    have "detect_eeprom_loop dev (Suc k) s = Some s'" using Suc.prems False r(1) u(1) s'(1) by simp
    then show ?thesis using r(2) u(2) s'(2) nic_only_trans by blast
  qed
qed

lemma detect_eeprom_state: "e1000 s = Some n \<Longrightarrow> \<exists>s'. detect_eeprom dev s = Some s' \<and> nic_only s s'"
proof -
  assume "e1000 s = Some n"
  then obtain t where t: "write_command dev REG_EEPROM 0x1 s = Some t" "nic_only s t" "e1000 t = Some n"
    using nic_only_command(1) by blast
  obtain s' where s': "detect_eeprom_loop dev 1000 t = Some s'" "nic_only t s'" using detect_eeprom_loop_state [OF t(3)] by blast
  have "detect_eeprom dev s = Some s'" unfolding detect_eeprom_def t(1) Option.bind_lunit by (rule s'(1))
  then show ?thesis using nic_only_trans [OF t(2) s'(2)] by blast
qed

lemma read_hardware_address_state:
  assumes "e1000 s = Some n" "length (nic_mac n) = 6"
  shows "\<exists>s'. read_e1000_hardware_address dev s = Some s' \<and> nic_only s s'"
proof -
  have "only_io s (snd (pci_read64 dev (mem_base n + MAC_OFFSET) s))" by (intro only_io_pci only_io_refl)
  then obtain v h where r: "pci_read64 dev (mem_base n + MAC_OFFSET) s = (v, s\<lparr>io := h\<rparr>)"
    using only_ioD by (metis prod.collapse)
  have "\<exists>h'. snd (ntoh_mac dev (map (byte_of v) [0..<6]) (s\<lparr>io := h\<rparr>)) = s\<lparr>io := h'\<rparr>"
    by (auto simp: ntoh_mac_def is_big_endian_def read32_def bus_read_def split_beta Let_def simp del: upt_rec_numeral)
  then obtain h' where h': "snd (ntoh_mac dev (map (byte_of v) [0..<6]) (s\<lparr>io := h\<rparr>)) = s\<lparr>io := h'\<rparr>" by blast
  define m where "m = fst (ntoh_mac dev (map (byte_of v) [0..<6]) (s\<lparr>io := h\<rparr>))"
  have "length (reverse_mac xs) = 6" for xs by (simp add: reverse_mac_def upt_rec NULL_MAC_def)
  then have "length m = 6" by (simp add: m_def ntoh_mac_def split_beta)
  then have "nic_same n (n\<lparr>nic_mac := m\<rparr>)" using assms(2) by (simp add: nic_same_def)
  then have m: "nic_only s (s\<lparr>io := h', e1000 := Some (n\<lparr>nic_mac := m\<rparr>)\<rparr>)" using assms(1) unfolding nic_only_def by blast
  have "s\<lparr>io := h\<rparr> = s\<lparr>io := h, e1000 := Some n\<rparr>" using assms(1) by (cases s) simp
  moreover have "nic_same n n" by (simp add: nic_same_def)
  ultimately have k: "nic_only s (s\<lparr>io := h\<rparr>)" using assms(1) unfolding nic_only_def by blast
  have "read_e1000_hardware_address dev s = Some (if push_bit 16 v \<noteq> 0 then s\<lparr>io := h', e1000 := Some (n\<lparr>nic_mac := m\<rparr>)\<rparr> else s\<lparr>io := h\<rparr>)"
    using r h' assms(1) by (simp add: read_e1000_hardware_address_def update_nic_def split_beta Let_def del: upt_rec_numeral flip: m_def)
  then show ?thesis using m k by auto
qed

lemma start_link_state: "e1000 s = Some n \<Longrightarrow> \<exists>s'. start_link dev s = Some s' \<and> nic_only s s'"
proof -
  assume "e1000 s = Some n"
  then obtain v t where t: "read_command dev (ucast REG_CTRL) s = Some (v, t)" "nic_only s t" "e1000 t = Some n"
    using nic_only_command(2) by blast
  obtain u where u: "write_command dev REG_CTRL (v OR ECTRL_SLU) t = Some u" "nic_only t u" using nic_only_command(1) [OF t(3)] by blast
  then show ?thesis using t nic_only_trans by (auto simp: start_link_def)
qed

text \<open>Some register writes in a row.\<close>

lemma write_commands_state:
  assumes "e1000 s = Some n"
  shows "\<exists>s'. (do { s \<leftarrow> write_command dev a1 v1 s; s \<leftarrow> write_command dev a2 v2 s; s \<leftarrow> write_command dev a3 v3 s;
      s \<leftarrow> write_command dev a4 v4 s; s \<leftarrow> write_command dev a5 v5 s; f s }) = f s' \<and> nic_only s s' \<and> e1000 s' = Some n"
proof -
  obtain t1 where t1: "write_command dev a1 v1 s = Some t1" "nic_only s t1" "e1000 t1 = Some n" using nic_only_command(1) [OF assms] by blast
  obtain t2 where t2: "write_command dev a2 v2 t1 = Some t2" "nic_only t1 t2" "e1000 t2 = Some n" using nic_only_command(1) [OF t1(3)] by blast
  obtain t3 where t3: "write_command dev a3 v3 t2 = Some t3" "nic_only t2 t3" "e1000 t3 = Some n" using nic_only_command(1) [OF t2(3)] by blast
  obtain t4 where t4: "write_command dev a4 v4 t3 = Some t4" "nic_only t3 t4" "e1000 t4 = Some n" using nic_only_command(1) [OF t3(3)] by blast
  obtain t5 where t5: "write_command dev a5 v5 t4 = Some t5" "nic_only t4 t5" "e1000 t5 = Some n" using nic_only_command(1) [OF t4(3)] by blast
  show ?thesis using t1 t2 t3 t4 t5 nic_only_trans by (intro exI [of _ t5]) (simp, blast)
qed

section \<open>The buffers\<close>

lemma malloc_room:
  assumes "heap_rep bs fs s" "malloc_size_ok n" "unat (current_heap_address s) + (unat n + 31) div 16 * 16 \<le> heap_end"
  shows "\<exists>p s' bs' fs'. malloc n s = Some (p, s') \<and> p \<noteq> 0 \<and> heap_only s s' \<and> heap_rep bs' fs' s' \<and>
    unat (current_heap_address s') \<le> unat (current_heap_address s) + (unat n + 31) div 16 * 16"
proof -
  obtain p s' bs' fs' where m: "malloc n s = Some (p, s')" "p \<noteq> 0" "allocated bs fs s n p bs' fs' s'"
    using malloc_result_cases [OF assms(1,2)] assms(3) by (auto simp: not_less)
  then show ?thesis
    using malloc_heap_only [OF assms(1) m(1)] malloc_top [OF assms(1) m(1)] malloc_rounding(1) [OF assms(2)]
    by (auto simp: allocated_def simp del: overhead_eq)
qed

text \<open>What setting up the card may change.\<close>

definition setup_only :: "'s e1000_state_scheme \<Rightarrow> 's e1000_state_scheme \<Rightarrow> bool" where
  "setup_only s s' \<longleftrightarrow> (\<exists>h e m a f d. s' = s\<lparr>io := h, errno := e, ram := m, current_heap_address := a,
     free_block_list_head_next := f, e1000 := d\<rparr>)"

lemma setup_only_refl: "setup_only s s"
  unfolding setup_only_def
  by (rule exI [of _ "io s"], rule exI [of _ "errno s"], rule exI [of _ "ram s"], rule exI [of _ "current_heap_address s"],
      rule exI [of _ "free_block_list_head_next s"], rule exI [of _ "e1000 s"]) simp

lemma setup_only_trans: "setup_only s t \<Longrightarrow> setup_only t u \<Longrightarrow> setup_only s u"
proof -
  assume "setup_only s t" "setup_only t u"
  then obtain h e m a f d h' e' m' a' f' d' where
    "t = s\<lparr>io := h, errno := e, ram := m, current_heap_address := a, free_block_list_head_next := f, e1000 := d\<rparr>"
    "u = t\<lparr>io := h', errno := e', ram := m', current_heap_address := a', free_block_list_head_next := f', e1000 := d'\<rparr>"
    unfolding setup_only_def by blast
  then have "u = s\<lparr>io := h', errno := e', ram := m', current_heap_address := a', free_block_list_head_next := f', e1000 := d'\<rparr>" by simp
  then show ?thesis unfolding setup_only_def by blast
qed

lemma setup_only_nic: "nic_only s t \<Longrightarrow> setup_only s t"
proof -
  assume "nic_only s t"
  then obtain h d where "t = s\<lparr>io := h, e1000 := d\<rparr>" by (auto simp: nic_only_def)
  then have "t = s\<lparr>io := h, errno := errno s, ram := ram s, current_heap_address := current_heap_address s,
      free_block_list_head_next := free_block_list_head_next s, e1000 := d\<rparr>" by simp
  then show ?thesis unfolding setup_only_def by blast
qed

lemma setup_only_heap: "heap_only s t \<Longrightarrow> setup_only s (t\<lparr>io := h, e1000 := d\<rparr>)"
proof -
  assume "heap_only s t"
  then obtain e m a f where "t = s\<lparr>errno := e, ram := m, current_heap_address := a, free_block_list_head_next := f\<rparr>"
    unfolding heap_only_def by blast
  then have "t\<lparr>io := h, e1000 := d\<rparr> = s\<lparr>io := h, errno := e, ram := m, current_heap_address := a,
      free_block_list_head_next := f, e1000 := d\<rparr>" by simp
  then show ?thesis unfolding setup_only_def by blast
qed

lemma nic_only_heap:
  assumes "nic_only s t"
  shows "heap_rep bs fs t = heap_rep bs fs s" "current_heap_address t = current_heap_address s"
  using assms by (auto simp: nic_only_def heap_rep_def)

lemma init_rx_loop_state:
  assumes "e1000 s = Some n" "heap_rep bs fs s" "unat (current_heap_address s) + length is * 8224 \<le> heap_end"
  shows "\<exists>s' bs' fs'. init_rx_loop is s = Some s' \<and> setup_only s s' \<and> e1000 s' = Some n \<and> heap_rep bs' fs' s' \<and>
    unat (current_heap_address s') \<le> unat (current_heap_address s) + length is * 8224"
  using assms
proof (induction "is" arbitrary: s bs fs)
  case Nil
  then show ?case using setup_only_refl by auto
next
  case (Cons i "is")
  have sz: "of_nat MAX_PACKET_SIZE + sizeof_desc = (8208 :: size_t)" by (simp add: sizeof_desc_def)
  have ok: "malloc_size_ok 8208" by (simp add: malloc_size_ok_def)
  obtain p t bs' fs' where t: "malloc 8208 s = Some (p, t)" "heap_only s t" "heap_rep bs' fs' t"
    "unat (current_heap_address t) \<le> unat (current_heap_address s) + 8224"
    using malloc_room [OF Cons.prems(2) ok] Cons.prems(3) by auto
  let ?u = "bus_write 1 (rx_desc n i + 12) 0 (bus_write 8 (rx_desc n i) (ucast p) t)"
  obtain h where u: "?u = t\<lparr>io := h\<rparr>" by (simp add: bus_write_def)
  have e: "e1000 t = Some n" using heap_only_fields(1) [OF t(2)] Cons.prems(1) by simp
  have "e1000 ?u = Some n" "heap_rep bs' fs' ?u" "unat (current_heap_address ?u) + length is * 8224 \<le> heap_end"
    using e t Cons.prems(3) unfolding u by (simp_all add: heap_rep_def)
  from Cons.IH [OF this] obtain s' bs'' fs'' where s': "init_rx_loop is ?u = Some s'" "setup_only ?u s'" "e1000 s' = Some n"
    "heap_rep bs'' fs'' s'" "unat (current_heap_address s') \<le> unat (current_heap_address ?u) + length is * 8224" by blast
  have run: "init_rx_loop (i # is) s = Some s'" using Cons.prems(1) t(1) s'(1) unfolding init_rx_loop.simps sz by simp
  have "?u = t\<lparr>io := h, e1000 := Some n\<rparr>" using u e by (cases t) simp
  then have "setup_only s ?u" using setup_only_heap [OF t(2)] by simp
  then have "setup_only s s'" using s'(2) setup_only_trans by blast
  moreover have "unat (current_heap_address s') \<le> unat (current_heap_address s) + length (i # is) * 8224"
    using s'(5) t(4) unfolding u by simp
  ultimately show ?case using run s'(3,4) by blast
qed

section \<open>Starting the card\<close>

lemma init_receive_descriptors_state:
  assumes "e1000 s = Some n" "heap_rep bs fs s" "unat (current_heap_address s) + 32 * 8224 \<le> heap_end"
  shows "\<exists>s' n' bs' fs'. init_receive_descriptors dev s = Some s' \<and> setup_only s s' \<and> e1000 s' = Some n' \<and> nic_same n n' \<and>
    rx_cur n' = 0 \<and> heap_rep bs' fs' s' \<and> unat (current_heap_address s') \<le> unat (current_heap_address s) + 32 * 8224"
proof -
  have "unat (current_heap_address s) + length [0..<E1000_NUM_RX_DESC] * 8224 \<le> heap_end" using assms(3) by simp
  from init_rx_loop_state [OF assms(1,2) this] obtain t bs' fs' where t: "init_rx_loop [0..<E1000_NUM_RX_DESC] s = Some t"
    "setup_only s t" "e1000 t = Some n" "heap_rep bs' fs' t" "unat (current_heap_address t) \<le> unat (current_heap_address s) + 32 * 8224"
    by auto
  let ?ctl = "RCTL_EN OR RCTL_SBP OR RCTL_UPE OR RCTL_MPE OR RCTL_LBM_NONE OR RTCL_RDMTS_HALF OR RCTL_BAM OR RCTL_SECRC OR RCTL_BSIZE_8192"
  let ?f = "\<lambda>s. do { s \<leftarrow> update_nic (\<lambda>n. n\<lparr>rx_cur := 0\<rparr>) s; write_command dev REG_RCTRL ?ctl s }"
  obtain u where u: "init_receive_descriptors dev s = ?f u" "nic_only t u" "e1000 u = Some n"
    using write_commands_state [OF t(3), of dev REG_RXDESCLO "rx_desc n 0" REG_RXDESCHI 0 REG_RXDESCLEN
        "of_nat E1000_NUM_RX_DESC * sizeof_desc" REG_RXDESCHEAD 0 REG_RXDESCTAIL "of_nat E1000_NUM_RX_DESC - 1" ?f]
    unfolding init_receive_descriptors_def t(1) Option.bind_lunit t(3) by blast
  let ?n = "n\<lparr>rx_cur := 0\<rparr>"
  have same: "nic_same n ?n" by (simp add: nic_same_def)
  note v = nic_only_update [where f = "\<lambda>n. n\<lparr>rx_cur := 0\<rparr>", OF u(3) same]
  have "e1000 (u\<lparr>e1000 := Some ?n\<rparr>) = Some ?n" by simp
  from nic_only_command(1) [OF this, of dev REG_RCTRL ?ctl]
  obtain w where w: "write_command dev REG_RCTRL ?ctl (u\<lparr>e1000 := Some ?n\<rparr>) = Some w" "nic_only (u\<lparr>e1000 := Some ?n\<rparr>) w"
    "e1000 w = Some ?n" by blast
  have nic: "nic_only t w" using u(2) v(2) w(2) nic_only_trans by blast
  have "init_receive_descriptors dev s = Some w" unfolding u(1) v(1) Option.bind_lunit by (rule w(1))
  moreover have "setup_only s w" using t(2) setup_only_nic [OF nic] setup_only_trans by blast
  moreover have "heap_rep bs' fs' w" "current_heap_address w = current_heap_address t" using nic_only_heap [OF nic] t(4) by simp_all
  ultimately show ?thesis using w(3) same t(5) by (intro exI [of _ w] exI [of _ ?n] exI [of _ bs'] exI [of _ fs']) simp
qed

lemma init_transmit_descriptors_state:
  assumes "e1000 s = Some n"
  shows "\<exists>s' n'. init_transmit_descriptors dev s = Some s' \<and> nic_only s s' \<and> e1000 s' = Some n' \<and>
    rx_cur n' = rx_cur n \<and> tx_cur n' = 0"
proof -
  let ?f = "\<lambda>s. do { s \<leftarrow> update_nic (\<lambda>n. n\<lparr>tx_cur := 0\<rparr>) s; (ctrl, s) \<leftarrow> read_command dev (ucast REG_TCTRL) s;
          s \<leftarrow> write_command dev REG_TCTRL (ctrl OR TCTL_EN OR TCTL_PSP) s; write_command dev REG_TIPG 0x0060200A s }"
  obtain u where u: "init_transmit_descriptors dev s = ?f u" "nic_only s u" "e1000 u = Some n"
    using write_commands_state [OF assms, of dev REG_TXDESCLO "tx_desc n 0" REG_TXDESCHI 0 REG_TXDESCLEN
        "of_nat E1000_NUM_TX_DESC * sizeof_desc" REG_TXDESCHEAD 0 REG_TXDESCTAIL 0 ?f]
    unfolding init_transmit_descriptors_def assms Option.bind_lunit by blast
  let ?n = "n\<lparr>tx_cur := 0\<rparr>"
  have same: "nic_same n ?n" by (simp add: nic_same_def)
  note v = nic_only_update [where f = "\<lambda>n. n\<lparr>tx_cur := 0\<rparr>", OF u(3) same]
  have "e1000 (u\<lparr>e1000 := Some ?n\<rparr>) = Some ?n" by simp
  from nic_only_command(2) [OF this, of dev "ucast REG_TCTRL"] obtain c w where
    w: "read_command dev (ucast REG_TCTRL) (u\<lparr>e1000 := Some ?n\<rparr>) = Some (c, w)" "nic_only (u\<lparr>e1000 := Some ?n\<rparr>) w" "e1000 w = Some ?n" by blast
  obtain x where x: "write_command dev REG_TCTRL (c OR TCTL_EN OR TCTL_PSP) w = Some x" "nic_only w x" "e1000 x = Some ?n"
    using nic_only_command(1) [OF w(3)] by blast
  obtain y where y: "write_command dev REG_TIPG 0x0060200A x = Some y" "nic_only x y" "e1000 y = Some ?n"
    using nic_only_command(1) [OF x(3)] by blast
  have "init_transmit_descriptors dev s = Some y" unfolding u(1) v(1) Option.bind_lunit w(1) prod.case x(1) by (rule y(1))
  moreover have "nic_only s y" using u(2) v(2) w(2) x(2) y(2) nic_only_trans by blast
  ultimately show ?thesis using y(3) by (intro exI [of _ y] exI [of _ ?n]) simp
qed

lemma nic_onlyD:
  assumes "nic_only s t" "e1000 s = Some n"
  obtains n' where "e1000 t = Some n'" "nic_same n n'"
  using assms by (auto simp: nic_only_def)

lemma nic_same_trans: "nic_same a b \<Longrightarrow> nic_same b c \<Longrightarrow> nic_same a c"
  by (simp add: nic_same_def)

lemma start_e1000_state:
  assumes "e1000 s = Some n" "length (nic_mac n) = 6" "heap_rep bs fs s" "unat (current_heap_address s) + 32 * 8224 \<le> heap_end"
  shows "\<exists>s' n' bs' fs'. start_e1000 dev s = Some s' \<and> setup_only s s' \<and> e1000 s' = Some n' \<and> nic_same n n' \<and>
    rx_cur n' = 0 \<and> tx_cur n' = 0 \<and> heap_rep bs' fs' s' \<and>
    unat (current_heap_address s') \<le> unat (current_heap_address s) + 32 * 8224"
proof -
  obtain t1 where t1: "detect_eeprom dev s = Some t1" "nic_only s t1" using detect_eeprom_state [OF assms(1)] by blast
  obtain n1 where n1: "e1000 t1 = Some n1" "nic_same n n1" using t1(2) assms(1) by (rule nic_onlyD)
  have "length (nic_mac n1) = 6" using n1(2) assms(2) by (simp add: nic_same_def)
  then obtain t2 where t2: "read_e1000_hardware_address dev t1 = Some t2" "nic_only t1 t2"
    using read_hardware_address_state [OF n1(1)] by blast
  obtain n2 where n2: "e1000 t2 = Some n2" "nic_same n1 n2" using t2(2) n1(1) by (rule nic_onlyD)
  obtain t3 where t3: "start_link dev t2 = Some t3" "nic_only t2 t3" using start_link_state [OF n2(1)] by blast
  obtain n3 where n3: "e1000 t3 = Some n3" "nic_same n2 n3" using t3(2) n2(1) by (rule nic_onlyD)
  obtain t4 where t4: "enable_interrupt dev t3 = Some t4" "nic_only t3 t4" "e1000 t4 = Some n3"
    using nic_only_command(1) [OF n3(1)] unfolding enable_interrupt_def by blast
  have nic: "nic_only s t4" using t1(2) t2(2) t3(2) t4(2) nic_only_trans by blast
  have heap: "heap_rep bs fs t4" "unat (current_heap_address t4) + 32 * 8224 \<le> heap_end"
    using nic_only_heap [OF nic] assms(3,4) by simp_all
  obtain t5 n5 bs' fs' where t5: "init_receive_descriptors dev t4 = Some t5" "setup_only t4 t5" "e1000 t5 = Some n5" "nic_same n3 n5"
    "rx_cur n5 = 0" "heap_rep bs' fs' t5" "unat (current_heap_address t5) \<le> unat (current_heap_address t4) + 32 * 8224"
    using init_receive_descriptors_state [OF t4(3) heap] by blast
  obtain t6 n6 where t6: "init_transmit_descriptors dev t5 = Some t6" "nic_only t5 t6" "e1000 t6 = Some n6"
    "rx_cur n6 = rx_cur n5" "tx_cur n6 = 0" using init_transmit_descriptors_state [OF t5(3)] by blast
  have "nic_same n5 n6" using t6(2,3) t5(3) by (auto simp: nic_only_def)
  then have "nic_same n n6" using n1(2) n2(2) n3(2) t5(4) nic_same_trans by blast
  moreover have "start_e1000 dev s = Some t6"
    unfolding start_e1000_def t1(1) Option.bind_lunit t2(1) t3(1) t4(1) t5(1) by (rule t6(1))
  moreover have "setup_only s t6" using setup_only_nic [OF nic] t5(2) setup_only_nic [OF t6(2)] setup_only_trans by blast
  moreover have "heap_rep bs' fs' t6" "unat (current_heap_address t6) \<le> unat (current_heap_address s) + 32 * 8224"
    using nic_only_heap [OF t6(2)] nic_only_heap(2) [OF nic] t5(6,7) by simp_all
  ultimately show ?thesis using t6(3-5) t5(5) by (intro exI [of _ t6] exI [of _ n6] exI [of _ bs'] exI [of _ fs']) simp
qed

section \<open>e1000_init\<close>

lemma nic_only_io: "e1000 s = Some n \<Longrightarrow> nic_only s (s\<lparr>io := h\<rparr>)"
proof -
  assume e: "e1000 s = Some n"
  then have "s\<lparr>io := h\<rparr> = s\<lparr>io := h, e1000 := Some n\<rparr>" by (cases s) simp
  moreover have "nic_same n n" by (simp add: nic_same_def)
  ultimately show ?thesis using e unfolding nic_only_def by blast
qed

lemma pci_setup_io:
  "\<exists>a h. pci_alloc_memory dev d bar s = (a, s\<lparr>io := h\<rparr>)" "\<exists>h. pci_enable_bus_mastering dev a s = s\<lparr>io := h\<rparr>"
proof -
  have "only_io s (snd (pci_alloc_memory dev d bar s))"
    by (simp add: pci_alloc_memory_def get_bar_type_def split_beta Let_def only_io_intros)
  then show "\<exists>a h. pci_alloc_memory dev d bar s = (a, s\<lparr>io := h\<rparr>)" using only_ioD by (metis prod.collapse)
  have "only_io s (pci_enable_bus_mastering dev a s)"
    by (simp add: pci_enable_bus_mastering_def split_beta Let_def only_io_intros)
  then show "\<exists>h. pci_enable_bus_mastering dev a s = s\<lparr>io := h\<rparr>" by (rule only_ioD)
qed

text \<open>The driver's structure is the first allocation, right behind the first block header.\<close>

lemma first_allocation:
  assumes "heap_init s"
  shows "\<exists>t bs fs. malloc sizeof_e1000_device_t s = Some (0x5000010, t) \<and> heap_only s t \<and> heap_rep bs fs t \<and>
    unat (current_heap_address t) \<le> 0x5000000 + 688"
proof -
  have a: "current_heap_address s = 0x5000000" using assms by (simp add: heap_init_def const_defs)
  have ok: "malloc_size_ok sizeof_e1000_device_t" by (simp add: malloc_size_ok_def sizeof_e1000_device_t_def)
  note rep = heap_rep_init [OF assms]
  have sz: "unat (ALIGN_16 (sizeof_e1000_device_t + overhead)) = 688"
    using malloc_rounding(1) [OF ok] by (simp add: sizeof_e1000_device_t_def)
  obtain t where t: "malloc sizeof_e1000_device_t s = Some (0x5000010, t)" "allocated [] [] s sizeof_e1000_device_t 0x5000010 [0x5000000] [] t"
    using malloc_extend(2) [OF rep ok] unfolding sz a by (auto simp: heap_end_eq)
  have "heap_rep [0x5000000] [] t" using t(2) by (simp add: allocated_def)
  moreover have "unat (current_heap_address t) \<le> 0x5000000 + 688" using malloc_top [OF rep t(1)] unfolding sz a by simp
  ultimately show ?thesis using t(1) malloc_heap_only [OF rep t(1)] by blast
qed

lemma e1000_init_state:
  assumes heap: "heap_init s" and card: "pci_get_device INTEL_VEND E1000_DEV s = Some i"
  shows "\<exists>s' n bs fs. e1000_init dev s = Some s' \<and> setup_only s s' \<and> e1000 s' = Some n \<and> device_base n = 0x5000010 \<and>
    pci_device n = Some i \<and> length (nic_mac n) = 6 \<and> rx_cur n = 0 \<and> tx_cur n = 0 \<and> heap_rep bs fs s' \<and>
    unat (current_heap_address s') \<le> 0x5000000 + 688 + 32 * 8224"
proof -
  obtain t bs fs where t: "malloc sizeof_e1000_device_t s = Some (0x5000010, t)" "heap_only s t" "heap_rep bs fs t"
    "unat (current_heap_address t) \<le> 0x5000000 + 688" using first_allocation [OF heap] by blast
  have "t = s\<lparr>errno := errno t, ram := ram t, current_heap_address := current_heap_address t,
      free_block_list_head_next := free_block_list_head_next t\<rparr>" using t(2) by (simp only: heap_only_def)
  from arg_cong [OF this, of pci_devices] have "pci_devices t = pci_devices s" by simp
  then have pci: "pci_get_device INTEL_VEND E1000_DEV t = Some i" using card by (simp add: pci_get_device_def)
  define n where "n = (e1000_at (ram t) 0x5000010)\<lparr>pci_device := Some i\<rparr>"
  have n: "device_base n = 0x5000010" "pci_device n = Some i" "length (nic_mac n) = 6"
    by (simp_all add: n_def e1000_at_def)
  let ?u = "t\<lparr>e1000 := Some n\<rparr>" and ?d = "pci_devices t ! i"
  have u: "e1000 ?u = Some n" by simp
  obtain mem h1 where m: "pci_alloc_memory dev ?d 0 ?u = (mem, ?u\<lparr>io := h1\<rparr>)" using pci_setup_io(1) by blast
  let ?n1 = "n\<lparr>mem_base := mem\<rparr>"
  let ?u1 = "?u\<lparr>io := h1\<rparr>\<lparr>e1000 := Some ?n1\<rparr>"
  have u1: "update_nic (\<lambda>n. n\<lparr>mem_base := mem\<rparr>) (?u\<lparr>io := h1\<rparr>) = Some ?u1" by (simp add: update_nic_def)
  obtain iob h2 where i: "pci_alloc_memory dev ?d 1 ?u1 = (iob, ?u1\<lparr>io := h2\<rparr>)" using pci_setup_io(1) by blast
  let ?n2 = "?n1\<lparr>io_base := iob\<rparr>"
  let ?u2 = "?u1\<lparr>io := h2\<rparr>\<lparr>e1000 := Some ?n2\<rparr>"
  have u2: "update_nic (\<lambda>n. n\<lparr>io_base := iob\<rparr>) (?u1\<lparr>io := h2\<rparr>) = Some ?u2" by (simp add: update_nic_def)
  obtain h3 where b: "pci_enable_bus_mastering dev (config_base ?d) ?u2 = ?u2\<lparr>io := h3\<rparr>" using pci_setup_io(2) by blast
  let ?u3 = "?u2\<lparr>io := h3\<rparr>"
  have u3: "?u3 = t\<lparr>io := h3, e1000 := Some ?n2\<rparr>" by simp
  have "e1000 ?u3 = Some ?n2" "length (nic_mac ?n2) = 6" "heap_rep bs fs ?u3"
    "unat (current_heap_address ?u3) + 32 * 8224 \<le> heap_end"
    using n(3) t(3,4) by (simp_all add: heap_rep_def heap_end_eq)
  from start_e1000_state [OF this, of dev] obtain s' n' bs' fs' where s': "start_e1000 dev ?u3 = Some s'" "setup_only ?u3 s'"
    "e1000 s' = Some n'" "nic_same ?n2 n'" "rx_cur n' = 0" "tx_cur n' = 0" "heap_rep bs' fs' s'"
    "unat (current_heap_address s') \<le> unat (current_heap_address ?u3) + 32 * 8224" by blast
  have dev: "pci_devices ?u = pci_devices t" by simp
  have "e1000_init dev s = start_e1000 dev ?u3"
    unfolding e1000_init_def t(1) Option.bind_lunit prod.case pci n_def [symmetric] Let_def u dev n(2) option.case m u1 i u2 b
    by simp
  moreover have "setup_only s ?u3" unfolding u3 by (rule setup_only_heap [OF t(2)])
  then have "setup_only s s'" using s'(2) setup_only_trans by blast
  moreover have "unat (current_heap_address s') \<le> 0x5000000 + 688 + 32 * 8224" using s'(8) t(4) by simp
  ultimately show ?thesis using s' n
    by (intro exI [of _ s'] exI [of _ n'] exI [of _ bs'] exI [of _ fs']) (simp add: nic_same_def)
qed

section \<open>kernel_main\<close>

text \<open>The static initial state, in a privileged mode with nothing learned or received.\<close>

definition kernel_at_reset :: "routing_state \<Rightarrow> bool" where
  "kernel_at_reset s \<longleftrightarrow> sched_init s \<and> heap_init s \<and> is_privileged s \<and> arp_entries s = None \<and> queue_ok s \<and>
     length (pci_devices s) = 21 \<and> (\<forall>e \<in> set (pci_devices s). vendor_id e = 0)"

text \<open>A little-endian board with the card, whose descriptors will be at 0x5000010.\<close>

definition board_ok :: "device \<Rightarrow> bool" where
  "board_ok dev \<longleftrightarrow> has_byte_order dev False \<and> (\<exists>i. card_in_slot dev i) \<and>
     (\<forall>n. device_base n = 0x5000010 \<longrightarrow> card_reports dev n \<and> card_delivers dev n)"

text \<open>The first task joins an empty queue.\<close>

lemma first_task:
  assumes "sched_init t" "is_privileged t"
  shows "\<exists>r b. snd (add_task net t) = t\<lparr>tasks := (tasks t)[0 := init_task net TASK_STACK_BASE_ADDRESS], ring_buffer := r,
      buffer_end := b, task_count := 1\<rparr>"
    and "sched_inv (snd (add_task net t))" "active (snd (add_task net t)) = [Some 0]" "current_task (snd (add_task net t)) = None"
    and "\<not> isRunning (snd (add_task net t))" "tasks (snd (add_task net t)) ! 0 = init_task net TASK_STACK_BASE_ADDRESS"
proof -
  have i: "sched_inv t" "active t = []" "task_count t = 0" "current_task t = None" "\<not> isRunning t" "length (tasks t) = 16"
    using sched_init_inv [OF assms(1)] assms(1) by (simp_all add: sched_init_def)
  let ?t = "t\<lparr>tasks := (tasks t)[0 := init_task net TASK_STACK_BASE_ADDRESS]\<rparr>"
  obtain r b where rb: "ring_buffer_insert (Some 0) ?t = ?t\<lparr>ring_buffer := r, buffer_end := b\<rparr>"
    using ring_buffer_insert_only by blast
  have only: "snd (add_task net t) = ?t\<lparr>ring_buffer := r, buffer_end := b, task_count := 1\<rparr>"
    using assms(2) rb i(3) by (simp add: add_task_def Let_def)
  then show "\<exists>r b. snd (add_task net t) = t\<lparr>tasks := (tasks t)[0 := init_task net TASK_STACK_BASE_ADDRESS], ring_buffer := r,
      buffer_end := b, task_count := 1\<rparr>" by auto
  show "\<not> isRunning (snd (add_task net t))" "tasks (snd (add_task net t)) ! 0 = init_task net TASK_STACK_BASE_ADDRESS"
    using i by (simp_all add: only)
  have "length (run_queue t) < 15" using i(2) by (simp add: active_def)
  then show "sched_inv (snd (add_task net t))" "active (snd (add_task net t)) = [Some 0]" "current_task (snd (add_task net t)) = None"
    using add_task_result [OF i(1) assms(2), of net] i by simp_all
qed

lemma time_init_io: "\<exists>h. time_init dev s = s\<lparr>io := h\<rparr>"
proof -
  have "only_io s (time_init dev s)"
    by (simp add: time_init_def clock_start_def clock_stop_def timer_program_def timer_disable_def Let_def only_io_intros)
  then show ?thesis by (rule only_ioD)
qed

lemma kernel_main_steps:
  assumes "kernel_at_reset s" "board_ok dev"
  shows "\<exists>t n bs fs. kernel_main dev sys irq net s =
      do { s1 \<leftarrow> start_scheduler dev sys irq (time_init dev (snd (add_task net t))); Some (None, s1) } \<and>
    (\<exists>c h e m a f ds. t = s\<lparr>console := c, io := h, errno := e, ram := m, current_heap_address := a,
       free_block_list_head_next := f, pci_devices := ds, e1000 := Some n\<rparr>) \<and>
    device_base n = 0x5000010 \<and> pci_device n \<noteq> None \<and> length (nic_mac n) = 6 \<and> rx_cur n = 0 \<and> tx_cur n = 0 \<and>
    heap_rep bs fs t \<and> unat (current_heap_address t) \<le> 0x5000000 + 688 + 32 * 8224"
proof -
  note r = assms(1) [unfolded kernel_at_reset_def]
  obtain i where i: "card_in_slot dev i" using assms(2) by (auto simp: board_ok_def)
  let ?greet = "snd (puts shuriken (snd (puts ''  shuriken ready'' (snd (puts ''This is ninjastorms OS'' s)))))"
  obtain c1 where c1: "snd (puts ''This is ninjastorms OS'' s) = s\<lparr>console := c1\<rparr>" using puts_console by blast
  obtain c2 where c2: "snd (puts ''  shuriken ready'' (s\<lparr>console := c1\<rparr>)) = s\<lparr>console := c1, console := c2\<rparr>" using puts_console by blast
  obtain c0 where c0: "snd (puts shuriken (s\<lparr>console := c2\<rparr>)) = s\<lparr>console := c2, console := c0\<rparr>" using puts_console by blast
  have greet: "?greet = s\<lparr>console := c0\<rparr>" using c0 by (simp add: c1 c2)
  let ?s = "s\<lparr>console := c0\<rparr>"
  have "length (pci_devices ?s) = 21" "\<forall>e \<in> set (pci_devices ?s). vendor_id e = 0" using r by simp_all
  from pci_init_state [OF i this] obtain c h ds where p: "pci_init dev ?s = Some (s\<lparr>console := c, io := h, pci_devices := ds\<rparr>)"
    "pci_get_device INTEL_VEND E1000_DEV (s\<lparr>console := c, io := h, pci_devices := ds\<rparr>) = Some (i - 11)" by auto
  let ?p = "s\<lparr>console := c, io := h, pci_devices := ds\<rparr>"
  have "heap_init ?p" using r by (simp add: heap_init_def)
  from e1000_init_state [OF this p(2), of dev] obtain t n bs fs where t: "e1000_init dev ?p = Some t" "setup_only ?p t" "e1000 t = Some n"
    "device_base n = 0x5000010" "pci_device n = Some (i - 11)" "length (nic_mac n) = 6" "rx_cur n = 0" "tx_cur n = 0" "heap_rep bs fs t"
    "unat (current_heap_address t) \<le> 0x5000000 + 688 + 32 * 8224" by blast
  obtain h' e' m' a' f' d' where "t = ?p\<lparr>io := h', errno := e', ram := m', current_heap_address := a', free_block_list_head_next := f', e1000 := d'\<rparr>"
    using t(2) unfolding setup_only_def by blast
  moreover from this have "d' = Some n" using t(3) by simp
  ultimately have te: "t = s\<lparr>console := c, io := h', errno := e', ram := m', current_heap_address := a',
      free_block_list_head_next := f', pci_devices := ds, e1000 := Some n\<rparr>" by simp
  have "sched_init t" "is_privileged t"
    using r unfolding te by (simp_all add: sched_init_def is_privileged_def get_operating_mode_def)
  then have "\<not> isRunning (snd (add_task net t))" by (rule first_task(5))
  then have "isRunning (time_init dev (snd (add_task net t))) = False"
    using time_init_io [of dev "snd (add_task net t)"] by auto
  then have "kernel_main dev sys irq net s =
      do { s1 \<leftarrow> start_scheduler dev sys irq (time_init dev (snd (add_task net t))); Some (None, s1) }"
    using p(1) t(1) by (simp add: kernel_main_def Let_def greet split_beta)
  moreover have "pci_device n \<noteq> None" using t(5) by simp
  moreover have "\<exists>c h e m a f ds. t = s\<lparr>console := c, io := h, errno := e, ram := m, current_heap_address := a,
       free_block_list_head_next := f, pci_devices := ds, e1000 := Some n\<rparr>" using te by blast
  ultimately show ?thesis using t(4,6-10) by blast
qed

text \<open>The state in which the network task starts, and the card that the driver found.\<close>

definition booted :: "e1000_device_t \<Rightarrow> addr list \<Rightarrow> addr list \<Rightarrow> routing_state \<Rightarrow> bool" where
  "booted n bs fs s \<longleftrightarrow> running s \<and> queue_ok s \<and> arp_entries s = None \<and> e1000 s = Some n \<and>
     device_base n = 0x5000010 \<and> pci_device n \<noteq> None \<and> length (nic_mac n) = 6 \<and> rx_cur n = 0 \<and> tx_cur n = 0 \<and>
     heap_rep bs fs s \<and> unat (current_heap_address s) \<le> 0x5000000 + 688 + 32 * 8224"

lemma kernel_main_boots:
  assumes "kernel_at_reset s" "board_ok dev"
  shows "\<exists>s1 n bs fs. kernel_main dev sys irq net s = Some (None, s1) \<and> booted n bs fs s1 \<and>
    cpu s1 = init_task net TASK_STACK_BASE_ADDRESS \<and> active s1 = [Some 0] \<and>
    load32 (ram s1) 0x24 = sys \<and> load32 (ram s1) 0x34 = irq \<and> wire s1 = wire s \<and> waiting s1 = waiting s"
proof -
  note r = assms(1) [unfolded kernel_at_reset_def]
  obtain t n bs fs where t: "kernel_main dev sys irq net s =
      do { s1 \<leftarrow> start_scheduler dev sys irq (time_init dev (snd (add_task net t))); Some (None, s1) }"
    and te: "\<exists>c h e m a f ds. t = s\<lparr>console := c, io := h, errno := e, ram := m, current_heap_address := a,
       free_block_list_head_next := f, pci_devices := ds, e1000 := Some n\<rparr>"
    and n: "device_base n = 0x5000010" "pci_device n \<noteq> None" "length (nic_mac n) = 6" "rx_cur n = 0" "tx_cur n = 0"
    and heap: "heap_rep bs fs t" "unat (current_heap_address t) \<le> 0x5000000 + 688 + 32 * 8224"
    using kernel_main_steps [OF assms, of sys irq net] by blast
  have tf: "sched_init t" "is_privileged t" "queue_ok t" "arp_entries t = None" "wire t = wire s" "e1000 t = Some n"
      "waiting t = waiting s"
    using te r by (auto simp: waiting_def sched_init_def is_privileged_def get_operating_mode_def queue_ok_def)
  let ?v = "snd (add_task net t)"
  note task = first_task [OF tf(1,2), of net]
  obtain h where h: "time_init dev ?v = ?v\<lparr>io := h\<rparr>" using time_init_io by blast
  let ?w = "?v\<lparr>io := h\<rparr>"
  have w: "sched_inv ?w" "\<not> isRunning ?w" "current_task ?w = None" "length (active ?w) \<le> 15" "active ?w = Some 0 # []"
      "tasks ?w ! 0 = init_task net TASK_STACK_BASE_ADDRESS"
    using task(2-6) by (simp_all add: sched_inv_def sched_ok_def active_def run_queue_def)
  obtain m k where st: "start_scheduler dev sys irq ?w = Some (snd (ring_buffer_remove ?w)
        \<lparr>current_task := Some 0, isRunning := True, ram := m, sp_irq := IRQ_STACK_ADDRESS, io := k, cpu := tasks ?w ! 0\<rparr>)"
    "running (the (start_scheduler dev sys irq ?w))" "active (the (start_scheduler dev sys irq ?w)) = active ?w"
    "load32 m 0x24 = sys" "load32 m 0x34 = irq" "\<forall>x. 0x3c \<le> unat x \<longrightarrow> m x = ram ?w x"
    using start_scheduler_state(2) [OF w(1-5), of dev sys irq] by blast
  obtain a where a: "snd (ring_buffer_remove ?w) = ?w\<lparr>buffer_start := a\<rparr>" using ring_buffer_remove_only by blast
  let ?s1 = "?w\<lparr>buffer_start := a, current_task := Some 0, isRunning := True, ram := m, sp_irq := IRQ_STACK_ADDRESS, io := k,
      cpu := init_task net TASK_STACK_BASE_ADDRESS\<rparr>"
  obtain rb b where v: "?v = t\<lparr>tasks := (tasks t)[0 := init_task net TASK_STACK_BASE_ADDRESS], ring_buffer := rb,
      buffer_end := b, task_count := 1\<rparr>" using task(1) by blast
  have s1: "start_scheduler dev sys irq ?w = Some ?s1" "running ?s1" "active ?s1 = [Some 0]"
    using st(1,2,3) w(5,6) unfolding a by simp_all
  have "m x = ram t x" if "\<not> user_byte bs fs (ram t) x" for x
    using that user_byte_object [OF heap(1), of x] st(6) by (auto simp: v heap_arena_def const_defs)
  from heap_rep_user_write(1) [OF heap(1) this] have "heap_rep bs fs ?s1" unfolding v by (simp add: heap_rep_def)
  then have "booted n bs fs ?s1"
    unfolding booted_def using s1(2) tf(3,4,6) n heap(2) by (simp add: v queue_ok_def)
  moreover have "kernel_main dev sys irq net s = Some (None, ?s1)" using t h s1(1) by simp
  moreover have "wire ?s1 = wire s" "waiting ?s1 = waiting s" using tf(5,7) by (simp_all add: v waiting_def)
  ultimately show ?thesis using s1(3) st(4,5) by (intro exI [of _ ?s1] exI) simp
qed

text \<open>The network task initialises the table: from then on the state is well formed.\<close>

lemma routing_init_kernel_ok:
  assumes "booted n bs fs s" "board_ok dev"
  shows "\<exists>s' objs. routing_init s = Some s' \<and> kernel_ok dev n objs s' \<and> wire s' = wire s \<and> waiting s' = waiting s"
proof -
  note r = assms(1) [unfolded booted_def]
  have ok: "malloc_size_ok (of_nat MAX_ARP_TABLE_ENTRIES * 24)" by (simp add: malloc_size_ok_def)
  have "unat (of_nat MAX_ARP_TABLE_ENTRIES * 24 :: size_t) = 240" by simp
  with ok obtain p u bs' fs' where u: "malloc (of_nat MAX_ARP_TABLE_ENTRIES * 24) s = Some (p, u)" "p \<noteq> 0" "heap_only s u"
    "heap_rep bs' fs' u" "unat (current_heap_address u) \<le> 0x5000000 + 688 + 32 * 8224 + 256"
    using malloc_room [of bs fs s "of_nat MAX_ARP_TABLE_ENTRIES * 24"] r by (auto simp: heap_end_eq)
  obtain e' m' a' f' where ue: "u = s\<lparr>errno := e', ram := m', current_heap_address := a', free_block_list_head_next := f'\<rparr>"
    using u(3) unfolding heap_only_def by blast
  let ?s = "u\<lparr>arp_entries := Some (replicate MAX_ARP_TABLE_ENTRIES ARP_NULL_ENTRY)\<rparr>"
  have route: "routing_init s = Some ?s" using u(1,2) r by (simp add: routing_init_def)
  have "card_reports dev n" "has_byte_order dev False" using assms(2) r by (auto simp: board_ok_def)
  then have "net_ready dev ?s n" using r by (simp add: net_ready_def ue)
  moreover have "n = n\<lparr>rx_cur := 0, tx_cur := 0\<rparr>" using r by (cases n) simp
  ultimately have "\<exists>k j. net_ready dev ?s (n\<lparr>rx_cur := k, tx_cur := j\<rparr>) \<and> unat k < 32" by (intro exI [of _ 0]) simp
  moreover have "sched_inv s" "current_task s \<noteq> None" using r by (simp_all add: running_def)
  then have "sched_inv ?s" "current_task ?s \<noteq> None" by (simp_all add: ue sched_inv_def sched_ok_def active_def run_queue_def)
  moreover have "queue_ok ?s" using r by (simp add: ue queue_ok_def)
  moreover have "arp_ready ?s" by (simp add: arp_ready_def)
  moreover have "heap_rep bs' fs' ?s" "heap_room fs' 60 ?s"
    using u(4,5) by (simp_all add: heap_rep_def heap_room_def heap_end_eq)
  then have "heap_holds (heap_object (bs', fs') ?s) ?s" unfolding heap_holds_def by blast
  ultimately have "kernel_ok dev n (heap_object (bs', fs') ?s) ?s" unfolding kernel_ok_def by blast
  moreover have "wire ?s = wire s" "waiting ?s = waiting s" by (simp_all add: ue waiting_def)
  ultimately show ?thesis using route by blast
qed

section \<open>Properties\<close>

text \<open>
  Property C3: from reset the kernel comes up and answers for ever. On a little-endian board with the network
  card, \<^verbatim>\<open>kernel_main\<close> does not return: the vector table holds the two handlers and the processor is in the
  network task, in user mode with its own stack. The task allocates its table, and from then on any
  sequence of its accesses to the receive queue, interrupts, steps of tasks and system calls is executed without
  fault. The packets that arrived are those that were handled, the one in hand and those that wait, in this order, and
  the frames that were sent are exactly the answers to the handled ones.
\<close>

theorem kernel_boots:
  assumes "kernel_at_reset s" "board_ok dev" "stack_slot frame_addr 28" "\<forall>e \<in> set es. preempt_ok e"
  shows "\<exists>s1 s2 loc s3 n handled. kernel_main dev sys irq net s = Some (None, s1) \<and>
    load32 (ram s1) 0x24 = sys \<and> load32 (ram s1) 0x34 = irq \<and> e1000 s1 = Some n \<and>
    active s1 = [Some 0] \<and> pc (cpu s1) = net \<and> sp (cpu s1) = TASK_STACK_BASE_ADDRESS \<and> cpsr (cpu s1) = CPSR_MODE_USER \<and>
    routing_init s1 = Some s2 \<and> preempt_run dev frame_addr es (Test, s2) = Some (loc, s3) \<and>
    waiting s @ arrivals dev frame_addr es (Test, s2) = handled @ hand loc s3 @ waiting s3 \<and>
    wire s3 = wire s @ List.map_filter (slot_answer (nic_mac n)) handled"
proof -
  obtain s1 n bs fs where s1: "kernel_main dev sys irq net s = Some (None, s1)" "booted n bs fs s1"
    "cpu s1 = init_task net TASK_STACK_BASE_ADDRESS" "active s1 = [Some 0]"
    "load32 (ram s1) 0x24 = sys" "load32 (ram s1) 0x34 = irq" "wire s1 = wire s" "waiting s1 = waiting s"
    using kernel_main_boots [OF assms(1,2), of sys irq net] by blast
  have card: "card_delivers dev n" "e1000 s1 = Some n" using assms(2) s1(2) by (auto simp: board_ok_def booted_def)
  obtain s2 objs where s2: "routing_init s1 = Some s2" "kernel_ok dev n objs s2" "wire s2 = wire s" "waiting s2 = waiting s"
    using routing_init_kernel_ok [OF s1(2) assms(2)] s1(7,8) by auto
  have loc: "loc_ok Test s2" by simp
  obtain loc' s3 handled where "preempt_run dev frame_addr es (Test, s2) = Some (loc', s3)"
    "waiting s2 @ arrivals dev frame_addr es (Test, s2) = handled @ hand loc' s3 @ waiting s3"
    "wire s3 = wire s2 @ List.map_filter (slot_answer (nic_mac n)) handled"
    using preempt_run_keeps [OF s2(2) loc card(1) assms(3,4)] by (auto simp: served_def)
  moreover have "pc (cpu s1) = net" "sp (cpu s1) = TASK_STACK_BASE_ADDRESS" "cpsr (cpu s1) = CPSR_MODE_USER"
    using s1(3) by (simp_all add: init_task_def)
  ultimately show ?thesis using s1(1,4-6) s2 card(2) by metis
qed

text \<open>A board with a card that never receives anything, and the initial state.\<close>

definition silent_card :: device where
  "silent_card h w a =
     (if w = 1 then (if 0x5000210 \<le> a then 1 else 0) else if w = 2 then one_card h 2 a else 0)"

definition reset0 :: routing_state where "reset0 = arp0\<lparr>arp_entries := None, e1000 := None\<rparr>"

lemma silent_card_board: "board_ok silent_card"
proof -
  have "has_byte_order silent_card False" by (simp add: has_byte_order_def silent_card_def)
  moreover have "card_in_slot silent_card 12"
  proof -
    have "config_space silent_card (\<lambda>i. if i = 12 then 0x8086 else 0xFFFF) (\<lambda>i. if i = 12 then 0x100E else 0xFFFF)"
      using one_card_config by (simp add: config_space_def silent_card_def)
    then show ?thesis unfolding card_in_slot_def INTEL_VEND_def E1000_DEV_def
      by (intro exI [of _ "\<lambda>i. if i = 12 then 0x8086 else 0xFFFF"] exI [of _ "\<lambda>i. if i = 12 then 0x100E else 0xFFFF"]) auto
  qed
  moreover have "card_reports silent_card n" if n: "device_base n = 0x5000010" for n
  proof -
    have "0x5000210 \<le> tx_desc n i + 12" if "i < 8" for i
    proof -
      have "tx_desc n i + 12 = 0x500021C + of_nat (16 * i)" by (simp add: tx_desc_def n)
      moreover have "unat (0x500021C + of_nat (16 * i) :: addr) = 0x500021C + 16 * i"
        using unat_add_small [of "0x500021C" "16 * i"] that by simp
      ultimately show ?thesis by (simp add: word_le_nat_alt)
    qed
    then show ?thesis by (auto simp: card_reports_def silent_card_def Let_def intro: exI [of _ 0])
  qed
  moreover have "card_delivers silent_card n" if n: "device_base n = 0x5000010" for n
    unfolding card_delivers_def
  proof (intro allI impI)
    fix s :: routing_state and k j
    assume s: "e1000 s = Some (n\<lparr>rx_cur := k, tx_cur := j\<rparr>)" "unat k < 32"
    have "rx_desc (n\<lparr>rx_cur := k, tx_cur := j\<rparr>) (unat k) + 12 = 0x500001C + of_nat (16 * unat k)"
      by (simp add: rx_desc_def n)
    moreover have "unat (0x500001C + of_nat (16 * unat k) :: addr) = 0x500001C + 16 * unat k"
      using unat_add_small [of "0x500001C" "16 * unat k"] s(2) by simp
    ultimately have "\<not> 0x5000210 \<le> rx_desc (n\<lparr>rx_cur := k, tx_cur := j\<rparr>) (unat k) + 12"
      using s(2) by (simp add: word_le_nat_alt)
    then have "\<exists>s'. rx_status silent_card s = Some (False, s')"
      by (simp add: rx_status_def s(1) bus_read_def Let_def silent_card_def)
    then show "\<exists>frames. pending silent_card s frames \<and> list_all (\<lambda>f. length f \<le> 8192) frames"
      using pending.none by (intro exI [of _ "[]"]) auto
  qed
  ultimately show ?thesis unfolding board_ok_def by blast
qed

lemma reset0_ok: "kernel_at_reset reset0" "wire reset0 = []"
proof -
  have "queue_ok reset0" using net0_fields(2) by (simp add: reset0_def net0_def queue_ok_def)
  then show "kernel_at_reset reset0" "wire reset0 = []"
    by (simp_all add: kernel_at_reset_def sched_init_def heap_init_def is_privileged_def get_operating_mode_def CPSR_MODE_SVC_def
        reset0_def arp0_def e1000_state.defs card0_def queue_state.defs queue0_def pci_state.defs pci0_def sched_state.defs sched0_def)
qed

theorem kernel_boots_witness:
  "\<exists>s1 s2 loc s3. kernel_main silent_card 0x8000 0x9000 0xA000 reset0 = Some (None, s1) \<and> pc (cpu s1) = 0xA000 \<and>
    routing_init s1 = Some s2 \<and>
    preempt_run silent_card 0x1000 [Other Interrupt, Access, Other Interrupt, Access, Access] (Test, s2) = Some (loc, s3)"
proof -
  have "\<forall>e \<in> set [Other Interrupt, Access, Other Interrupt, Access, Access]. preempt_ok e" by simp
  from kernel_boots [OF reset0_ok(1) silent_card_board stack_slot0 this, of "0x8000" "0x9000" "0xA000"] show ?thesis by blast
qed

end
