(* ===== verification/Preemption.thy ===== *)
theory Preemption
  imports Kernel_Run Recv_Interleave
begin

text \<open>
  What an interrupt does to the task it interrupts. The entry of \<^verbatim>\<open>interrupt_handler.S\<close>, the dispatch and all
  three handlers are followed through, in any state in which the scheduler runs and the driver is set up. Nothing
  is assumed about the heap or the ARP table, which may be half way through an operation of the task.
\<close>

section \<open>What the handlers leave alone\<close>

definition quiet :: "routing_state \<Rightarrow> routing_state \<Rightarrow> bool" where
  "quiet s s' \<longleftrightarrow> ram s' = ram s \<and> current_heap_address s' = current_heap_address s \<and>
     free_block_list_head_next s' = free_block_list_head_next s \<and> errno s' = errno s \<and> arp_entries s' = arp_entries s \<and>
     wire s' = wire s \<and> tasks s' = tasks s \<and> task_count s' = task_count s \<and> slot_kept s s'"

lemma quiet_trans: "quiet s t \<Longrightarrow> quiet t u \<Longrightarrow> quiet s u"
  using slot.R_trans by (fastforce simp: quiet_def)

lemma quiet_io: "quiet s (s\<lparr>io := h\<rparr>)"
  by (simp add: quiet_def slot.R_io)

lemma quiet_recv: "recv_only s s' \<Longrightarrow> slot_kept s s' \<Longrightarrow> quiet s s'"
  by (auto simp: quiet_def recv_only_def)

lemma quiet_refl: "quiet s s"
  using quiet_io [of s "io s"] by simp

text \<open>The queue of packets and the driver, as the two timers leave them.\<close>

lemma timers_quiet:
  "quiet s (irq_handler_timer s)" "quiet s (irq_handler_clock s)"
  "packets (irq_handler_timer s) = packets s" "packets (irq_handler_clock s) = packets s"
  "queue_ok (irq_handler_timer s) = queue_ok s" "queue_ok (irq_handler_clock s) = queue_ok s"
  "e1000 (irq_handler_timer s) = e1000 s" "e1000 (irq_handler_clock s) = e1000 s"
  using schedule_only [of s]
  by (auto simp: irq_handler_timer_def irq_handler_clock_def write32_def write8_def bus_write_def Let_def
      quiet_def slot_kept_def queue_ok_def packets_def)

lemma recv_only_running:
  assumes "recv_only s s'"
  shows "running s' = running s" "active s' = active s"
  using assms by (auto simp: recv_only_def running_def kernel_parts)

lemma handle_interrupt_quiet:
  fixes s :: routing_state
  assumes "running s" "queue_ok s" "e1000 s = Some (n\<lparr>rx_cur := k, tx_cur := j\<rparr>)" "unat k < 32" "pci_device n \<noteq> None"
    and "card_delivers dev n"
  shows "\<exists>s' new k'. handle_interrupt dev s = Some s' \<and> quiet s s' \<and> running s' \<and>
    active s' \<in> {active s, rotate1 (active s)} \<and> e1000 s' = Some (n\<lparr>rx_cur := k', tx_cur := j\<rparr>) \<and> unat k' < 32 \<and>
    queue_ok s' \<and> packets s' = take 127 (packets s @ new)"
proof -
  obtain status h where r: "read32 dev PIC_IRQ_STATUS s = (status, s\<lparr>io := h\<rparr>)"
    using read32_io [of dev PIC_IRQ_STATUS s] by (metis prod.collapse)
  let ?s = "s\<lparr>io := h\<rparr>"
  have "\<exists>frames. pending dev (?s\<lparr>io := h'\<rparr>) frames \<and> list_all (\<lambda>f. length f \<le> 8192) frames" for h'
    using assms by (simp add: card_delivers_def frame_simps)
  from e1000_irq_handler_returns [of ?s "n\<lparr>rx_cur := k, tx_cur := j\<rparr>", OF _ _ _ _ this] assms
  obtain u k' new where u: "e1000_irq_handler dev ?s = Some u" "recv_only ?s u" "queue_ok u" "slot_kept ?s u"
    "e1000 u = Some (n\<lparr>rx_cur := k', tx_cur := j\<rparr>)" "unat k' < 32" "packets u = take 127 (packets s @ new)"
    by (auto simp: frame_simps)
  have "packets s = take 127 (packets s @ [])" using packet_ring.queue_bounded [OF assms(2)] by simp
  then obtain v k' new where v: "(if status AND PCI3_INTBIT \<noteq> 0 then e1000_irq_handler dev ?s else Some ?s) = Some v"
    "quiet s v" "running v" "active v = active s" "queue_ok v" "e1000 v = Some (n\<lparr>rx_cur := k', tx_cur := j\<rparr>)"
    "unat k' < 32" "packets v = take 127 (packets s @ new)"
  proof (cases "status AND PCI3_INTBIT \<noteq> 0")
    case True
    have "quiet s u" using quiet_recv [OF u(2,4)] quiet_io quiet_trans by blast
    with True u assms(1) recv_only_running [OF u(2)] that show thesis by (simp add: frame_simps)
  next
    case False
    then show thesis using that [of ?s k "[]"] assms quiet_io packet_ring.queue_bounded [OF assms(2)] by (simp add: frame_simps)
  qed
  let ?t = "if status AND TIMER1_INTBIT \<noteq> 0 then irq_handler_timer v else v"
  let ?c = "if status AND TIMER3_INTBIT \<noteq> 0 then irq_handler_clock ?t else ?t"
  have "handle_interrupt dev s = Some ?c"
    unfolding handle_interrupt_def r Let_def prod.case v(1) Option.bind_lunit ..
  moreover have t: "running ?t" "active ?t \<in> {active s, rotate1 (active s)}" "quiet v ?t" "packets ?t = packets v"
    "queue_ok ?t" "e1000 ?t = e1000 v"
    using irq_handler_timer_running [OF v(3)] v(3-5) timers_quiet [of v] quiet_refl by auto
  moreover have "running ?c" "active ?c = active ?t" "quiet ?t ?c" "packets ?c = packets ?t" "queue_ok ?c" "e1000 ?c = e1000 ?t"
    using irq_handler_clock_running [OF t(1)] t(1,5) timers_quiet [of ?t] quiet_refl by auto
  moreover from this(3) have "quiet s ?c" using v(2) t(3) quiet_trans by blast
  ultimately show ?thesis using v by (intro exI [of _ ?c] exI [of _ new] exI [of _ k']) simp
qed

text \<open>
  Property C6: an interrupt is invisible to the task it interrupts, wherever in the task's code it comes. It returns,
  and leaves every task's registers, the memory, the heap, the ARP table, the frames sent and the transmit index
  as they were. The list of the tasks is as before or rotated by one. Packets are only added behind those that wait, and the
  slot of the packet the network task works on is not touched.
\<close>

theorem interrupt_transparent:
  fixes s :: routing_state
  assumes "running s" "queue_ok s" "e1000 s = Some (n\<lparr>rx_cur := k, tx_cur := j\<rparr>)" "unat k < 32" "pci_device n \<noteq> None"
    and "card_delivers dev n"
  shows "\<exists>s' new k'. kernel_irq dev s = Some s' \<and> running s' \<and>
    (\<forall>i < 16. contexts s' i = contexts s i) \<and> active s' \<in> {active s, rotate1 (active s)} \<and> task_count s' = task_count s \<and>
    ram s' = ram s \<and> current_heap_address s' = current_heap_address s \<and>
    free_block_list_head_next s' = free_block_list_head_next s \<and> errno s' = errno s \<and>
    arp_entries s' = arp_entries s \<and> wire s' = wire s \<and> e1000 s' = Some (n\<lparr>rx_cur := k', tx_cur := j\<rparr>) \<and> unat k' < 32 \<and>
    queue_ok s' \<and> recv_queue_start s' = recv_queue_start s \<and> packets s' = take 127 (packets s @ new) \<and>
    (\<forall>i < 128. recv_queue_start s = (i + 1) mod 128 \<longrightarrow> recv_packet_queue s' ! i = recv_packet_queue s ! i)"
proof -
  obtain i where i: "i < 16" "current_task s = Some i" using running_current [OF assms(1)] by blast
  have len: "length (tasks s) = 16" using assms(1) by (simp add: running_def sched_inv_def sched_ok_def)
  let ?t = "s\<lparr>tasks := (tasks s)[i := cpu s]\<rparr>"
  have save: "save_current_task_state (pc (cpu s) + 4) (cpsr (cpu s)) s = Some ?t"
    by (cases "cpu s") (simp add: save_current_task_state_def i)
  have t: "running ?t" "queue_ok ?t" "packets ?t = packets s" "active ?t = active s"
    using assms(1,2) by (simp_all add: frame_simps queue_ok_def packets_def)
  obtain u new k' where u: "handle_interrupt dev ?t = Some u" "quiet ?t u" "running u" "active u \<in> {active s, rotate1 (active s)}"
    "e1000 u = Some (n\<lparr>rx_cur := k', tx_cur := j\<rparr>)" "unat k' < 32" "queue_ok u" "packets u = take 127 (packets s @ new)"
    using handle_interrupt_quiet [OF t(1,2) _ assms(4-6), of j] assms(3) t(3,4) by auto
  obtain l where l: "l < 16" "current_task u = Some l" using running_current [OF u(3)] by blast
  let ?s = "u\<lparr>cpu := tasks u ! l\<rparr>"
  have "kernel_irq dev s = Some ?s" by (simp add: kernel_irq_def save u(1) load_current_task_state_def l)
  moreover have "contexts ?s x = contexts s x" if "x < 16" for x
    using that i l len u(2) by (auto simp: contexts_def quiet_def nth_list_update)
  moreover have "running ?s" "active ?s = active u" "queue_ok ?s" "packets ?s = packets u"
    using u(3,7) by (simp_all add: frame_simps queue_ok_def packets_def)
  moreover have "slot_kept s u" using u(2) t(2) by (simp add: quiet_def slot_kept_def queue_ok_def)
  ultimately show ?thesis using u assms(2)
    by (intro exI [of _ ?s] exI [of _ new] exI [of _ k']) (simp add: quiet_def slot_kept_def)
qed

section \<open>Witness\<close>

text \<open>An interrupt of the task while the heap is not well formed: the free list points to an address outside the heap.\<close>

lemma net1_running: "running (net1\<lparr>free_block_list_head_next := 4\<rparr>)"
proof -
  have ok: "sched_inv net1" "current_task net1 \<noteq> None" using net1_ok by (simp_all add: kernel_ok_def)
  have "task_count net1 = 1" by (simp add: net1_def)
  then have "card (set (active net1)) \<le> 1"
    using ok(1) card_mono [of "Some ` {..<1 :: nat}" "set (active net1)"] by (simp add: sched_inv_def card_image)
  then have "length (active net1) \<le> 15" using ok(1) by (simp add: sched_inv_def distinct_card)
  then show ?thesis using ok by (simp add: running_def kernel_parts)
qed

theorem interrupt_transparent_witness:
  "\<exists>s'. kernel_irq arp_card (net1\<lparr>free_block_list_head_next := 4\<rparr>) = Some s' \<and> contexts s' 0 = contexts net1 0 \<and>
     free_block_list_head_next s' = 4 \<and> wire s' = []"
proof -
  let ?s = "net1\<lparr>free_block_list_head_next := 4\<rparr>"
  have s: "queue_ok ?s" "e1000 ?s = Some (nic0\<lparr>rx_cur := 0, tx_cur := 0\<rparr>)" "wire ?s = []"
    using net0_fields by (simp_all add: net1_def queue_ok_def nic0_def)
  have "contexts ?s 0 = contexts net1 0" by (simp add: contexts_def)
  moreover have "unat (0 :: u16) < 32" "pci_device nic0 \<noteq> None" by (simp_all add: nic0_def)
  note interrupt_transparent [OF net1_running s(1,2) this arp_card_delivers]
  ultimately show ?thesis using s(3) by auto
qed

end
