(* ===== verification/Spec2Isabelle.thy ===== *)
theory Spec2Isabelle
  imports Boot Board_Ev3 Kernel_Boot Preemption
begin

section \<open>The ninjastorms kernel\<close>

text \<open>
  ninjastorms is a small kernel in C and ARM assembly for two boards, the VersatilePB and the Lego EV3. It
  boots, enumerates the PCI bus, drives an Intel e1000 network card, runs up to sixteen user-mode tasks under a
  timer-driven round-robin scheduler, and answers ARP requests; on the EV3 it also drives the LEDs, buttons,
  sensors and motors. This development models that code as executable functions on one state record and proves
  what the parts promise and how they work together.
\<close>

subsection \<open>How the parts interact\<close>

text \<open>
  \<^verbatim>\<open>_Start\<close> (\<^verbatim>\<open>kernel/boot/start.S\<close>) sets the stack, clears the bss section, runs the constructors and calls
  \<^verbatim>\<open>kernel_main\<close> (\<^verbatim>\<open>kernel/main.c\<close>), which enumerates the bus, sets up the card with memory from the heap, adds
  the network task, starts the clock and calls \<^verbatim>\<open>start_scheduler\<close>. From then on three things happen, in any order: the current
  task executes; an interrupt saves its context, is dispatched by \<^verbatim>\<open>handle_interrupt\<close> to the card, the scheduler's
  timer or the clock, and the context of the then current task is restored; a task makes a system call. A receive
  interrupt copies the frames of the card into the queue of \<^verbatim>\<open>network_task.c\<close>. The network task takes them out and hands
  them to \<^verbatim>\<open>start_pdu_encapsulation\<close>, \<^verbatim>\<open>arp_receive\<close> and the table of \<^verbatim>\<open>routing.c\<close>; an answer is built in a heap block by
  \<^verbatim>\<open>ethernet_send\<close> and put on the transmit ring of the card. Formatted output goes through \<^verbatim>\<open>vprintf\<close>.
\<close>

subsection \<open>The state and the devices\<close>

text \<open>
  The state is a chain of records, each theory extending the one below by its component's variables, so that the
  operations of a component apply to every larger state:
  \<^verbatim>\<open>io_state\<close> (the history of bus accesses, the console, \<^verbatim>\<open>errno\<close>), \<^verbatim>\<open>heap_state\<close> (memory, program break, free list),
  \<^verbatim>\<open>time_state\<close> (the clock), \<^verbatim>\<open>sched_state\<close> (processor, tasks, ring buffer), \<^verbatim>\<open>pci_state\<close> (the table of devices),
  \<^verbatim>\<open>queue_state\<close> (the receive queue), \<^verbatim>\<open>e1000_state\<close> (the driver and the frames sent) and \<^verbatim>\<open>routing_state\<close> (the ARP table).
  Machine integers are words of the width the C type has, \<^verbatim>\<open>char\<close> is unsigned as on the target, and arithmetic wraps.

  Hardware is not under \<^verbatim>\<open>src\<close>. A device is a parameter, a function from the history of bus accesses, the width
  and the address to the value read; the history is part of the state and every read and write adds to it. What
  the code relies on is a hypothesis about that function: the register file of a
  timer or of the pins keeps what is written, the interrupt controller reports the line of the card, the descriptors
  the card hands over are finitely many and hold frames no longer than a buffer, a transmit descriptor is marked
  as done. The witnesses instantiate the parameter with concrete functions. The addresses the linker assigns are
  parameters too.

  A null pointer dereferenced, an access outside an array, undefined behaviour of a variable argument and a loop
  that does not end are the value \<^verbatim>\<open>None\<close>. The loops that wait for hardware or for time are partial functions over
  option, so that returning is always part of a theorem and never assumed.
\<close>

subsection \<open>Theories\<close>

text \<open>
  \<^item> \<^verbatim>\<open>Prelude\<close>: types, theorem collections and lemmas on words shared by all.
  \<^item> \<^verbatim>\<open>Memory\<close>: bytes, little-endian loads and stores, and \<^verbatim>\<open>memcpy\<close>, \<^verbatim>\<open>memset\<close>, \<^verbatim>\<open>memcmp\<close> of \<^verbatim>\<open>libc/string\<close> as the loops they are.
  \<^item> \<^verbatim>\<open>Machine\<close>: the bus, \<^verbatim>\<open>kernel/mmio.c\<close> and \<^verbatim>\<open>kernel/pci/pci_mmio.c\<close>. The writes of each width equal byte-exact stores at
  any alignment, and only aligned words reach the bus.
  \<^item> \<^verbatim>\<open>Polling\<close>: the locale \<^verbatim>\<open>polling_loop\<close> for loops that wait for a register, interpreted for the serial bus, the serial
  port and the transmit descriptor.
  \<^item> \<^verbatim>\<open>Heap\<close>: \<^verbatim>\<open>sbrk\<close> and \<^verbatim>\<open>malloc\<close>. The representation invariant tiles the heap with blocks; \<^verbatim>\<open>malloc\<close> and \<^verbatim>\<open>free\<close> are the operations
  of the locale \<^verbatim>\<open>allocator\<close>, from which the safety of arbitrary clients follows. All outcomes of \<^verbatim>\<open>malloc\<close>, stability of
  the contents, and the two ways a huge request goes wrong.
  \<^item> \<^verbatim>\<open>Ring\<close>: index arithmetic of ring buffers and the locale \<^verbatim>\<open>bounded_fifo\<close>, interpreted for the run queue of the scheduler
  and for the receive queue.
  \<^item> \<^verbatim>\<open>Clock\<close>: the clock and timer of the VersatilePB; its conversions and printed form.
  \<^item> \<^verbatim>\<open>Scheduler\<close>: \<^verbatim>\<open>kernel/scheduler.c\<close>, \<^verbatim>\<open>kernel/utilities.c\<close>, the set-up of interrupts and the context switch of
  \<^verbatim>\<open>interrupt_handler.S\<close>. The scheduler's invariant, round robin, and the refinement of the context switch to independent
  virtual processors.
  \<^item> \<^verbatim>\<open>Stdio\<close>: \<^verbatim>\<open>printf\<close> and all conversions of \<^verbatim>\<open>vprintf\<close>, against a specification of the rendered text.
  \<^item> \<^verbatim>\<open>Logger\<close>, \<^verbatim>\<open>Syscall\<close>: \<^verbatim>\<open>general_log\<close>; the stubs of \<^verbatim>\<open>kernel/syscall.c\<close> and the dispatcher.
  \<^item> \<^verbatim>\<open>Network_Io\<close>, \<^verbatim>\<open>Pci\<close>: byte order (the locale \<^verbatim>\<open>byte_order\<close>) and hardware addresses; enumeration and configuration of the bus.
  \<^item> \<^verbatim>\<open>Network_Task\<close>, \<^verbatim>\<open>Recv_Interleave\<close>: the receive queue as a bounded queue with atomic operations, and the proof that the
  code implements it although the interrupt handler runs between any two memory accesses of the task.
  \<^item> \<^verbatim>\<open>E1000\<close>: set-up, sending, the receive loop and the interrupt handler of the card. The locale
  \<^verbatim>\<open>receive_frame\<close> carries what the parts of the loop keep to the whole of it.
  \<^item> \<^verbatim>\<open>Ethernet\<close>, \<^verbatim>\<open>Arp\<close>, \<^verbatim>\<open>Routing\<close>, \<^verbatim>\<open>Ipv4\<close>: the protocol layers, from the bytes of a frame to the answer on the wire. The table
  is interpreted as the locale \<^verbatim>\<open>mac_cache\<close>.
  \<^item> \<^verbatim>\<open>Kernel\<close>: \<^verbatim>\<open>handle_interrupt\<close>, the interrupt entry, the network task, \<^verbatim>\<open>kernel_main\<close> and the demonstration tasks; a request
  is followed from the interrupt of the card to the reply.
  \<^item> \<^verbatim>\<open>Kernel_Run\<close>: the running kernel as a transition system with the invariant \<^verbatim>\<open>kernel_ok\<close>; no sequence of events fails.
  \<^item> \<^verbatim>\<open>Network_Run\<close>: the same system with the network task pre-empted at each of its accesses to the queue. Packets are
  answered in the order of their arrival, and eight accesses of the task suffice for one.
  \<^item> \<^verbatim>\<open>Kernel_Boot\<close>: \<^verbatim>\<open>kernel_main\<close> establishes that invariant.
  \<^item> \<^verbatim>\<open>Preemption\<close>: an interrupt is invisible to the task it interrupts, at any point of the task's code.
  \<^item> \<^verbatim>\<open>Boot\<close>: the assembly code before \<^verbatim>\<open>kernel_main\<close> and the constructors of the EV3 drivers.
  \<^item> \<^verbatim>\<open>Board_Ev3\<close>: the EV3 branches of the timer, the interrupt set-up, the timer interrupt and \<^verbatim>\<open>putchar\<close>.
  \<^item> \<^verbatim>\<open>Pininfo\<close>, \<^verbatim>\<open>Gpio\<close>, \<^verbatim>\<open>Spi\<close>, \<^verbatim>\<open>Sensor\<close>, \<^verbatim>\<open>Motor\<close>, \<^verbatim>\<open>Led\<close>, \<^verbatim>\<open>Button\<close>: the EV3 drivers. \<^verbatim>\<open>pin_view\<close> is the abstract state of the pins, and each
  driver's effect is an update of it at its own pins.
\<close>

subsection \<open>What the theorems show\<close>

text \<open>
  Composition: from reset, on a board with the card in a slot, \<^verbatim>\<open>kernel_main\<close> reaches a state from which every sequence of
  interrupts, accesses of the network task, instructions and system calls is executed without a fault
  (\<^verbatim>\<open>kernel_boots\<close>, \<^verbatim>\<open>kernel_run_safe\<close>), and the network task answers what has to be answered, in order and in a bounded
  number of its own steps (\<^verbatim>\<open>network_answers_in_order\<close>, \<^verbatim>\<open>arp_request_end_to_end\<close>). Memory: live allocations are disjoint and keep their contents.
  Scheduling: tasks are virtual processors, each runs once per period. Queueing: what is received is processed in
  order, once, unchanged, under pre-emption, and an interrupt is invisible to the task it interrupts. Protocols: frames and messages are right to the byte, pairs are learned
  for five minutes, a request for an unknown address times out after five seconds. Drivers: each changes its own pins
  only. The error theorems state the limits of the code as it is: a sixteenth active task is lost, a request of nearly
  four gigabytes yields a block of none, a pin without table entry clears a register, \<^verbatim>\<open>_Start\<close> loses the registers it
  pushed.
\<close>

subsection \<open>Bounds\<close>

text \<open>
  The sizes are those of the code: sixteen tasks, of which fifteen can wait, 128 packets of 8192 bytes, of which 127
  can wait, 32 receive and 8 transmit descriptors, ten ARP entries, sixteen megabytes of heap. \<^verbatim>\<open>vprintf\<close> calls itself for a
  null string and an unknown conversion with constant formats that do neither; its recursion has depth two.
  The enumeration of the bus, the loops of \<^verbatim>\<open>libc/string\<close> and the digit loops are structural or have a measure.
\<close>

subsection \<open>Not modelled\<close>

text \<open>
  The stack frames of compiled code (the stacks of the tasks are shown to be disjoint ranges) and instructions of
  user tasks other than as arbitrary changes of registers and of memory outside the heap. In \<^verbatim>\<open>Network_Run\<close> the handling
  of a packet that was taken out of the queue is one step; \<^verbatim>\<open>Preemption\<close> justifies this: an interrupt in the middle of it changes
  only the end of the queue, the receive index, the registers of the card, the clock and the order of the tasks. The memory accesses are those of the source: the variables of
  the queue are not volatile, and the repository is built without optimisation. The EV3 kernel is not composed: \<^verbatim>\<open>handle_interrupt\<close>
  and \<^verbatim>\<open>init_pci_interrupt\<close> use registers that \<^verbatim>\<open>memory.h\<close> defines for the VersatilePB only. \<^verbatim>\<open>SYS_PCICTL\<close> and other constants
  that no code uses, prototypes, the debug branches (\<^verbatim>\<open>E1000_DEBUG\<close> and the like are not defined), the table \<^verbatim>\<open>dispatch_routines\<close> that
  no code reads, the linker scripts and the build files. IPv4 packets are sent but not received, there is no TCP.
\<close>

end
